(* ===== verification/Go_Prelude.thy ===== *)
theory Go_Prelude
  imports Main "HOL-Library.Char_ord" "HOL-Library.List_Lexorder"
begin

text \<open>
  Shared vocabulary of the development: the types that stand for Go's basic types, the
  helper functions of Go's \<open>bytes\<close>, \<open>strings\<close> and \<open>unicode/utf8\<close> packages that the
  proxy uses, the interfaces (locales) several components share, and the generic lemmas
  on lists and association lists.

  A Go \<open>string\<close> or \<open>[]byte\<close> is an Isabelle \<open>string\<close>, a list of 8-bit characters, so
  \<open>length\<close> is Go's \<open>len\<close> and counts bytes. A \<open>time.Time\<close> or \<open>time.Duration\<close> is an
  integer number of nanoseconds and \<open>0\<close> is the zero \<open>time.Time\<close>.
\<close>

named_theorems bound_intros \<open>bounds that every operation keeps\<close>
named_theorems frame_simps \<open>fields an operation does not change\<close>

type_synonym go_time = int
type_synonym bytes = "char list"

abbreviation byte :: "char \<Rightarrow> nat" where
  "byte c \<equiv> of_char c"

text \<open>Signed 64-bit arithmetic: the two's complement value of an integer.\<close>

definition wrap64 :: "int \<Rightarrow> int" where
  "wrap64 x = (x + 2 ^ 63) mod 2 ^ 64 - 2 ^ 63"

definition int64_ok :: "int \<Rightarrow> bool" where
  "int64_ok x \<longleftrightarrow> - (2 ^ 63) \<le> x \<and> x < 2 ^ 63"

lemma wrap64_id [simp]: "int64_ok x \<Longrightarrow> wrap64 x = x"
  by (simp add: wrap64_def int64_ok_def)

lemma wrap64_ok [simp]: "int64_ok (wrap64 x)"
  by (simp add: wrap64_def int64_ok_def)

subsection \<open>\<open>strings\<close> and \<open>bytes\<close>\<close>

definition has_prefix :: "'a list \<Rightarrow> 'a list \<Rightarrow> bool" where
  "has_prefix pre s \<longleftrightarrow> take (length pre) s = pre"

definition trim_prefix :: "'a list \<Rightarrow> 'a list \<Rightarrow> 'a list" where
  "trim_prefix pre s = (if has_prefix pre s then drop (length pre) s else s)"

definition has_suffix :: "'a list \<Rightarrow> 'a list \<Rightarrow> bool" where
  "has_suffix suf s \<longleftrightarrow> has_prefix (rev suf) (rev s)"

definition trim_suffix :: "'a list \<Rightarrow> 'a list \<Rightarrow> 'a list" where
  "trim_suffix suf s = (if has_suffix suf s then take (length s - length suf) s else s)"

fun contains_sub :: "'a list \<Rightarrow> 'a list \<Rightarrow> bool" where
  "contains_sub sub [] \<longleftrightarrow> sub = []"
| "contains_sub sub (c # cs) \<longleftrightarrow> has_prefix sub (c # cs) \<or> contains_sub sub cs"

text \<open>\<open>strings.Split\<close> at one character, and \<open>strings.Join\<close>.\<close>

fun split_char :: "char \<Rightarrow> bytes \<Rightarrow> bytes list" where
  "split_char sep [] = [[]]"
| "split_char sep (c # cs) =
     (if c = sep then [] # split_char sep cs
      else case split_char sep cs of x # xs \<Rightarrow> (c # x) # xs | [] \<Rightarrow> [[c]])"

fun join_with :: "bytes \<Rightarrow> bytes list \<Rightarrow> bytes" where
  "join_with sep [] = []"
| "join_with sep [x] = x"
| "join_with sep (x # y # ys) = x @ sep @ join_with sep (y # ys)"

lemma has_prefix_append [simp]: "has_prefix pre (pre @ s)"
  by (simp add: has_prefix_def)

lemma has_prefix_iff: "has_prefix pre s \<longleftrightarrow> (\<exists>t. s = pre @ t)"
  by (metis append_take_drop_id has_prefix_append has_prefix_def)

lemma trim_prefix_append [simp]: "trim_prefix pre (pre @ s) = s"
  by (simp add: trim_prefix_def)

lemma length_trim_prefix_le: "length (trim_prefix pre s) \<le> length s"
  by (simp add: trim_prefix_def)

text \<open>
  \<open>strings.TrimSpace\<close> removes Unicode white space at both ends: the listed UTF-8
  encodings are the code points with the White\_Space property.
\<close>

definition space_encodings :: "bytes list" where
  "space_encodings =
    [[CHR 0x09], [CHR 0x0A], [CHR 0x0B], [CHR 0x0C], [CHR 0x0D], [CHR 0x20],
     [CHR 0xC2, CHR 0x85], [CHR 0xC2, CHR 0xA0], [CHR 0xE1, CHR 0x9A, CHR 0x80],
     [CHR 0xE2, CHR 0x80, CHR 0x80], [CHR 0xE2, CHR 0x80, CHR 0x81],
     [CHR 0xE2, CHR 0x80, CHR 0x82], [CHR 0xE2, CHR 0x80, CHR 0x83],
     [CHR 0xE2, CHR 0x80, CHR 0x84], [CHR 0xE2, CHR 0x80, CHR 0x85],
     [CHR 0xE2, CHR 0x80, CHR 0x86], [CHR 0xE2, CHR 0x80, CHR 0x87],
     [CHR 0xE2, CHR 0x80, CHR 0x88], [CHR 0xE2, CHR 0x80, CHR 0x89],
     [CHR 0xE2, CHR 0x80, CHR 0x8A], [CHR 0xE2, CHR 0x80, CHR 0xA8],
     [CHR 0xE2, CHR 0x80, CHR 0xA9], [CHR 0xE2, CHR 0x80, CHR 0xAF],
     [CHR 0xE2, CHR 0x81, CHR 0x9F], [CHR 0xE3, CHR 0x80, CHR 0x80]]"

text \<open>
  Strip any of the given words from the front, as long as one matches. The fuel is the
  length of the text, and every round removes at least one byte, so it never runs out
  (\<open>strip_words_stable\<close>).
\<close>

fun strip_words :: "nat \<Rightarrow> bytes list \<Rightarrow> bytes \<Rightarrow> bytes" where
  "strip_words 0 ws s = s"
| "strip_words (Suc n) ws s =
     (case find (\<lambda>w. has_prefix w s) ws of
        None \<Rightarrow> s
      | Some w \<Rightarrow> strip_words n ws (drop (length w) s))"

definition trim_left :: "bytes \<Rightarrow> bytes" where
  "trim_left s = strip_words (length s) space_encodings s"

definition trim_right :: "bytes \<Rightarrow> bytes" where
  "trim_right s = rev (strip_words (length s) (map rev space_encodings) (rev s))"

definition trim_space :: "bytes \<Rightarrow> bytes" where
  "trim_space s = trim_right (trim_left s)"

lemma find_None_iff_all: "find P xs = None \<longleftrightarrow> (\<forall>x \<in> set xs. \<not> P x)"
  by (auto simp: find_None_iff)

lemma strip_words_stable:
  assumes "length s \<le> n" and "[] \<notin> set ws"
  shows "find (\<lambda>w. has_prefix w (strip_words n ws s)) ws = None"
  using assms
proof (induction n ws s rule: strip_words.induct)
  case (1 ws s)
  then show ?case by (auto simp: find_None_iff has_prefix_def)
next
  case (2 n ws s)
  show ?case
  proof (cases "find (\<lambda>w. has_prefix w s) ws")
    case (Some w)
    then have "w \<in> set ws" by (auto simp: find_Some_iff)
    with "2.prems" have "length (drop (length w) s) \<le> n" by (cases w) auto
    with "2.IH" [OF Some] "2.prems" Some show ?thesis by simp
  qed simp
qed

subsection \<open>Logs\<close>

text \<open>A log of calls only ever grows at its end.\<close>

definition extends :: "'a list \<Rightarrow> 'a list \<Rightarrow> bool" where
  "extends xs ys \<longleftrightarrow> (\<exists>zs. ys = xs @ zs)"

lemma extends_refl [simp]: "extends xs xs"
  by (simp add: extends_def)

lemma extends_append [simp]: "extends xs (xs @ ys)"
  by (auto simp: extends_def)

lemma extends_trans: "extends xs ys \<Longrightarrow> extends ys zs \<Longrightarrow> extends xs zs"
  by (auto simp: extends_def)

lemma extends_snoc [simp]: "extends xs ys \<Longrightarrow> extends xs (ys @ zs)"
  by (auto simp: extends_def)

lemma extends_drop: "extends xs ys \<Longrightarrow> xs @ drop (length xs) ys = ys"
  by (auto simp: extends_def)

lemma extends_set: "extends xs ys \<Longrightarrow> set xs \<subseteq> set ys"
  by (auto simp: extends_def)

subsection \<open>Association lists: Go maps with executable enumeration\<close>

fun al_lookup :: "('k \<times> 'v) list \<Rightarrow> 'k \<Rightarrow> 'v option" where
  "al_lookup [] k = None"
| "al_lookup ((k', v) # m) k = (if k = k' then Some v else al_lookup m k)"

text \<open>Assignment \<open>m[k] = v\<close>: an existing entry keeps its place, a new one goes last.\<close>

fun al_put :: "'k \<Rightarrow> 'v \<Rightarrow> ('k \<times> 'v) list \<Rightarrow> ('k \<times> 'v) list" where
  "al_put k v [] = [(k, v)]"
| "al_put k v ((k', w) # m) = (if k = k' then (k, v) # m else (k', w) # al_put k v m)"

definition al_delete :: "'k \<Rightarrow> ('k \<times> 'v) list \<Rightarrow> ('k \<times> 'v) list" where
  "al_delete k m = filter (\<lambda>e. fst e \<noteq> k) m"

abbreviation al_keys :: "('k \<times> 'v) list \<Rightarrow> 'k list" where
  "al_keys m \<equiv> map fst m"

lemma al_lookup_map_of: "al_lookup m k = map_of m k"
  by (induction m) auto

lemma al_lookup_put [simp]: "al_lookup (al_put k v m) k' = (if k' = k then Some v else al_lookup m k')"
  by (induction m) auto

lemma al_lookup_delete [simp]: "al_lookup (al_delete k m) k' = (if k' = k then None else al_lookup m k')"
  by (induction m) (auto simp: al_delete_def)

lemma set_keys_put [simp]: "fst ` set (al_put k v m) = insert k (fst ` set m)"
  by (induction k v m rule: al_put.induct) auto

lemma set_keys_delete [simp]: "fst ` set (al_delete k m) = fst ` set m - {k}"
  by (auto simp: al_delete_def)

lemma keys_put_list: "al_keys (al_put k v m) = (if k \<in> fst ` set m then al_keys m else al_keys m @ [k])"
  by (induction k v m rule: al_put.induct) auto

lemma distinct_keys_put [simp]: "distinct (al_keys m) \<Longrightarrow> distinct (al_keys (al_put k v m))"
  by (auto simp: keys_put_list)

lemma distinct_keys_delete [simp]: "distinct (al_keys m) \<Longrightarrow> distinct (al_keys (al_delete k m))"
  by (induction m) (auto simp: al_delete_def)

lemma al_lookup_None: "al_lookup m k = None \<longleftrightarrow> k \<notin> fst ` set m"
  by (simp add: al_lookup_map_of map_of_eq_None_iff)

lemma al_lookup_in: "al_lookup m k = Some v \<Longrightarrow> (k, v) \<in> set m"
  by (induction m) (auto split: if_splits)

lemma al_lookup_iff: "distinct (al_keys m) \<Longrightarrow> al_lookup m k = Some v \<longleftrightarrow> (k, v) \<in> set m"
  by (simp add: al_lookup_map_of)

lemma length_al_put: "length (al_put k v m) = (if k \<in> fst ` set m then length m else Suc (length m))"
proof -
  have "length (al_keys (al_put k v m)) = (if k \<in> fst ` set m then length m else Suc (length m))"
    by (simp add: keys_put_list)
  then show ?thesis by simp
qed

lemma al_delete_notin: "k \<notin> fst ` set m \<Longrightarrow> al_delete k m = m"
  by (force simp: al_delete_def intro: filter_True)

lemma length_al_delete:
  "distinct (al_keys m) \<Longrightarrow> length (al_delete k m) = (if k \<in> fst ` set m then length m - 1 else length m)"
proof (induction m)
  case (Cons e m)
  then have IH: "length (al_delete k m) = (if k \<in> fst ` set m then length m - 1 else length m)"
    and e: "fst e \<notin> fst ` set m" by simp_all
  have hd: "al_delete k (e # m) = (if fst e = k then al_delete k m else e # al_delete k m)"
    by (simp add: al_delete_def)
  show ?case
  proof (cases "fst e = k")
    case True
    with e hd show ?thesis by (auto simp: al_delete_notin)
  next
    case False
    with IH hd show ?thesis by (cases m) (auto simp: image_iff)
  qed
qed (simp add: al_delete_def)

lemma set_al_put: "distinct (al_keys m) \<Longrightarrow> set (al_put k v m) = insert (k, v) {e \<in> set m. fst e \<noteq> k}"
  by (induction k v m rule: al_put.induct) (auto simp: image_iff)

lemma set_al_delete: "set (al_delete k m) = {e \<in> set m. fst e \<noteq> k}"
  by (auto simp: al_delete_def)

subsection \<open>Interfaces shared by components\<close>

text \<open>
  An incremental consumer of bytes: it may be fed in pieces of any size. The SSE parser,
  the response-body collector and the response-body capture all promise this; what they
  have in common is that only the concatenation of the pieces matters.
\<close>

locale chunked_consumer =
  fixes consume :: "'s \<Rightarrow> 'b list \<Rightarrow> 's"
    and ok :: "'s \<Rightarrow> bool"
  assumes consume_nil: "ok s \<Longrightarrow> consume s [] = s"
    and consume_append: "ok s \<Longrightarrow> consume s (xs @ ys) = consume (consume s xs) ys"
    and consume_ok: "ok s \<Longrightarrow> ok (consume s xs)"
begin

lemma foldl_ok: "ok s \<Longrightarrow> ok (foldl consume s cs)"
  by (induction cs arbitrary: s) (simp_all add: consume_ok)

lemma consume_concat: "ok s \<Longrightarrow> foldl consume s cs = consume s (concat cs)"
  by (induction cs arbitrary: s) (simp_all add: consume_nil consume_append consume_ok)

lemma same_bytes: "ok s \<Longrightarrow> concat cs = concat ds \<Longrightarrow> foldl consume s cs = foldl consume s ds"
  by (simp add: consume_concat)

end

text \<open>
  A component whose operations keep an invariant, whatever the order they are called in.
\<close>

locale invariant_machine =
  fixes step :: "'s \<Rightarrow> 'op \<Rightarrow> 's"
    and inv :: "'s \<Rightarrow> bool"
  assumes inv_step: "inv s \<Longrightarrow> inv (step s x)"
begin

lemma inv_run: "inv s \<Longrightarrow> inv (foldl step s xs)"
  by (induction xs arbitrary: s) (simp_all add: inv_step)

end

text \<open>
  A component whose operations interleave: a step relation, an initial state and an
  invariant that every step keeps.
\<close>

locale transition_system =
  fixes step :: "'s \<Rightarrow> 's \<Rightarrow> bool" and init :: "'s \<Rightarrow> bool" and inv :: "'s \<Rightarrow> bool"
  assumes inv_init: "init s \<Longrightarrow> inv s"
    and inv_step: "inv s \<Longrightarrow> step s t \<Longrightarrow> inv t"
begin

lemma inv_steps: "step\<^sup>*\<^sup>* s t \<Longrightarrow> inv s \<Longrightarrow> inv t"
  by (induction rule: rtranclp_induct) (auto intro: inv_step)

lemma reachable_inv: "init s \<Longrightarrow> step\<^sup>*\<^sup>* s t \<Longrightarrow> inv t"
  by (blast intro: inv_steps inv_init)

end

text \<open>
  A system and one of its components: what the system does, seen through \<open>view\<close>, the component
  can do by itself, as long as \<open>linked\<close>, which relates the component to the rest of the system,
  holds. So the component's invariant holds in the system.
\<close>

locale component_view = part: transition_system part_step part_init part_inv
  for part_step :: "'p \<Rightarrow> 'p \<Rightarrow> bool" and part_init :: "'p \<Rightarrow> bool" and part_inv :: "'p \<Rightarrow> bool" +
  fixes step :: "'s \<Rightarrow> 's \<Rightarrow> bool" and init :: "'s \<Rightarrow> bool" and view :: "'s \<Rightarrow> 'p" and linked :: "'s \<Rightarrow> bool"
  assumes view_init: "init s \<Longrightarrow> part_init (view s)" "init s \<Longrightarrow> linked s"
    and view_step: "part_inv (view s) \<Longrightarrow> linked s \<Longrightarrow> step s t \<Longrightarrow> part_step\<^sup>*\<^sup>* (view s) (view t)"
    and linked_step: "part_inv (view s) \<Longrightarrow> linked s \<Longrightarrow> step s t \<Longrightarrow> linked t"
begin

lemma view_inv_init: "init s \<Longrightarrow> part_inv (view s)"
  by (blast intro: part.inv_init view_init)

lemma view_inv_step: "part_inv (view s) \<Longrightarrow> linked s \<Longrightarrow> step s t \<Longrightarrow> part_inv (view t) \<and> linked t"
  by (blast intro: part.inv_steps view_step linked_step)

lemma view_run:
  "step\<^sup>*\<^sup>* s t \<Longrightarrow> part_inv (view s) \<Longrightarrow> linked s \<Longrightarrow>
   part_step\<^sup>*\<^sup>* (view s) (view t) \<and> part_inv (view t) \<and> linked t"
proof (induction rule: rtranclp_induct)
  case (step t u)
  then have "part_step\<^sup>*\<^sup>* (view s) (view t)" "part_inv (view t)" "linked t" by simp_all
  with view_step [OF _ _ step.hyps(2)] view_inv_step [OF _ _ step.hyps(2)] show ?case
    by (simp add: rtranclp_trans [of part_step "view s" "view t" "view u"])
qed simp

end

end
