(* ===== verification/Sse_Parser.thy ===== *)
theory Sse_Parser
  imports Go_Prelude
begin

text \<open>
  The server-sent-events parser of \<open>internal/serversentevents/parser.go\<close>.

  The record \<open>parser\<close> has the fields of the struct \<open>Parser\<close>. The callback \<open>OnEvent\<close> is
  modelled by the list of the calls made to it, in order: the payload, the terminal flag,
  and what the callback can read from the parser while it runs (\<open>Dropped()\<close>). Counters are
  natural numbers: each is at most the number of bytes fed.

  After the operations come the per-byte machine \<open>feed_byte\<close>, the specification of \<open>Feed\<close>,
  and the refinement \<open>feed_refines\<close>; the other lemmas are consequences of it.
\<close>

definition MaxLine :: nat where
  "MaxLine = 2 ^ 20"

definition dataPrefix :: bytes where
  "dataPrefix = ''data:''"

definition byteOrder :: bytes where
  "byteOrder = [CHR 0xEF, CHR 0xBB, CHR 0xBF]"

abbreviation LF :: char where "LF \<equiv> CHR 0x0A"
abbreviation CR :: char where "CR \<equiv> CHR 0x0D"

record sse_event =
  ev_payload :: bytes
  ev_terminal :: bool
  ev_dropped :: nat

record parser =
  p_carry :: bytes
  p_pendingLF :: bool
  p_lineSeen :: bool
  p_data :: bytes
  p_dataSeen :: bool
  p_dataDropped :: bool
  p_last :: bytes
  p_chunks :: nat
  p_dropping :: bool
  p_dropped :: nat
  p_sawDone :: bool
  p_events :: "sse_event list"

definition new_parser :: parser where
  "new_parser =
     \<lparr>p_carry = [], p_pendingLF = False, p_lineSeen = False, p_data = [], p_dataSeen = False,
      p_dataDropped = False, p_last = [], p_chunks = 0, p_dropping = False, p_dropped = 0,
      p_sawDone = False, p_events = []\<rparr>"

subsection \<open>Operations\<close>

fun index_byte :: "bytes \<Rightarrow> char \<Rightarrow> nat option" where
  "index_byte [] c = None"
| "index_byte (x # xs) c = (if x = c then Some 0 else map_option Suc (index_byte xs c))"

definition indexEOL :: "bytes \<Rightarrow> nat option" where
  "indexEOL b =
     (case (index_byte b LF, index_byte b CR) of
        (None, cr) \<Rightarrow> cr
      | (lf, None) \<Rightarrow> lf
      | (Some lf, Some cr) \<Rightarrow> if cr < lf then Some cr else Some lf)"

definition splitLine :: "parser \<Rightarrow> bytes \<Rightarrow> parser \<times> (bytes \<times> bytes) option" where
  "splitLine p b =
     (case indexEOL b of
        None \<Rightarrow> (p, None)
      | Some i \<Rightarrow>
          if b ! i = CR then
            if i + 1 < length b then
              if b ! (i + 1) = LF then (p, Some (take i b, drop (i + 2) b))
              else (p, Some (take i b, drop (i + 1) b))
            else (p\<lparr>p_pendingLF := True\<rparr>, Some (take i b, drop (i + 1) b))
          else (p, Some (take i b, drop (i + 1) b)))"

definition dropLine :: "parser \<Rightarrow> parser" where
  "dropLine p =
     p\<lparr>p_dropped := p_dropped p + 1, p_data := [], p_dataSeen := False, p_dataDropped := True\<rparr>"

definition dispatchEvent :: "parser \<Rightarrow> parser" where
  "dispatchEvent p =
     (let d = p_data p; seen = p_dataSeen p; droppedEvent = p_dataDropped p;
          q = p\<lparr>p_data := [], p_dataSeen := False, p_dataDropped := False\<rparr>
      in if droppedEvent \<or> \<not> seen \<or> length d = 0 then q
         else if d = ''[DONE]'' then
           q\<lparr>p_sawDone := True,
             p_events := p_events q @ [\<lparr>ev_payload = d, ev_terminal = True, ev_dropped = p_dropped q\<rparr>]\<rparr>
         else
           q\<lparr>p_chunks := p_chunks q + 1, p_last := d,
             p_events := p_events q @ [\<lparr>ev_payload = d, ev_terminal = False, ev_dropped = p_dropped q\<rparr>]\<rparr>)"

text \<open>The part of \<open>processLine\<close> after the byte order mark: an empty line or a field.\<close>

definition appendData :: "parser \<Rightarrow> bytes \<Rightarrow> parser" where
  "appendData p value =
     (let extra = (if p_dataSeen p then length value + 1 else length value)
      in if length (p_data p) + extra > MaxLine then dropLine p
         else
           let sep = (if p_dataSeen p then p_data p @ [LF] else p_data p)
           in p\<lparr>p_data := sep @ value, p_dataSeen := True\<rparr>)"

definition fieldValue :: "bytes \<Rightarrow> bytes" where
  "fieldValue line =
     (let value = drop (length dataPrefix) line
      in if length value > 0 \<and> value ! 0 = CHR '' '' then drop 1 value else value)"

definition processField :: "parser \<Rightarrow> bytes \<Rightarrow> parser" where
  "processField p line =
     (if length line = 0 then dispatchEvent p
      else if \<not> has_prefix dataPrefix line \<or> p_dataDropped p then p
      else appendData p (fieldValue line))"

definition processLine :: "parser \<Rightarrow> bytes \<Rightarrow> parser" where
  "processLine p line =
     (if \<not> p_lineSeen p then processField (p\<lparr>p_lineSeen := True\<rparr>) (trim_prefix byteOrder line)
      else processField p line)"

text \<open>
  The loop of \<open>Feed\<close>. Each round either returns or goes on with a shorter slice: the line
  that \<open>splitLine\<close> cuts off takes at least its terminator with it.
\<close>

lemma index_byte_less: "index_byte b c = Some i \<Longrightarrow> i < length b"
  by (induction b arbitrary: i) (auto split: if_splits)

lemma indexEOL_less: "indexEOL b = Some i \<Longrightarrow> i < length b"
  by (auto simp: indexEOL_def split: option.splits if_splits dest: index_byte_less)

lemma splitLine_shorter: "splitLine p b = (q, Some (line, rest)) \<Longrightarrow> length rest < length b"
  by (auto simp: splitLine_def split: option.splits if_splits dest!: indexEOL_less)

function feed :: "parser \<Rightarrow> bytes \<Rightarrow> parser" where
  "feed p b =
     (if b = [] then p
      else if p_pendingLF p \<and> b ! 0 = LF then feed (p\<lparr>p_pendingLF := False\<rparr>) (drop 1 b)
      else
        let p = p\<lparr>p_pendingLF := False\<rparr>
        in if p_dropping p then
             (case splitLine p b of
                (q, None) \<Rightarrow> q
              | (q, Some (_, rest)) \<Rightarrow> feed (q\<lparr>p_dropping := False\<rparr>) rest)
           else
             (case splitLine p b of
                (q, None) \<Rightarrow>
                  if length (p_carry q) + length b > MaxLine
                  then dropLine (q\<lparr>p_carry := [], p_dropping := True\<rparr>)
                  else q\<lparr>p_carry := p_carry q @ b\<rparr>
              | (q, Some (line, rest)) \<Rightarrow>
                  if length (p_carry q) + length line > MaxLine
                  then feed (dropLine (q\<lparr>p_carry := []\<rparr>)) rest
                  else
                    let full = (if length (p_carry q) > 0 then p_carry q @ line else line)
                    in feed ((processLine q full)\<lparr>p_carry := []\<rparr>) rest))"
  by pat_completeness auto
termination
  by (relation "measure (\<lambda>(p, b). length b)") (auto dest!: splitLine_shorter [OF sym])

declare feed.simps [simp del]

definition finish_parser :: "parser \<Rightarrow> parser" where
  "finish_parser p0 =
     (let p = p0\<lparr>p_pendingLF := False\<rparr>;
          q = (if p_dropping p then p\<lparr>p_dropping := False, p_carry := []\<rparr>
               else if length (p_carry p) > 0 then (processLine p (p_carry p))\<lparr>p_carry := []\<rparr>
               else p)
      in dispatchEvent q)"

subsection \<open>The per-byte machine\<close>

definition is_eol :: "char \<Rightarrow> bool" where
  "is_eol c \<longleftrightarrow> c = LF \<or> c = CR"

definition feed_byte :: "parser \<Rightarrow> char \<Rightarrow> parser" where
  "feed_byte p0 c =
     (if p_pendingLF p0 \<and> c = LF then p0\<lparr>p_pendingLF := False\<rparr>
      else
        let p = p0\<lparr>p_pendingLF := False\<rparr>
        in if is_eol c then
             (let q = (if p_dropping p then p\<lparr>p_dropping := False\<rparr>
                       else (processLine p (p_carry p))\<lparr>p_carry := []\<rparr>)
              in q\<lparr>p_pendingLF := (c = CR)\<rparr>)
           else if p_dropping p then p
           else if length (p_carry p) + 1 > MaxLine
           then dropLine (p\<lparr>p_carry := [], p_dropping := True\<rparr>)
           else p\<lparr>p_carry := p_carry p @ [c]\<rparr>)"

text \<open>What every operation leaves alone, and the invariant of the line buffer.\<close>

lemma parser_same [simp]:
  "\<not> p_pendingLF p \<Longrightarrow> p\<lparr>p_pendingLF := False\<rparr> = p"
  "p_lineSeen p \<Longrightarrow> p\<lparr>p_lineSeen := True\<rparr> = p"
  "p_carry p = [] \<Longrightarrow> p\<lparr>p_carry := []\<rparr> = p"
  "\<not> p_dropping p \<Longrightarrow> p\<lparr>p_dropping := False\<rparr> = p"
  by (simp_all add: parser.equality)

lemma dispatchEvent_frame [frame_simps]:
  "dispatchEvent (p\<lparr>p_carry := x\<rparr>) = (dispatchEvent p)\<lparr>p_carry := x\<rparr>"
  "dispatchEvent (p\<lparr>p_pendingLF := b\<rparr>) = (dispatchEvent p)\<lparr>p_pendingLF := b\<rparr>"
  "dispatchEvent (p\<lparr>p_dropping := b\<rparr>) = (dispatchEvent p)\<lparr>p_dropping := b\<rparr>"
  by (simp_all add: dispatchEvent_def Let_def)

lemma dropLine_frame [frame_simps]:
  "dropLine (p\<lparr>p_carry := x\<rparr>) = (dropLine p)\<lparr>p_carry := x\<rparr>"
  "dropLine (p\<lparr>p_pendingLF := b\<rparr>) = (dropLine p)\<lparr>p_pendingLF := b\<rparr>"
  "dropLine (p\<lparr>p_dropping := b\<rparr>) = (dropLine p)\<lparr>p_dropping := b\<rparr>"
  by (simp_all add: dropLine_def)

lemma appendData_frame [frame_simps]:
  "appendData (p\<lparr>p_carry := x\<rparr>) v = (appendData p v)\<lparr>p_carry := x\<rparr>"
  "appendData (p\<lparr>p_pendingLF := b\<rparr>) v = (appendData p v)\<lparr>p_pendingLF := b\<rparr>"
  "appendData (p\<lparr>p_dropping := b\<rparr>) v = (appendData p v)\<lparr>p_dropping := b\<rparr>"
  by (simp_all add: appendData_def Let_def frame_simps)

lemma processField_frame [frame_simps]:
  "processField (p\<lparr>p_carry := x\<rparr>) l = (processField p l)\<lparr>p_carry := x\<rparr>"
  "processField (p\<lparr>p_pendingLF := b\<rparr>) l = (processField p l)\<lparr>p_pendingLF := b\<rparr>"
  "processField (p\<lparr>p_dropping := b\<rparr>) l = (processField p l)\<lparr>p_dropping := b\<rparr>"
  by (simp_all add: processField_def frame_simps)

lemma parser_update_swap:
  "p\<lparr>p_carry := x, p_lineSeen := t\<rparr> = p\<lparr>p_lineSeen := t\<rparr>\<lparr>p_carry := x\<rparr>"
  "p\<lparr>p_pendingLF := b, p_lineSeen := t\<rparr> = p\<lparr>p_lineSeen := t\<rparr>\<lparr>p_pendingLF := b\<rparr>"
  "p\<lparr>p_dropping := b, p_lineSeen := t\<rparr> = p\<lparr>p_lineSeen := t\<rparr>\<lparr>p_dropping := b\<rparr>"
  by simp_all

lemma processLine_frame [frame_simps]:
  "processLine (p\<lparr>p_carry := x\<rparr>) l = (processLine p l)\<lparr>p_carry := x\<rparr>"
  "processLine (p\<lparr>p_pendingLF := b\<rparr>) l = (processLine p l)\<lparr>p_pendingLF := b\<rparr>"
  "processLine (p\<lparr>p_dropping := b\<rparr>) l = (processLine p l)\<lparr>p_dropping := b\<rparr>"
  unfolding processLine_def parser_update_swap by (simp_all add: processField_frame)

lemma parser_fields_frame [frame_simps]:
  "p_pendingLF (dispatchEvent p) = p_pendingLF p" "p_carry (dispatchEvent p) = p_carry p"
  "p_dropping (dispatchEvent p) = p_dropping p" "p_pendingLF (dropLine p) = p_pendingLF p"
  "p_carry (dropLine p) = p_carry p" "p_dropping (dropLine p) = p_dropping p"
  by (simp_all add: dispatchEvent_def dropLine_def Let_def)

lemma processLine_fields_frame [frame_simps]:
  "p_pendingLF (processLine p l) = p_pendingLF p" "p_carry (processLine p l) = p_carry p"
  "p_dropping (processLine p l) = p_dropping p"
  by (simp_all add: processLine_def processField_def appendData_def Let_def frame_simps)

definition parser_ok :: "parser \<Rightarrow> bool" where
  "parser_ok p \<longleftrightarrow> length (p_carry p) \<le> MaxLine"

lemma parser_ok_new [simp]: "parser_ok new_parser"
  by (simp add: parser_ok_def new_parser_def)

lemma feed_byte_ok: "parser_ok p \<Longrightarrow> parser_ok (feed_byte p c)"
  by (simp add: feed_byte_def parser_ok_def Let_def frame_simps)

lemma foldl_feed_byte_ok: "parser_ok p \<Longrightarrow> parser_ok (foldl feed_byte p b)"
  by (induction b arbitrary: p) (simp_all add: feed_byte_ok)

lemma feed_byte_pending: "c \<noteq> LF \<Longrightarrow> feed_byte (p\<lparr>p_pendingLF := b\<rparr>) c = feed_byte p c"
  by (simp add: feed_byte_def)

text \<open>A stretch of bytes without a line terminator.\<close>

lemma foldl_feed_byte_line:
  assumes "\<forall>c \<in> set l. \<not> is_eol c" and "\<not> p_pendingLF p" and "parser_ok p"
  shows "foldl feed_byte p l =
    (if p_dropping p then p
     else if length (p_carry p) + length l > MaxLine
     then dropLine (p\<lparr>p_carry := [], p_dropping := True\<rparr>)
     else p\<lparr>p_carry := p_carry p @ l\<rparr>)"
  using assms
proof (induction l arbitrary: p)
  case Nil
  then show ?case by (simp add: parser_ok_def)
next
  case (Cons c l)
  let ?q = "feed_byte p c"
  have same: "p\<lparr>p_pendingLF := False\<rparr> = p" using Cons.prems by simp
  have "\<not> (p_pendingLF p \<and> c = LF)" "\<not> is_eol c" using Cons.prems by simp_all
  then have q: "?q = (if p_dropping p then p
      else if length (p_carry p) + 1 > MaxLine then dropLine (p\<lparr>p_carry := [], p_dropping := True\<rparr>)
      else p\<lparr>p_carry := p_carry p @ [c]\<rparr>)"
    by (simp only: feed_byte_def if_False Let_def same)
  then have "\<not> p_pendingLF ?q" using Cons.prems by (simp add: frame_simps)
  moreover have "parser_ok ?q" using Cons.prems by (simp add: feed_byte_ok)
  ultimately have "foldl feed_byte ?q l =
    (if p_dropping ?q then ?q
     else if length (p_carry ?q) + length l > MaxLine
     then dropLine (?q\<lparr>p_carry := [], p_dropping := True\<rparr>)
     else ?q\<lparr>p_carry := p_carry ?q @ l\<rparr>)"
    using Cons.IH Cons.prems by simp
  then show ?case by (simp add: q frame_simps)
qed

lemma index_byte_None: "index_byte b c = None \<longleftrightarrow> c \<notin> set b"
  by (induction b) auto

lemma index_byte_Some: "index_byte b c = Some i \<Longrightarrow> b ! i = c \<and> c \<notin> set (take i b)"
  by (induction b arbitrary: i) (auto split: if_splits)

lemma indexEOL_None: "indexEOL b = None \<longleftrightarrow> (\<forall>c \<in> set b. \<not> is_eol c)"
proof -
  have "indexEOL b = None \<longleftrightarrow> index_byte b LF = None \<and> index_byte b CR = None"
    by (simp add: indexEOL_def split: option.split)
  then show ?thesis unfolding index_byte_None is_eol_def by blast
qed

lemma indexEOL_Some:
  assumes "indexEOL b = Some i"
  shows "is_eol (b ! i) \<and> (\<forall>c \<in> set (take i b). \<not> is_eol c)"
proof -
  have le: "\<And>i j. i \<le> j \<Longrightarrow> set (take i b) \<subseteq> set (take j b)"
    by (rule set_take_subset_set_take)
  consider "index_byte b LF = None" "index_byte b CR = Some i"
    | "index_byte b LF = Some i" "index_byte b CR = None"
    | j where "index_byte b LF = Some i" "index_byte b CR = Some j" "i \<le> j"
    | j where "index_byte b LF = Some j" "index_byte b CR = Some i" "i \<le> j"
    using assms by (fastforce simp: indexEOL_def split: option.splits if_splits)
  then show ?thesis
  proof cases
    case 1
    with index_byte_Some [of b CR i] show ?thesis
      by (auto simp: is_eol_def index_byte_None dest: in_set_takeD)
  next
    case 2
    with index_byte_Some [of b LF i] show ?thesis
      by (auto simp: is_eol_def index_byte_None dest: in_set_takeD)
  next
    case 3
    with le [of i j] index_byte_Some [of b LF i] index_byte_Some [of b CR j] show ?thesis
      by (auto simp: is_eol_def)
  next
    case 4
    with le [of i j] index_byte_Some [of b LF j] index_byte_Some [of b CR i] show ?thesis
      by (auto simp: is_eol_def)
  qed
qed

text \<open>What \<open>splitLine\<close> cuts off: a line, its terminator, and the rest of the slice.\<close>

lemma splitLine_None: "splitLine p b = (q, None) \<Longrightarrow> q = p \<and> (\<forall>c \<in> set b. \<not> is_eol c)"
  by (auto simp: splitLine_def indexEOL_None [symmetric] split: option.splits if_splits)

lemma splitLine_Some:
  assumes "splitLine p b = (q, Some (line, rest))"
  obtains eol sfx where "b = line @ eol # sfx" and "\<forall>c \<in> set line. \<not> is_eol c" and "is_eol eol"
    and "(eol = LF \<and> sfx = rest \<and> q = p) \<or> (eol = CR \<and> sfx = LF # rest \<and> q = p) \<or>
         (eol = CR \<and> sfx = [] \<and> rest = [] \<and> q = p\<lparr>p_pendingLF := True\<rparr>) \<or>
         (eol = CR \<and> sfx = rest \<and> rest \<noteq> [] \<and> hd rest \<noteq> LF \<and> q = p)"
proof -
  from assms obtain i where i: "indexEOL b = Some i"
    by (auto simp: splitLine_def split: option.splits)
  note less = indexEOL_less [OF i] and eol = indexEOL_Some [OF i]
  have b: "b = take i b @ b ! i # drop (i + 1) b"
    using less by (simp add: id_take_nth_drop)
  show ?thesis
  proof (rule that [of "b ! i" "drop (i + 1) b"])
    show "b = line @ b ! i # drop (i + 1) b"
      using assms b by (auto simp: splitLine_def i split: if_splits)
    show "\<forall>c \<in> set line. \<not> is_eol c" "is_eol (b ! i)"
      using assms eol by (auto simp: splitLine_def i split: if_splits)
    have tl: "drop (Suc i) b = b ! Suc i # drop (Suc (Suc i)) b" if "Suc i < length b"
      using that by (simp add: Cons_nth_drop_Suc)
    consider "b ! i = LF" | "b ! i = CR" "\<not> i + 1 < length b"
      | "b ! i = CR" "i + 1 < length b" "b ! (i + 1) = LF"
      | "b ! i = CR" "i + 1 < length b" "b ! (i + 1) \<noteq> LF"
      using eol by (auto simp: is_eol_def)
    then show "(b ! i = LF \<and> drop (i + 1) b = rest \<and> q = p) \<or>
         (b ! i = CR \<and> drop (i + 1) b = LF # rest \<and> q = p) \<or>
         (b ! i = CR \<and> drop (i + 1) b = [] \<and> rest = [] \<and> q = p\<lparr>p_pendingLF := True\<rparr>) \<or>
         (b ! i = CR \<and> drop (i + 1) b = rest \<and> rest \<noteq> [] \<and> hd rest \<noteq> LF \<and> q = p)"
      using assms by cases (auto simp: splitLine_def i tl)
  qed
qed

subsection \<open>\<open>Feed\<close> implements the per-byte machine\<close>

lemma foldl_feed_byte_start:
  assumes "b \<noteq> []" and "\<not> (p_pendingLF p \<and> b ! 0 = LF)"
  shows "foldl feed_byte p b = foldl feed_byte (p\<lparr>p_pendingLF := False\<rparr>) b"
  using assms by (cases b) (auto simp: feed_byte_def Let_def)

lemma foldl_after_eol:
  assumes "\<not> p_pendingLF p"
    and "(eol = LF \<and> sfx = rest \<and> q = p) \<or> (eol = CR \<and> sfx = LF # rest \<and> q = p) \<or>
         (eol = CR \<and> sfx = [] \<and> rest = [] \<and> q = p\<lparr>p_pendingLF := True\<rparr>) \<or>
         (eol = CR \<and> sfx = rest \<and> rest \<noteq> [] \<and> hd rest \<noteq> LF \<and> q = p)"
  shows "foldl feed_byte (X\<lparr>p_pendingLF := (eol = CR)\<rparr>) sfx =
           foldl feed_byte (X\<lparr>p_pendingLF := p_pendingLF q\<rparr>) rest"
proof -
  have "feed_byte (X\<lparr>p_pendingLF := True\<rparr>) LF = X\<lparr>p_pendingLF := False\<rparr>"
    by (simp add: feed_byte_def)
  moreover have "foldl feed_byte (X\<lparr>p_pendingLF := True\<rparr>) sfx =
      foldl feed_byte (X\<lparr>p_pendingLF := False\<rparr>) sfx" if "sfx \<noteq> []" "hd sfx \<noteq> LF"
    using that by (cases sfx) (simp_all add: feed_byte_pending)
  ultimately show ?thesis using assms by auto
qed

lemma splitLine_state: "splitLine p b = (q, r) \<Longrightarrow> q = p\<lparr>p_pendingLF := p_pendingLF q\<rparr>"
  by (auto simp: splitLine_def split: option.splits if_splits)

text \<open>One line with its terminator, from a state that waits for no line feed.\<close>

definition end_line :: "parser \<Rightarrow> bytes \<Rightarrow> parser" where
  "end_line p line =
     (if p_dropping p then p\<lparr>p_dropping := False\<rparr>
      else if length (p_carry p) + length line > MaxLine then dropLine (p\<lparr>p_carry := []\<rparr>)
      else (processLine p (p_carry p @ line))\<lparr>p_carry := []\<rparr>)"

lemma foldl_feed_byte_eol:
  assumes "\<forall>c \<in> set line. \<not> is_eol c" "is_eol eol" "\<not> p_pendingLF p" "parser_ok p"
  shows "foldl feed_byte p (line @ eol # sfx) = foldl feed_byte ((end_line p line)\<lparr>p_pendingLF := (eol = CR)\<rparr>) sfx"
proof -
  let ?r = "foldl feed_byte p line"
  have r: "?r = (if p_dropping p then p
      else if length (p_carry p) + length line > MaxLine
      then dropLine (p\<lparr>p_carry := [], p_dropping := True\<rparr>) else p\<lparr>p_carry := p_carry p @ line\<rparr>)"
    by (rule foldl_feed_byte_line [OF assms(1,3,4)])
  have np: "\<not> p_pendingLF ?r" using assms(3) by (simp add: r frame_simps)
  have "feed_byte ?r eol =
      (if p_dropping ?r then ?r\<lparr>p_dropping := False\<rparr>
       else (processLine ?r (p_carry ?r))\<lparr>p_carry := []\<rparr>)\<lparr>p_pendingLF := (eol = CR)\<rparr>"
  proof -
    have "?r\<lparr>p_pendingLF := False\<rparr> = ?r" using np by simp
    moreover have "\<not> (p_pendingLF ?r \<and> eol = LF)" using np by simp
    ultimately show ?thesis using assms(2) by (simp only: feed_byte_def if_False if_True Let_def)
  qed
  also have "\<dots> = (end_line p line)\<lparr>p_pendingLF := (eol = CR)\<rparr>"
    by (simp add: r end_line_def frame_simps dropLine_def)
  finally show ?thesis by simp
qed

lemma end_line_pending:
  "(end_line p line)\<lparr>p_pendingLF := b\<rparr> = end_line (p\<lparr>p_pendingLF := b\<rparr>) line"
  by (simp add: end_line_def frame_simps dropLine_def)

lemma end_line_ok: "parser_ok p \<Longrightarrow> parser_ok (end_line p line)"
  by (simp add: end_line_def parser_ok_def frame_simps)

lemma feed_unfold:
  assumes "b \<noteq> []" and "\<not> (p_pendingLF p \<and> b ! 0 = LF)" and "p' = p\<lparr>p_pendingLF := False\<rparr>"
  shows "feed p b =
    (case splitLine p' b of
       (q, None) \<Rightarrow>
         (if p_dropping p' then p'
          else if length (p_carry p') + length b > MaxLine
          then dropLine (p'\<lparr>p_carry := [], p_dropping := True\<rparr>)
          else p'\<lparr>p_carry := p_carry p' @ b\<rparr>)
     | (q, Some (line, rest)) \<Rightarrow> feed (end_line q line) rest)"
proof (cases "splitLine p' b")
  case (Pair q r)
  have q: "p_dropping q = p_dropping p'" "p_carry q = p_carry p'"
    using splitLine_state [OF Pair] by (metis parser.select_convs parser.surjective parser.update_convs(2))+
  have full: "(if xs \<noteq> [] then xs @ ys else ys) = xs @ ys" for xs ys :: bytes by simp
  have "feed p b = (if p_dropping p' then
             (case splitLine p' b of (q, None) \<Rightarrow> q
              | (q, Some (_, rest)) \<Rightarrow> feed (q\<lparr>p_dropping := False\<rparr>) rest)
           else
             (case splitLine p' b of
                (q, None) \<Rightarrow>
                  if length (p_carry q) + length b > MaxLine
                  then dropLine (q\<lparr>p_carry := [], p_dropping := True\<rparr>)
                  else q\<lparr>p_carry := p_carry q @ b\<rparr>
              | (q, Some (line, rest)) \<Rightarrow>
                  if length (p_carry q) + length line > MaxLine
                  then feed (dropLine (q\<lparr>p_carry := []\<rparr>)) rest
                  else feed ((processLine q (p_carry q @ line))\<lparr>p_carry := []\<rparr>) rest))"
    by (subst feed.simps)
      (simp only: assms(1,3) if_not_P [OF assms(2)] if_False Let_def length_greater_0_conv full)
  then show ?thesis
    using Pair q splitLine_None [of p' b q] by (simp add: end_line_def split: option.split)
qed

lemma feed_eq_bytes: "parser_ok p \<Longrightarrow> feed p b = foldl feed_byte p b"
proof (induction "length b" arbitrary: p b rule: less_induct)
  case less
  show ?case
  proof (cases "b = [] \<or> (p_pendingLF p \<and> b ! 0 = LF)")
    case True
    then consider "b = []" | cs where "b = LF # cs" "p_pendingLF p" by (cases b) auto
    then show ?thesis
    proof cases
      case 2
      with less show ?thesis
        by (simp add: feed.simps [of p "LF # cs"] feed_byte_def parser_ok_def)
    qed (simp add: feed.simps)
  next
    case False
    let ?p = "p\<lparr>p_pendingLF := False\<rparr>"
    have fold: "foldl feed_byte p b = foldl feed_byte ?p b"
      using False by (intro foldl_feed_byte_start) auto
    have ok: "parser_ok ?p" using less.prems by (simp add: parser_ok_def)
    obtain q r where split: "splitLine ?p b = (q, r)" by fastforce
    show ?thesis
    proof (cases r)
      case None
      with split splitLine_None [of ?p b q] foldl_feed_byte_line [of b ?p] ok fold False
      show ?thesis by (simp add: feed_unfold [where p' = ?p])
    next
      case (Some lr)
      then obtain line rest where lr: "r = Some (line, rest)" by (cases lr) auto
      from split lr have split': "splitLine ?p b = (q, Some (line, rest))" by simp
      obtain eol sfx where b: "b = line @ eol # sfx"
        and noeol: "\<forall>c \<in> set line. \<not> is_eol c" "is_eol eol"
        and shape: "(eol = LF \<and> sfx = rest \<and> q = ?p) \<or> (eol = CR \<and> sfx = LF # rest \<and> q = ?p) \<or>
         (eol = CR \<and> sfx = [] \<and> rest = [] \<and> q = ?p\<lparr>p_pendingLF := True\<rparr>) \<or>
         (eol = CR \<and> sfx = rest \<and> rest \<noteq> [] \<and> hd rest \<noteq> LF \<and> q = ?p)"
        by (rule splitLine_Some [OF split'])
      have q: "end_line q line = (end_line ?p line)\<lparr>p_pendingLF := p_pendingLF q\<rparr>"
        using splitLine_state [OF split'] by (metis end_line_pending)
      have okq: "parser_ok (end_line q line)"
        unfolding q using end_line_ok [OF ok] by (simp add: parser_ok_def)
      have "foldl feed_byte p b = foldl feed_byte (end_line q line) rest"
        unfolding fold q
        using foldl_feed_byte_eol [OF noeol _ ok] foldl_after_eol [OF _ shape] b by simp
      moreover have "feed p b = feed (end_line q line) rest"
        using False split' by (subst feed_unfold [where p' = ?p]) auto
      ultimately show ?thesis
        using less.hyps [OF splitLine_shorter [OF split'] okq] by simp
    qed
  qed
qed

text \<open>\<open>Feed\<close> is a chunked consumer: it meets the contract of the prelude.\<close>

interpretation sse: chunked_consumer feed parser_ok
  by unfold_locales (simp_all add: feed_eq_bytes foldl_feed_byte_ok)

subsection \<open>The invariant\<close>

definition event_inv :: "sse_event \<Rightarrow> bool" where
  "event_inv e \<longleftrightarrow> ev_payload e \<noteq> [] \<and> length (ev_payload e) \<le> MaxLine \<and> CR \<notin> set (ev_payload e) \<and>
     (ev_terminal e \<longleftrightarrow> ev_payload e = ''[DONE]'')"

definition data_events :: "parser \<Rightarrow> sse_event list" where
  "data_events p = filter (\<lambda>e. \<not> ev_terminal e) (p_events p)"

definition parser_inv :: "parser \<Rightarrow> bool" where
  "parser_inv p \<longleftrightarrow>
     length (p_carry p) \<le> MaxLine \<and> (\<forall>c \<in> set (p_carry p). \<not> is_eol c) \<and>
     length (p_data p) \<le> MaxLine \<and> CR \<notin> set (p_data p) \<and>
     (\<not> p_dataSeen p \<longrightarrow> p_data p = []) \<and> (p_dataDropped p \<longrightarrow> \<not> p_dataSeen p) \<and>
     (p_dropping p \<longrightarrow> p_carry p = [] \<and> p_dataDropped p) \<and>
     (\<forall>e \<in> set (p_events p). event_inv e \<and> ev_dropped e \<le> p_dropped p) \<and>
     p_chunks p = length (data_events p) \<and>
     p_sawDone p = (\<exists>e \<in> set (p_events p). ev_terminal e) \<and>
     p_last p = (if data_events p = [] then [] else ev_payload (last (data_events p)))"

lemma parser_inv_new [simp]: "parser_inv new_parser"
  by (simp add: parser_inv_def new_parser_def data_events_def)

lemma parser_inv_ok: "parser_inv p \<Longrightarrow> parser_ok p"
  by (simp add: parser_inv_def parser_ok_def)

lemma dispatchEvent_inv: "parser_inv p \<Longrightarrow> \<not> p_dropping p \<Longrightarrow> parser_inv (dispatchEvent p)"
  by (auto simp: parser_inv_def dispatchEvent_def Let_def data_events_def event_inv_def)

lemma dropLine_inv: "parser_inv p \<Longrightarrow> parser_inv (dropLine p)"
  by (fastforce simp: parser_inv_def dropLine_def data_events_def)

lemma appendData_inv:
  assumes "parser_inv p" "CR \<notin> set v" "\<not> p_dataDropped p"
  shows "parser_inv (appendData p v)"
proof (cases "length (p_data p) + (if p_dataSeen p then length v + 1 else length v) > MaxLine")
  case True
  then show ?thesis using dropLine_inv [OF assms(1)] by (simp add: appendData_def Let_def)
next
  case False
  then show ?thesis using assms
    by (auto simp: appendData_def Let_def parser_inv_def data_events_def split: if_splits)
qed

lemma set_fieldValue: "set (fieldValue line) \<subseteq> set line"
  by (auto simp: fieldValue_def Let_def dest: in_set_dropD)

lemma processField_inv:
  assumes "parser_inv p" "CR \<notin> set line" "\<not> p_dropping p"
  shows "parser_inv (processField p line)"
  using assms set_fieldValue [of line]
  by (auto simp: processField_def dispatchEvent_inv intro: appendData_inv)

lemma processLine_inv:
  assumes "parser_inv p" "CR \<notin> set line" "\<not> p_dropping p"
  shows "parser_inv (processLine p line)"
proof -
  have "parser_inv (p\<lparr>p_lineSeen := True\<rparr>)"
    using assms(1) by (simp add: parser_inv_def data_events_def)
  moreover have "CR \<notin> set (trim_prefix byteOrder line)"
    using assms(2) by (auto simp: trim_prefix_def dest: in_set_dropD)
  ultimately show ?thesis
    using assms by (simp add: processLine_def processField_inv)
qed

lemma parser_inv_carry:
  assumes "parser_inv p" "length x \<le> MaxLine" "\<forall>c \<in> set x. \<not> is_eol c" "p_dropping p \<longrightarrow> x = []"
  shows "parser_inv (p\<lparr>p_carry := x\<rparr>)"
  using assms by (simp add: parser_inv_def data_events_def)

lemma parser_inv_pendingLF [simp]: "parser_inv (p\<lparr>p_pendingLF := b\<rparr>) = parser_inv p"
  by (simp add: parser_inv_def data_events_def)

lemma feed_byte_inv:
  assumes "parser_inv p"
  shows "parser_inv (feed_byte p c)"
proof -
  let ?p = "p\<lparr>p_pendingLF := False\<rparr>"
  have inv: "parser_inv ?p" using assms by simp
  have drop: "parser_inv ((dropLine ?p)\<lparr>p_carry := [], p_dropping := True\<rparr>)"
    using dropLine_inv [OF inv] by (simp add: parser_inv_def data_events_def dropLine_def)
  consider "p_pendingLF p \<and> c = LF" | "is_eol c" "\<not> (p_pendingLF p \<and> c = LF)" "p_dropping p"
    | "is_eol c" "\<not> (p_pendingLF p \<and> c = LF)" "\<not> p_dropping p" | "\<not> is_eol c"
    by blast
  then show ?thesis
  proof cases
    case 2
    then show ?thesis using assms by (simp add: feed_byte_def parser_inv_def data_events_def)
  next
    case 3
    then have "CR \<notin> set (p_carry ?p)" using inv by (auto simp: parser_inv_def is_eol_def)
    with 3 inv have "parser_inv (processLine ?p (p_carry ?p))" by (simp add: processLine_inv)
    then have "parser_inv ((processLine ?p (p_carry ?p))\<lparr>p_carry := []\<rparr>)"
      by (rule parser_inv_carry) simp_all
    then show ?thesis
      unfolding feed_byte_def if_not_P [OF 3(2)] Let_def using 3 by simp
  next
    case 4
    then have "\<not> (p_pendingLF p \<and> c = LF)" by (simp add: is_eol_def)
    moreover have "parser_inv (?p\<lparr>p_carry := p_carry ?p @ [c]\<rparr>)"
      if "\<not> p_dropping p" "length (p_carry ?p) + 1 \<le> MaxLine"
      using inv 4 that by (intro parser_inv_carry) (auto simp: parser_inv_def)
    ultimately show ?thesis
      using inv drop 4 by (auto simp: feed_byte_def Let_def frame_simps)
  qed (use assms in \<open>simp add: feed_byte_def\<close>)
qed

interpretation sse_bytes: invariant_machine feed_byte parser_inv
  by unfold_locales (rule feed_byte_inv)

lemma feed_inv: "parser_inv p \<Longrightarrow> parser_inv (feed p b)"
  by (simp add: feed_eq_bytes parser_inv_ok sse_bytes.inv_run)

interpretation sse_chunks: invariant_machine feed parser_inv
  by unfold_locales (rule feed_inv)

lemma finish_parser_inv:
  assumes "parser_inv p"
  shows "parser_inv (finish_parser p)"
proof -
  let ?p = "p\<lparr>p_pendingLF := False\<rparr>"
  have inv: "parser_inv ?p" using assms by simp
  have "parser_inv (?p\<lparr>p_dropping := False, p_carry := []\<rparr>)"
    using inv by (simp add: parser_inv_def data_events_def)
  moreover have "parser_inv ((processLine ?p (p_carry ?p))\<lparr>p_carry := []\<rparr>)" if "\<not> p_dropping p"
  proof -
    have "CR \<notin> set (p_carry ?p)" using inv by (auto simp: parser_inv_def is_eol_def)
    with inv that have "parser_inv (processLine ?p (p_carry ?p))" by (simp add: processLine_inv)
    then show ?thesis by (rule parser_inv_carry) simp_all
  qed
  moreover have "\<not> p_dropping ((processLine ?p (p_carry ?p))\<lparr>p_carry := []\<rparr>)" if "\<not> p_dropping p"
    using that by (simp add: processLine_fields_frame)
  ultimately show ?thesis
    using inv by (simp add: finish_parser_def Let_def dispatchEvent_inv)
qed

subsection \<open>Round trip: events written line by line are read back\<close>

fun lines_of :: "bytes \<Rightarrow> bytes list" where
  "lines_of [] = [[]]"
| "lines_of (c # cs) =
     (if c = LF then [] # lines_of cs
      else (case lines_of cs of [] \<Rightarrow> [[c]] | l # ls \<Rightarrow> (c # l) # ls))"

definition data_lines :: "bytes list \<Rightarrow> bytes" where
  "data_lines ls = concat (map (\<lambda>l. ''data: '' @ l @ [LF]) ls)"

definition encode_event :: "bytes \<Rightarrow> bytes" where
  "encode_event d = data_lines (lines_of d) @ [LF]"

definition sendable :: "bytes \<Rightarrow> bool" where
  "sendable d \<longleftrightarrow> d \<noteq> [] \<and> CR \<notin> set d \<and> length d + 6 \<le> MaxLine"

definition between_events :: "parser \<Rightarrow> bool" where
  "between_events p \<longleftrightarrow> p_carry p = [] \<and> \<not> p_dropping p \<and> p_data p = [] \<and> \<not> p_dataSeen p \<and> \<not> p_dataDropped p"

lemma lines_of_join: "\<exists>l ls. lines_of d = l # ls \<and> d = l @ concat (map (\<lambda>l. LF # l) ls)"
proof (induction d)
  case (Cons c cs)
  then obtain l ls where "lines_of cs = l # ls" "cs = l @ concat (map (\<lambda>l. LF # l) ls)" by blast
  then show ?case by auto
qed simp

lemma lines_of_no_LF: "l \<in> set (lines_of d) \<Longrightarrow> LF \<notin> set l \<and> set l \<subseteq> set d \<and> length l \<le> length d"
proof (induction d arbitrary: l)
  case (Cons c cs)
  then show ?case by (fastforce split: if_splits list.splits)
qed simp

lemma lines_of_no_eol: "CR \<notin> set d \<Longrightarrow> l \<in> set (lines_of d) \<Longrightarrow> \<forall>c \<in> set l. \<not> is_eol c"
  using lines_of_no_LF [of l d] by (auto simp: is_eol_def)

lemma feed_byte_one_line:
  assumes "l \<noteq> [] \<or> \<not> p_pendingLF p" "\<not> p_dropping p" "p_carry p = []" "\<forall>c \<in> set l. \<not> is_eol c"
    "length l \<le> MaxLine"
  shows "foldl feed_byte p (l @ [LF]) = (processLine p l)\<lparr>p_pendingLF := False\<rparr>"
proof -
  let ?p = "p\<lparr>p_pendingLF := False\<rparr>"
  have "(l @ [LF]) ! 0 \<noteq> LF" if "l \<noteq> []" using that assms(4) by (cases l) (auto simp: is_eol_def)
  then have "foldl feed_byte p (l @ [LF]) = foldl feed_byte ?p (l @ [LF])"
    using assms(1) by (intro foldl_feed_byte_start) auto
  also have "\<dots> = (end_line ?p l)\<lparr>p_pendingLF := False\<rparr>"
    using foldl_feed_byte_eol [of l LF ?p "[]"] assms by (simp add: parser_ok_def is_eol_def)
  also have "\<dots> = (processLine p l)\<lparr>p_carry := [], p_pendingLF := False\<rparr>"
    using assms by (simp add: end_line_def frame_simps)
  also have "\<dots> = (processLine p l)\<lparr>p_pendingLF := False\<rparr>"
    using assms(3) by (simp add: processLine_fields_frame)
  finally show ?thesis .
qed

lemma processLine_data:
  assumes "\<not> p_dataDropped p"
  shows "processLine p (''data: '' @ v) = appendData (p\<lparr>p_lineSeen := True\<rparr>) v"
proof -
  have "trim_prefix byteOrder (''data: '' @ v) = ''data: '' @ v"
    by (simp add: trim_prefix_def has_prefix_def byteOrder_def)
  moreover have "fieldValue (''data: '' @ v) = v"
    by (simp add: fieldValue_def dataPrefix_def)
  ultimately show ?thesis
    using assms by (simp add: processLine_def processField_def has_prefix_def dataPrefix_def)
qed

lemma no_eol_data: "\<forall>c \<in> set l. \<not> is_eol c \<Longrightarrow> \<forall>c \<in> set (''data: '' @ l). \<not> is_eol c"
  by (auto simp: is_eol_def)

text \<open>The data lines of one event after the first.\<close>

lemma feed_more_data_lines:
  assumes "\<forall>l \<in> set ls. (\<forall>c \<in> set l. \<not> is_eol c) \<and> length l + 6 \<le> MaxLine"
    "\<not> p_dropping p" "p_carry p = []" "\<not> p_dataDropped p" "p_dataSeen p" "p_lineSeen p" "\<not> p_pendingLF p"
    "length (p_data p @ concat (map (\<lambda>l. LF # l) ls)) \<le> MaxLine"
  shows "foldl feed_byte p (data_lines ls) = p\<lparr>p_data := p_data p @ concat (map (\<lambda>l. LF # l) ls)\<rparr>"
  using assms
proof (induction ls arbitrary: p)
  case Nil
  then show ?case by (simp add: data_lines_def)
next
  case (Cons l ls)
  let ?q = "p\<lparr>p_data := p_data p @ LF # l\<rparr>"
  have "foldl feed_byte p ((''data: '' @ l) @ [LF]) = (processLine p (''data: '' @ l))\<lparr>p_pendingLF := False\<rparr>"
    using Cons.prems no_eol_data [of l] by (intro feed_byte_one_line) auto
  also have "\<dots> = ?q"
    using Cons.prems processLine_data [of p l] by (simp add: appendData_def Let_def)
  finally have "foldl feed_byte p (data_lines (l # ls)) = foldl feed_byte ?q (data_lines ls)"
    by (simp add: data_lines_def)
  also have "\<dots> = ?q\<lparr>p_data := p_data ?q @ concat (map (\<lambda>l. LF # l) ls)\<rparr>"
    using Cons.prems by (intro Cons.IH) auto
  finally show ?case by simp
qed

lemma feed_data_lines:
  assumes "between_events p" "CR \<notin> set d" "length d + 6 \<le> MaxLine"
  shows "foldl feed_byte p (data_lines (lines_of d)) =
      p\<lparr>p_lineSeen := True, p_pendingLF := False, p_data := d, p_dataSeen := True\<rparr>"
proof -
  obtain l ls where ls: "lines_of d = l # ls" and d: "d = l @ concat (map (\<lambda>l. LF # l) ls)"
    using lines_of_join by blast
  have ok: "(\<forall>c \<in> set x. \<not> is_eol c) \<and> length x + 6 \<le> MaxLine" if "x \<in> set (l # ls)" for x
    using that assms(2,3) lines_of_no_eol lines_of_no_LF [of x d] unfolding ls [symmetric] by auto
  let ?q = "p\<lparr>p_lineSeen := True, p_pendingLF := False, p_data := l, p_dataSeen := True\<rparr>"
  have "foldl feed_byte p ((''data: '' @ l) @ [LF]) = (processLine p (''data: '' @ l))\<lparr>p_pendingLF := False\<rparr>"
    using assms ok [of l] no_eol_data [of l] by (intro feed_byte_one_line) (auto simp: between_events_def)
  also have "\<dots> = ?q"
    using assms d processLine_data [of p l] by (simp add: appendData_def Let_def between_events_def)
  finally have "foldl feed_byte p (data_lines (lines_of d)) = foldl feed_byte ?q (data_lines ls)"
    by (simp add: ls data_lines_def)
  also have "\<dots> = ?q\<lparr>p_data := p_data ?q @ concat (map (\<lambda>l. LF # l) ls)\<rparr>"
    using assms ok d by (intro feed_more_data_lines) (auto simp: between_events_def)
  finally show ?thesis by (simp add: d [symmetric])
qed

definition record_event :: "parser \<Rightarrow> bytes \<Rightarrow> parser" where
  "record_event p d =
     dispatchEvent (p\<lparr>p_lineSeen := True, p_pendingLF := False, p_data := d, p_dataSeen := True\<rparr>)"

lemma blank_line:
  assumes "\<not> p_dropping p" "p_carry p = []" "\<not> p_pendingLF p" "p_lineSeen p"
  shows "feed_byte p LF = dispatchEvent p"
proof -
  have "feed_byte p LF = (processLine p [])\<lparr>p_pendingLF := False\<rparr>"
    using feed_byte_one_line [of "[]" p] assms by simp
  also have "processLine p [] = dispatchEvent p"
    using assms(4) by (simp add: processLine_def processField_def)
  also have "(dispatchEvent p)\<lparr>p_pendingLF := False\<rparr> = dispatchEvent p"
    using assms(3) by (simp add: parser_fields_frame)
  finally show ?thesis .
qed

lemma feed_encode_event:
  assumes "between_events p" "sendable d"
  shows "foldl feed_byte p (encode_event d) = record_event p d"
  using assms feed_data_lines [of p d]
  by (simp add: encode_event_def sendable_def record_event_def between_events_def blank_line)

lemma record_event_between: "between_events p \<Longrightarrow> between_events (record_event p d)"
  by (simp add: record_event_def between_events_def dispatchEvent_def Let_def)

lemma record_event_events:
  assumes "between_events p" "d \<noteq> []"
  shows "p_events (record_event p d) =
      p_events p @ [\<lparr>ev_payload = d, ev_terminal = (d = ''[DONE]''), ev_dropped = p_dropped p\<rparr>]"
    and "p_dropped (record_event p d) = p_dropped p"
  using assms by (simp_all add: record_event_def between_events_def dispatchEvent_def Let_def)

lemma feed_encode_events:
  assumes "between_events p" "\<forall>d \<in> set ds. sendable d"
  shows "p_events (foldl feed_byte p (concat (map encode_event ds))) =
      p_events p @ map (\<lambda>d. \<lparr>ev_payload = d, ev_terminal = (d = ''[DONE]''), ev_dropped = p_dropped p\<rparr>) ds"
  using assms
proof (induction ds arbitrary: p)
  case (Cons d ds)
  then have "d \<noteq> []" by (simp add: sendable_def)
  with Cons show ?case
    by (simp add: feed_encode_event record_event_between record_event_events)
qed simp

lemma between_events_new [simp]: "between_events new_parser"
  by (simp add: between_events_def new_parser_def)

subsection \<open>An oversized line costs exactly its own event\<close>

lemma feed_dropped_data_lines:
  assumes "\<forall>l \<in> set ls. (\<forall>c \<in> set l. \<not> is_eol c) \<and> length l + 6 \<le> MaxLine"
    "\<not> p_dropping p" "p_carry p = []" "p_dataDropped p" "p_lineSeen p" "\<not> p_pendingLF p"
  shows "foldl feed_byte p (data_lines ls) = p"
  using assms(1)
proof (induction ls)
  case (Cons l ls)
  have "foldl feed_byte p ((''data: '' @ l) @ [LF]) = (processLine p (''data: '' @ l))\<lparr>p_pendingLF := False\<rparr>"
    using assms Cons.prems no_eol_data [of l] by (intro feed_byte_one_line) auto
  also have "\<dots> = p"
    using assms by (simp add: processLine_def processField_def)
  finally show ?case using Cons by (simp add: data_lines_def)
qed (simp add: data_lines_def)

lemma feed_oversized_line:
  assumes "\<forall>c \<in> set g. \<not> is_eol c" "length g > MaxLine" "\<not> p_dropping p" "p_carry p = []" "\<not> p_pendingLF p"
  shows "foldl feed_byte p (g @ [LF]) = dropLine p"
proof -
  have "foldl feed_byte p (g @ LF # []) = (end_line p g)\<lparr>p_pendingLF := False\<rparr>"
    using foldl_feed_byte_eol [of g LF p "[]"] assms by (simp add: parser_ok_def is_eol_def)
  also have "\<dots> = dropLine p"
    using assms by (simp add: end_line_def frame_simps)
  finally show ?thesis .
qed

lemma feed_event_with_oversized_line:
  assumes p: "between_events p" and a: "CR \<notin> set a" "length a + 6 \<le> MaxLine"
    and g: "\<forall>c \<in> set g. \<not> is_eol c" "length g > MaxLine"
    and ls: "\<forall>l \<in> set ls. (\<forall>c \<in> set l. \<not> is_eol c) \<and> length l + 6 \<le> MaxLine"
  shows "foldl feed_byte p (data_lines (lines_of a) @ (g @ [LF]) @ data_lines ls @ [LF]) =
           p\<lparr>p_lineSeen := True, p_pendingLF := False, p_dropped := p_dropped p + 1\<rparr>"
proof -
  let ?p1 = "p\<lparr>p_lineSeen := True, p_pendingLF := False, p_data := a, p_dataSeen := True\<rparr>"
  have "foldl feed_byte p (data_lines (lines_of a)) = ?p1"
    using p a by (rule feed_data_lines)
  moreover have "foldl feed_byte ?p1 (g @ [LF]) = dropLine ?p1"
    using p g by (intro feed_oversized_line) (simp_all add: between_events_def)
  moreover have "foldl feed_byte (dropLine ?p1) (data_lines ls) = dropLine ?p1"
    using p ls by (intro feed_dropped_data_lines) (simp_all add: between_events_def dropLine_def)
  moreover have "feed_byte (dropLine ?p1) LF = dispatchEvent (dropLine ?p1)"
    using p by (intro blank_line) (simp_all add: between_events_def dropLine_def)
  moreover have "dispatchEvent (dropLine ?p1) = p\<lparr>p_lineSeen := True, p_pendingLF := False, p_dropped := p_dropped p + 1\<rparr>"
    using p by (simp add: between_events_def dispatchEvent_def dropLine_def Let_def)
  ultimately show ?thesis by (simp add: foldl_append del: append_assoc)
qed

subsection \<open>Line terminators\<close>

definition with_eol :: "bytes \<Rightarrow> bytes \<Rightarrow> bytes" where
  "with_eol t s = concat (map (\<lambda>c. if c = LF then t else [c]) s)"

lemma feed_byte_not_pending: "c \<noteq> CR \<Longrightarrow> \<not> p_pendingLF (feed_byte p c)"
  by (auto simp: feed_byte_def Let_def frame_simps)

lemma feed_byte_crlf: "\<not> p_pendingLF p \<Longrightarrow> feed_byte (feed_byte p CR) LF = feed_byte p LF"
  by (simp add: feed_byte_def Let_def is_eol_def frame_simps)

lemma feed_crlf:
  "CR \<notin> set s \<Longrightarrow> \<not> p_pendingLF p \<Longrightarrow> foldl feed_byte p (with_eol [CR, LF] s) = foldl feed_byte p s"
  by (induction s arbitrary: p) (auto simp: with_eol_def feed_byte_crlf feed_byte_not_pending)

lemma feed_byte_cr: "\<not> p_pendingLF p \<Longrightarrow> feed_byte (p\<lparr>p_pendingLF := b\<rparr>) CR = (feed_byte p LF)\<lparr>p_pendingLF := True\<rparr>"
  by (simp add: feed_byte_def Let_def is_eol_def frame_simps)

lemma feed_cr:
  "CR \<notin> set s \<Longrightarrow> \<not> p_pendingLF p \<Longrightarrow>
     \<exists>b'. foldl feed_byte (p\<lparr>p_pendingLF := b\<rparr>) (with_eol [CR] s) = (foldl feed_byte p s)\<lparr>p_pendingLF := b'\<rparr>"
proof (induction s arbitrary: p b)
  case (Cons c s)
  have np: "\<not> p_pendingLF (feed_byte p c)" using Cons.prems by (intro feed_byte_not_pending) auto
  have "\<exists>b''. foldl feed_byte (p\<lparr>p_pendingLF := b\<rparr>) (if c = LF then [CR] else [c]) =
      (feed_byte p c)\<lparr>p_pendingLF := b''\<rparr>"
  proof (cases "c = LF")
    case True
    then show ?thesis using feed_byte_cr [OF Cons.prems(2), of b] by auto
  next
    case False
    then have "feed_byte (p\<lparr>p_pendingLF := b\<rparr>) c = (feed_byte p c)\<lparr>p_pendingLF := False\<rparr>"
      using np by (simp add: feed_byte_pending)
    with False show ?thesis by auto
  qed
  with Cons.IH [OF _ np] Cons.prems show ?case by (fastforce simp: with_eol_def)
qed (auto simp: with_eol_def)

lemma finish_parser_pending [simp]: "finish_parser (p\<lparr>p_pendingLF := b\<rparr>) = finish_parser p"
  by (simp add: finish_parser_def)

subsection \<open>Properties\<close>

text \<open>
  C13: the parser does not depend on how the network cuts the stream. Feeding the chunks
  one after the other leaves the parser in exactly the state (events already reported,
  buffers, counters) that feeding their concatenation leaves it in.
\<close>

theorem feed_chunk_independent:
  "foldl feed new_parser chunks = feed new_parser (concat chunks)"
  by (rule sse.consume_concat) simp

text \<open>
  C35: \<open>Feed\<close> implements the per-byte machine: after any chunks, one more call does what
  the machine does on all the bytes received so far.
\<close>

theorem feed_implements_byte_machine:
  "feed (foldl feed new_parser chunks) b = foldl feed_byte new_parser (concat chunks @ b)"
  by (simp add: sse.consume_concat feed_eq_bytes foldl_feed_byte_ok)

text \<open>
  C36: whatever bytes arrive, in whatever chunks, the parser's buffers stay within
  \<open>MaxLine\<close>, every reported event is non-empty and at most \<open>MaxLine\<close> bytes long, an event
  is terminal exactly when its payload is \<open>[DONE]\<close>, and \<open>Chunks\<close>, \<open>Last\<close> and \<open>SawDone\<close>
  agree with the events reported; \<open>Finish\<close> keeps all of it.
\<close>

theorem parser_bounds_and_counters:
  "parser_inv (foldl feed new_parser chunks) \<and> parser_inv (finish_parser (foldl feed new_parser chunks))"
  by (simp add: sse_chunks.inv_run finish_parser_inv)

text \<open>
  C32: round trip. Payloads written as SSE events (one \<open>data:\<close> line per line of the payload,
  then a blank line) and cut into arbitrary chunks are reported back unchanged and in
  order, none is dropped, and exactly the payload \<open>[DONE]\<close> is terminal.
\<close>

theorem sse_roundtrip:
  assumes "\<forall>d \<in> set ds. sendable d" and "concat chunks = concat (map encode_event ds)"
  shows "p_events (foldl feed new_parser chunks) =
           map (\<lambda>d. \<lparr>ev_payload = d, ev_terminal = (d = ''[DONE]''), ev_dropped = 0\<rparr>) ds"
  using feed_encode_events [OF between_events_new assms(1)] assms(2)
  by (simp add: sse.consume_concat feed_eq_bytes) (simp add: new_parser_def)

theorem sse_roundtrip_witness:
  "p_events (foldl feed new_parser [''data'', '': a'', [LF], LF # ''data: [DONE]'', [LF, LF]]) =
     [\<lparr>ev_payload = ''a'', ev_terminal = False, ev_dropped = 0\<rparr>,
      \<lparr>ev_payload = ''[DONE]'', ev_terminal = True, ev_dropped = 0\<rparr>]"
  using sse_roundtrip [of "[''a'', ''[DONE]'']"
      "[''data'', '': a'', [LF], LF # ''data: [DONE]'', [LF, LF]]"]
  by (simp add: sendable_def MaxLine_def encode_event_def data_lines_def)

text \<open>
  C37: a line longer than \<open>MaxLine\<close> costs its own event and nothing else: whatever data lines
  surround it, up to the blank line the parser only counts one dropped line, and it is ready
  for the next event with everything reported before intact.
\<close>

theorem oversized_line_drops_its_event:
  assumes "between_events p" and "CR \<notin> set a" and "length a + 6 \<le> MaxLine"
    and "\<forall>c \<in> set g. \<not> is_eol c" and "length g > MaxLine"
    and "\<forall>l \<in> set ls. (\<forall>c \<in> set l. \<not> is_eol c) \<and> length l + 6 \<le> MaxLine"
  shows "feed p (data_lines (lines_of a) @ (g @ [LF]) @ data_lines ls @ [LF]) =
           p\<lparr>p_lineSeen := True, p_pendingLF := False, p_dropped := p_dropped p + 1\<rparr>"
  using feed_event_with_oversized_line [OF assms] assms(1)
  by (simp add: feed_eq_bytes parser_ok_def between_events_def)

theorem oversized_line_drops_its_event_witness:
  "feed new_parser (data_lines [''a''] @ (replicate (MaxLine + 1) (CHR ''x'') @ [LF]) @ data_lines [''b''] @ [LF]) =
     new_parser\<lparr>p_lineSeen := True, p_pendingLF := False, p_dropped := 1\<rparr>"
proof -
  have "p_dropped new_parser = 0" by (simp add: new_parser_def)
  then show ?thesis
    using oversized_line_drops_its_event [of new_parser "''a''" "replicate (MaxLine + 1) (CHR ''x'')" "[''b'']"]
    by (simp add: is_eol_def MaxLine_def del: replicate_add)
qed

text \<open>
  C38: the three line terminators of the SSE format mean the same. A stream written with
  \<open>CRLF\<close> or with \<open>CR\<close> instead of \<open>LF\<close> leaves the finished parser in the same state.
\<close>

theorem line_terminators_equivalent:
  assumes "CR \<notin> set s" and "t \<in> {[LF], [CR], [CR, LF]}"
  shows "finish_parser (feed new_parser (with_eol t s)) = finish_parser (feed new_parser s)"
proof -
  have np: "\<not> p_pendingLF new_parser" by (simp add: new_parser_def)
  have "with_eol [LF] s = s" by (induction s) (simp_all add: with_eol_def)
  moreover obtain b where "foldl feed_byte new_parser (with_eol [CR] s) = (foldl feed_byte new_parser s)\<lparr>p_pendingLF := b\<rparr>"
    using feed_cr [OF assms(1) np, of False] np by auto
  ultimately show ?thesis
    using assms feed_crlf [OF assms(1) np] by (auto simp: feed_eq_bytes)
qed

theorem line_terminators_equivalent_witness:
  "finish_parser (feed new_parser (with_eol [CR, LF] [CHR ''d'', LF])) = finish_parser (feed new_parser [CHR ''d'', LF])"
  by (rule line_terminators_equivalent) simp_all

end
