(* ===== verification/Utf8_Text.thy ===== *)
theory Utf8_Text
  imports Go_Prelude "HOL-Library.Sublist"
begin

text \<open>
  UTF-8 as the proxy uses it (\<open>unicode/utf8\<close>, \<open>strings.ToValidUTF8\<close>) and the bounded texts
  of \<open>internal/genai/genai.go\<close>: \<open>Truncate\<close> and \<open>limitedStreamText\<close>.

  \<open>valid_utf8\<close> is Go's table of accepted sequences (no overlong forms, no surrogates, nothing
  above U+10FFFF). The lemmas say that every bounded text is valid UTF-8 of bounded size, is
  cut on a code point boundary only, and that the truncation flag tells exactly whether
  something was left out.
\<close>

definition cont_byte :: "char \<Rightarrow> bool" where
  "cont_byte c \<longleftrightarrow> 0x80 \<le> byte c \<and> byte c \<le> 0xBF"

text \<open>\<open>utf8.RuneStart\<close>: not of the form 10xxxxxx.\<close>

definition rune_start :: "char \<Rightarrow> bool" where
  "rune_start c \<longleftrightarrow> \<not> cont_byte c"

text \<open>The second byte a first byte accepts (\<open>acceptRanges\<close> of \<open>unicode/utf8\<close>).\<close>

definition second_ok :: "nat \<Rightarrow> char \<Rightarrow> bool" where
  "second_ok b0 c \<longleftrightarrow>
     (if b0 = 0xE0 then 0xA0 \<le> byte c \<and> byte c \<le> 0xBF
      else if b0 = 0xED then 0x80 \<le> byte c \<and> byte c \<le> 0x9F
      else if b0 = 0xF0 then 0x90 \<le> byte c \<and> byte c \<le> 0xBF
      else if b0 = 0xF4 then 0x80 \<le> byte c \<and> byte c \<le> 0x8F
      else cont_byte c)"

text \<open>Width of the code point at the front; 0 when the bytes there are not valid UTF-8.\<close>

fun rune_width :: "bytes \<Rightarrow> nat" where
  "rune_width [] = 0"
| "rune_width (c0 # cs) =
     (let b0 = byte c0
      in if b0 < 0x80 then 1
         else if 0xC2 \<le> b0 \<and> b0 \<le> 0xDF then
           (case cs of c1 # _ \<Rightarrow> if cont_byte c1 then 2 else 0 | _ \<Rightarrow> 0)
         else if 0xE0 \<le> b0 \<and> b0 \<le> 0xEF then
           (case cs of c1 # c2 # _ \<Rightarrow> if second_ok b0 c1 \<and> cont_byte c2 then 3 else 0 | _ \<Rightarrow> 0)
         else if 0xF0 \<le> b0 \<and> b0 \<le> 0xF4 then
           (case cs of c1 # c2 # c3 # _ \<Rightarrow> if second_ok b0 c1 \<and> cont_byte c2 \<and> cont_byte c3 then 4 else 0 | _ \<Rightarrow> 0)
         else 0)"

lemma rune_width_le: "rune_width s \<le> length s"
  by (cases s) (auto simp: Let_def split: list.split)

function valid_utf8 :: "bytes \<Rightarrow> bool" where
  "valid_utf8 s =
     (if s = [] then True else if rune_width s = 0 then False else valid_utf8 (drop (rune_width s) s))"
  by pat_completeness auto
termination
  by (relation "measure length") auto

declare valid_utf8.simps [simp del]

definition replacement :: bytes where
  "replacement = [CHR 0xEF, CHR 0xBF, CHR 0xBD]"

text \<open>
  \<open>strings.ToValidUTF8(s, "\uFFFD")\<close>: each maximal run of invalid bytes becomes one
  replacement character. The flag says that the previous byte was invalid.
\<close>

function to_valid_from :: "bool \<Rightarrow> bytes \<Rightarrow> bytes" where
  "to_valid_from invalid s =
     (if s = [] then []
      else if rune_width s = 0 then
        (if invalid then [] else replacement) @ to_valid_from True (drop 1 s)
      else take (rune_width s) s @ to_valid_from False (drop (rune_width s) s))"
  by pat_completeness auto
termination
  by (relation "measure (\<lambda>(i, s). length s)") auto

declare to_valid_from.simps [simp del]

definition to_valid_utf8 :: "bytes \<Rightarrow> bytes" where
  "to_valid_utf8 s = to_valid_from False s"

subsection \<open>Bounded texts\<close>

text \<open>The loop \<open>for cut > 0 \&\& !utf8.RuneStart(s[cut]) { cut-- }\<close>.\<close>

fun rune_cut :: "bytes \<Rightarrow> nat \<Rightarrow> nat" where
  "rune_cut s 0 = 0"
| "rune_cut s (Suc n) = (if \<not> rune_start (s ! Suc n) then rune_cut s n else Suc n)"

definition ellipsis :: bytes where
  "ellipsis = [CHR 0xE2, CHR 0x80, CHR 0xA6]"

definition max_truncate :: nat where
  "max_truncate = 256"

definition Truncate :: "bytes \<Rightarrow> bytes" where
  "Truncate s0 =
     (let s = to_valid_utf8 s0
      in if length s \<le> max_truncate then s
         else take (rune_cut s max_truncate) s @ ellipsis)"

record limitedStreamText =
  lt_value :: bytes
  lt_truncated :: bool

definition empty_text :: limitedStreamText where
  "empty_text = \<lparr>lt_value = [], lt_truncated = False\<rparr>"

definition text_append :: "limitedStreamText \<Rightarrow> bytes \<Rightarrow> nat \<Rightarrow> limitedStreamText" where
  "text_append t value0 limit =
     (let value = to_valid_utf8 value0
      in if limit \<le> length (lt_value t) then
           (if value \<noteq> [] then t\<lparr>lt_truncated := True\<rparr> else t)
         else
           let remaining = limit - length (lt_value t)
           in if length value \<le> remaining then t\<lparr>lt_value := lt_value t @ value\<rparr>
              else t\<lparr>lt_value := lt_value t @ take (rune_cut value remaining) value,
                     lt_truncated := True\<rparr>)"

definition text_set :: "limitedStreamText \<Rightarrow> bytes \<Rightarrow> nat \<Rightarrow> limitedStreamText" where
  "text_set t value limit = text_append (t\<lparr>lt_value := [], lt_truncated := False\<rparr>) value limit"

definition maxStreamMetadataSize :: nat where
  "maxStreamMetadataSize = 4 * 1024"

definition setStreamMetadata :: "limitedStreamText \<Rightarrow> bytes \<Rightarrow> nat \<Rightarrow> limitedStreamText" where
  "setStreamMetadata t value limit =
     (if value \<noteq> [] then
        text_set t value (if limit > maxStreamMetadataSize then maxStreamMetadataSize else limit)
      else t)"

definition appendStreamMetadata :: "limitedStreamText \<Rightarrow> bytes \<Rightarrow> nat \<Rightarrow> limitedStreamText" where
  "appendStreamMetadata t value limit =
     (if value \<noteq> [] then
        text_append t value (if limit > maxStreamMetadataSize then maxStreamMetadataSize else limit)
      else t)"

subsection \<open>UTF-8 lemmas\<close>

lemma rune_width_append: "0 < rune_width s \<Longrightarrow> rune_width (s @ t) = rune_width s"
  by (cases s) (auto simp: Let_def split: list.splits if_splits)

lemma rune_width_pos_shape:
  assumes "0 < rune_width s"
  shows "rune_start (s ! 0)" and "\<And>i. 0 < i \<Longrightarrow> i < rune_width s \<Longrightarrow> cont_byte (s ! i)"
    and "rune_width s \<le> 4"
proof -
  have second: "second_ok b c \<Longrightarrow> cont_byte c" for b c
    by (auto simp: second_ok_def cont_byte_def split: if_splits)
  obtain c cs where s: "s = c # cs" using assms by (cases s) auto
  show "rune_start (s ! 0)"
    using assms by (auto simp: s rune_start_def cont_byte_def Let_def split: if_splits)
  show "rune_width s \<le> 4"
    by (auto simp: s Let_def split: list.split)
  fix i assume i: "0 < i" "i < rune_width s"
  then consider "i = 1" | "i = 2" | "i = 3"
    using \<open>rune_width s \<le> 4\<close> by linarith
  then show "cont_byte (s ! i)"
    using i second
    by cases (auto simp: s Let_def nth_Cons' split: list.splits if_splits)
qed

lemma valid_utf8_Nil [simp]: "valid_utf8 []"
  by (simp add: valid_utf8.simps)

lemma valid_utf8_rune:
  "0 < rune_width s \<Longrightarrow> valid_utf8 (take (rune_width s) s @ t) = valid_utf8 t"
proof -
  assume w: "0 < rune_width s"
  have take: "rune_width (take (rune_width s) s) = rune_width s"
  proof (cases "rune_width (take (rune_width s) s)")
    case 0
    with w show ?thesis by (cases s) (auto simp: Let_def split: list.splits if_splits)
  next
    case (Suc n)
    then show ?thesis using rune_width_append [of "take (rune_width s) s" "drop (rune_width s) s"] by simp
  qed
  with w have "rune_width (take (rune_width s) s @ t) = rune_width s"
    by (simp add: rune_width_append)
  with w rune_width_le [of s] show ?thesis
    by (subst valid_utf8.simps) auto
qed

lemma valid_utf8_append: "valid_utf8 s \<Longrightarrow> valid_utf8 t \<Longrightarrow> valid_utf8 (s @ t)"
proof (induction s rule: valid_utf8.induct)
  case (1 s)
  show ?case
  proof (cases "s = []")
    case False
    with "1.prems" have w: "0 < rune_width s" by (subst (asm) valid_utf8.simps) (auto split: if_splits)
    with False "1.prems" have "valid_utf8 (drop (rune_width s) s)"
      by (subst (asm) valid_utf8.simps) (auto split: if_splits)
    with "1.IH" False w "1.prems" have "valid_utf8 (drop (rune_width s) s @ t)" by simp
    with w have "valid_utf8 (take (rune_width s) s @ drop (rune_width s) s @ t)"
      by (simp add: valid_utf8_rune)
    then show ?thesis by (metis append_assoc append_take_drop_id)
  qed (use "1.prems" in simp)
qed

lemma valid_replacement [simp]: "valid_utf8 replacement" "rune_width replacement = 3"
  by (simp_all add: replacement_def valid_utf8.simps cont_byte_def second_ok_def)

lemma valid_to_valid_from: "valid_utf8 (to_valid_from b s)"
proof (induction b s rule: to_valid_from.induct)
  case (1 b s)
  then show ?case
    by (subst to_valid_from.simps) (auto simp: valid_utf8_rune intro: valid_utf8_append)
qed

lemma to_valid_from_valid: "valid_utf8 s \<Longrightarrow> to_valid_from b s = s"
proof (induction b s rule: to_valid_from.induct)
  case (1 b s)
  show ?case
  proof (cases "s = []")
    case False
    with "1.prems" have w: "rune_width s \<noteq> 0" and v: "valid_utf8 (drop (rune_width s) s)"
      by (subst (asm) valid_utf8.simps, auto split: if_splits)+
    with "1.IH"(2) False show ?thesis by (subst to_valid_from.simps) simp
  qed (simp add: to_valid_from.simps)
qed

lemma valid_to_valid [simp]: "valid_utf8 (to_valid_utf8 s)"
  by (simp add: to_valid_utf8_def valid_to_valid_from)

lemma to_valid_valid [simp]: "valid_utf8 s \<Longrightarrow> to_valid_utf8 s = s"
  by (simp add: to_valid_utf8_def to_valid_from_valid)

text \<open>A valid text cut in front of the first byte of a code point is valid.\<close>

lemma valid_utf8_cut:
  assumes "valid_utf8 s" and "k \<le> length s" and "k = 0 \<or> k = length s \<or> rune_start (s ! k)"
  shows "valid_utf8 (take k s)"
  using assms
proof (induction s arbitrary: k rule: valid_utf8.induct)
  case (1 s)
  show ?case
  proof (cases "s = [] \<or> k = 0")
    case False
    let ?w = "rune_width s"
    from False "1.prems" have w: "?w \<noteq> 0" and v: "valid_utf8 (drop ?w s)"
      by (subst (asm) (1) valid_utf8.simps, auto split: if_splits)+
    have le: "?w \<le> k"
    proof (rule ccontr)
      assume "\<not> ?w \<le> k"
      with False have k: "0 < k" "k < ?w" by auto
      then have "cont_byte (s ! k)" using rune_width_pos_shape(2) w by blast
      with "1.prems"(3) k rune_width_le [of s] show False by (auto simp: rune_start_def)
    qed
    have "valid_utf8 (take (k - ?w) (drop ?w s))"
      using "1.prems" v le False w by (intro "1.IH") (auto simp: nth_drop)
    then have "valid_utf8 (take ?w s @ take (k - ?w) (drop ?w s))"
      using w by (simp add: valid_utf8_rune)
    then show ?thesis using le by (metis le_add_diff_inverse take_add)
  qed auto
qed

subsection \<open>Where the cut falls\<close>

lemma rune_cut_le [bound_intros]: "rune_cut s n \<le> n"
  by (induction s n rule: rune_cut.induct) auto

lemma rune_cut_start: "rune_cut s n = 0 \<or> rune_start (s ! rune_cut s n)"
  by (induction s n rule: rune_cut.induct) auto

lemma rune_cut_cont: "rune_cut s n < i \<Longrightarrow> i \<le> n \<Longrightarrow> cont_byte (s ! i)"
  by (induction s n rule: rune_cut.induct) (auto simp: rune_start_def le_Suc_eq split: if_splits)

lemma valid_utf8_take_cut: "valid_utf8 s \<Longrightarrow> n < length s \<Longrightarrow> valid_utf8 (take (rune_cut s n) s)"
  using rune_cut_le [of s n] rune_cut_start [of s n] by (intro valid_utf8_cut) auto

text \<open>In a valid text the cut gives up at most three bytes.\<close>

lemma valid_utf8_cont_run:
  assumes "valid_utf8 s" and "i < length s" and "\<forall>j. k < j \<and> j \<le> i \<longrightarrow> cont_byte (s ! j)"
  shows "i \<le> k + 3"
  using assms
proof (induction s arbitrary: i k rule: valid_utf8.induct)
  case (1 s)
  from "1.prems" have ne: "s \<noteq> []" by auto
  let ?w = "rune_width s"
  from ne "1.prems" have w: "?w \<noteq> 0" and v: "valid_utf8 (drop ?w s)"
    by (subst (asm) (1) valid_utf8.simps, auto split: if_splits)+
  show ?case
  proof (cases "i < ?w")
    case True
    with rune_width_pos_shape(3) [of s] w show ?thesis by linarith
  next
    case False
    show ?thesis
    proof (cases "?w \<le> k")
      case True
      have "i - ?w \<le> (k - ?w) + 3"
      proof (rule "1.IH" [OF ne w v])
        show "i - ?w < length (drop ?w s)" using "1.prems" False by auto
        show "\<forall>j. k - ?w < j \<and> j \<le> i - ?w \<longrightarrow> cont_byte (drop ?w s ! j)"
        proof (intro allI impI)
          fix j assume "k - ?w < j \<and> j \<le> i - ?w"
          with False True have "k < ?w + j \<and> ?w + j \<le> i" by linarith
          with "1.prems"(3) have "cont_byte (s ! (?w + j))" by blast
          then show "cont_byte (drop ?w s ! j)" using rune_width_le [of s] by (simp add: nth_drop)
        qed
      qed
      with True show ?thesis by linarith
    next
      case k: False
      have "drop ?w s \<noteq> []" using False "1.prems" by auto
      with v have "0 < rune_width (drop ?w s)"
        by (subst (asm) valid_utf8.simps) (auto split: if_splits)
      then have "rune_start (s ! ?w)"
        using rune_width_pos_shape(1) [of "drop ?w s"] rune_width_le [of s] by (simp add: nth_drop)
      with "1.prems"(3) False k show ?thesis by (auto simp: rune_start_def)
    qed
  qed
qed

lemma rune_cut_close: "valid_utf8 s \<Longrightarrow> n < length s \<Longrightarrow> n \<le> rune_cut s n + 3"
  using valid_utf8_cont_run [of s n "rune_cut s n"] rune_cut_cont [of s n] by auto

subsection \<open>Truncate\<close>

lemma Truncate_shape:
  obtains "Truncate s = to_valid_utf8 s" "length (to_valid_utf8 s) \<le> max_truncate"
  | n where "Truncate s = take n (to_valid_utf8 s) @ ellipsis" "max_truncate < length (to_valid_utf8 s)"
      "n \<le> max_truncate" "max_truncate \<le> n + 3" "valid_utf8 (take n (to_valid_utf8 s))"
proof (cases "length (to_valid_utf8 s) \<le> max_truncate")
  case True
  then show ?thesis by (intro that(1)) (simp_all add: Truncate_def)
next
  case False
  then have "max_truncate < length (to_valid_utf8 s)" by simp
  then show ?thesis
    by (intro that(2) [of "rune_cut (to_valid_utf8 s) max_truncate"])
      (auto simp: Truncate_def Let_def rune_cut_le rune_cut_close valid_utf8_take_cut)
qed

lemma valid_ellipsis [simp]: "valid_utf8 ellipsis" "length ellipsis = 3"
  by (simp_all add: ellipsis_def valid_utf8.simps cont_byte_def second_ok_def)

lemma Truncate_valid [simp]: "valid_utf8 (Truncate s)"
  by (cases s rule: Truncate_shape) (simp_all add: valid_utf8_append)

lemma Truncate_length [bound_intros]: "length (Truncate s) \<le> 259"
  by (cases s rule: Truncate_shape) (simp_all add: max_truncate_def)

lemma to_valid_from_Nil [simp]: "to_valid_from b [] = []"
  by (simp add: to_valid_from.simps)

lemma to_valid_from_eq_Nil: "to_valid_from b s = [] \<Longrightarrow> s \<noteq> [] \<Longrightarrow> b \<and> (\<forall>n < length s. rune_width (drop n s) = 0)"
proof (induction b s rule: to_valid_from.induct)
  case (1 b s)
  then have w: "rune_width s = 0" and b: b and tl: "to_valid_from True (drop 1 s) = []"
    by (subst (asm) (3) to_valid_from.simps, auto simp: replacement_def split: if_splits)+
  have "rune_width (drop n s) = 0" if "n < length s" for n
  proof (cases n)
    case (Suc m)
    with that have "drop 1 s \<noteq> []" "m < length (drop 1 s)" by auto
    with "1.IH"(1) [OF "1.prems"(2) w tl] Suc show ?thesis by (simp add: drop_drop)
  qed (simp add: w)
  with b show ?case by simp
qed

lemma to_valid_utf8_eq_Nil [simp]: "to_valid_utf8 s = [] \<longleftrightarrow> s = []"
  using to_valid_from_eq_Nil [of False s] by (auto simp: to_valid_utf8_def)

lemma Truncate_eq_Nil [simp]: "Truncate s = [] \<longleftrightarrow> s = []"
proof (cases s rule: Truncate_shape)
  case (2 n)
  then have "s \<noteq> []" by (auto simp: max_truncate_def)
  with 2 show ?thesis by (simp add: ellipsis_def)
qed simp

subsection \<open>Limited texts\<close>

text \<open>The invariant of a text that was built under a limit, and what it is a part of.\<close>

definition text_of :: "nat \<Rightarrow> bytes \<Rightarrow> limitedStreamText \<Rightarrow> bool" where
  "text_of limit full t \<longleftrightarrow>
     length (lt_value t) \<le> limit \<and> valid_utf8 (lt_value t) \<and> subseq (lt_value t) full \<and>
     (lt_truncated t \<longleftrightarrow> length (lt_value t) < length full)"

lemma text_of_empty [simp]: "text_of limit [] empty_text"
  by (simp add: text_of_def empty_text_def)

lemma text_of_append:
  assumes "text_of limit full t"
  shows "text_of limit (full @ to_valid_utf8 v) (text_append t v limit)"
proof -
  let ?v = "to_valid_utf8 v" and ?r = "limit - length (lt_value t)"
  have sub: "subseq (lt_value t) full" and le: "length (lt_value t) \<le> length full"
    using assms by (auto simp: text_of_def dest: list_emb_length)
  have cut: "length (take (rune_cut ?v ?r) ?v) \<le> ?r" "?r < length ?v \<Longrightarrow> length (take (rune_cut ?v ?r) ?v) < length ?v"
    using rune_cut_le [of ?v ?r] by auto
  have pre: "subseq (lt_value t @ take n ?v) (full @ ?v)" for n
    using sub by (intro list_emb_append_mono) (auto simp: take_is_prefix prefix_imp_subseq)
  consider "limit \<le> length (lt_value t)" "v = []" | "limit \<le> length (lt_value t)" "v \<noteq> []"
    | "length (lt_value t) < limit" "length ?v \<le> ?r" | "length (lt_value t) < limit" "?r < length ?v"
    by linarith
  then show ?thesis
  proof cases
    case 1
    then show ?thesis using assms by (simp add: text_append_def text_of_def)
  next
    case 2
    then have "length (lt_value t) < length (full @ ?v)"
      using le by (metis add_less_le_mono length_append length_greater_0_conv linorder_not_less nat_less_le
          to_valid_utf8_eq_Nil trans_less_add1 less_add_same_cancel1)
    with 2 show ?thesis
      using assms pre [of 0] by (simp add: text_append_def text_of_def)
  next
    case 3
    then show ?thesis
      using assms pre [of "length ?v"] by (auto simp: text_append_def Let_def text_of_def valid_utf8_append)
  next
    case 4
    then show ?thesis
      using assms pre [of "rune_cut ?v ?r"] cut le
      by (auto simp: text_append_def Let_def text_of_def valid_utf8_append valid_utf8_take_cut)
  qed
qed

lemma text_of_set: "text_of limit (to_valid_utf8 v) (text_set t v limit)"
  using text_of_append [OF text_of_empty, of limit v] by (cases t) (simp add: text_set_def empty_text_def)

lemma text_of_run:
  "text_of limit full t \<Longrightarrow>
     text_of limit (full @ concat (map to_valid_utf8 vs)) (foldl (\<lambda>t v. text_append t v limit) t vs)"
proof (induction vs arbitrary: t full)
  case (Cons v vs)
  from Cons.IH [OF text_of_append [OF Cons.prems, of v]] show ?case by simp
qed simp

text \<open>A text whose limit is never exceeded, as the component lemmas use it.\<close>

lemma text_append_length [bound_intros]:
  "length (lt_value t) \<le> limit \<Longrightarrow> length (lt_value (text_append t v limit)) \<le> limit"
  using rune_cut_le [of "to_valid_utf8 v" "limit - length (lt_value t)"]
  by (auto simp: text_append_def Let_def)

lemma text_set_length [bound_intros]: "length (lt_value (text_set t v limit)) \<le> limit"
  by (simp add: text_set_def text_append_length)

lemma setStreamMetadata_length [bound_intros]:
  "length (lt_value t) \<le> limit \<Longrightarrow> length (lt_value (setStreamMetadata t v limit)) \<le> limit"
  using text_set_length [of t v "min limit maxStreamMetadataSize"]
  by (auto simp: setStreamMetadata_def min_def intro: text_set_length split: if_splits)

lemma appendStreamMetadata_length [bound_intros]:
  assumes "length (lt_value t) \<le> min limit maxStreamMetadataSize"
  shows "length (lt_value (appendStreamMetadata t v limit)) \<le> min limit maxStreamMetadataSize"
  using assms text_append_length [of t "min limit maxStreamMetadataSize" v]
  by (auto simp: appendStreamMetadata_def min_def)

lemma valid_text_append [intro]: "valid_utf8 (lt_value t) \<Longrightarrow> valid_utf8 (lt_value (text_append t v limit))"
  by (auto simp: text_append_def Let_def valid_utf8_append valid_utf8_take_cut)

lemma valid_text_set [intro]: "valid_utf8 (lt_value (text_set t v limit))"
  by (simp add: text_set_def valid_text_append)

lemma valid_setStreamMetadata [intro]:
  "valid_utf8 (lt_value t) \<Longrightarrow> valid_utf8 (lt_value (setStreamMetadata t v limit))"
  by (auto simp: setStreamMetadata_def)

lemma valid_appendStreamMetadata [intro]:
  "valid_utf8 (lt_value t) \<Longrightarrow> valid_utf8 (lt_value (appendStreamMetadata t v limit))"
  by (auto simp: appendStreamMetadata_def)

subsection \<open>Properties\<close>

text \<open>
  \<open>Truncate\<close> always returns valid UTF-8 of at most 259 bytes. A text that fits is
  returned whole (repaired to valid UTF-8); a longer one is cut at a code point boundary
  that loses at most three of the 256 bytes allowed, and ends in an ellipsis.
\<close>

lemma Truncate_correct:
  "valid_utf8 (Truncate s) \<and> length (Truncate s) \<le> 259 \<and>
   (if length (to_valid_utf8 s) \<le> 256 then Truncate s = to_valid_utf8 s
    else \<exists>n \<in> {253..256}. Truncate s = take n (to_valid_utf8 s) @ ellipsis \<and>
           valid_utf8 (take n (to_valid_utf8 s)))"
proof (cases s rule: Truncate_shape)
  case 1
  then show ?thesis using Truncate_length [of s] Truncate_valid [of s] by (simp add: max_truncate_def)
next
  case (2 n)
  then have "n \<in> {253..256}" by (simp add: max_truncate_def)
  with 2 show ?thesis
    using Truncate_length [of s] Truncate_valid [of s] by (auto simp: max_truncate_def)
qed

text \<open>
  C40: a stream text collected in any number of pieces stays within its limit and is valid
  UTF-8; it is made of bytes of the full text in their order, and the \<open>truncated\<close> flag is
  set exactly when it is not the full text.
\<close>

theorem limited_text_correct:
  "let t = foldl (\<lambda>t v. text_append t v limit) empty_text vs; full = concat (map to_valid_utf8 vs)
   in length (lt_value t) \<le> limit \<and> valid_utf8 (lt_value t) \<and> subseq (lt_value t) full \<and>
      (lt_truncated t \<longleftrightarrow> lt_value t \<noteq> full)"
proof -
  let ?t = "foldl (\<lambda>t v. text_append t v limit) empty_text vs" and ?full = "concat (map to_valid_utf8 vs)"
  have t: "text_of limit ?full ?t" using text_of_run [OF text_of_empty, of limit vs] by simp
  then have "lt_truncated ?t \<longleftrightarrow> lt_value ?t \<noteq> ?full"
    using list_emb_length subseq_same_length unfolding text_of_def
    by (metis nat_less_le)
  with t show ?thesis by (simp add: text_of_def Let_def)
qed

text \<open>
  A text that was truncated may still grow: when a multi-byte character does not fit, the
  bytes it leaves free are filled by later pieces, so the recorded text need not be a prefix
  of the full text.
\<close>

lemma limited_text_can_have_hole:
  "\<exists>limit vs. let t = foldl (\<lambda>t v. text_append t v limit) empty_text vs
     in lt_truncated t \<and> \<not> prefix (lt_value t) (concat (map to_valid_utf8 vs))"
proof -
  let ?e = "[CHR 0xC3, CHR 0xA9]"
  have v: "valid_utf8 ''a''" "valid_utf8 ?e"
    by (simp_all add: valid_utf8.simps cont_byte_def)
  have "foldl (\<lambda>t v. text_append t v 2) empty_text [''a'', ?e, ''a''] = \<lparr>lt_value = ''aa'', lt_truncated = True\<rparr>"
    using v by (simp add: text_append_def empty_text_def Let_def numeral_2_eq_2 rune_start_def cont_byte_def)
  moreover have "\<not> prefix ''aa'' (concat (map to_valid_utf8 [''a'', ?e, ''a'']))"
    using v by simp
  ultimately show ?thesis
    by (intro exI [of _ 2] exI [of _ "[''a'', ?e, ''a'']"]) (simp add: Let_def)
qed

end
