(* ===== verification/Json.thy ===== *)
theory Json
  imports Go_Prelude Utf8_Text
begin

text \<open>
  What the proxy uses of Go's \<open>encoding/json\<close>: the syntax scanner (\<open>Valid\<close>), decoding into
  strings, integers, pointers, slices and structs (\<open>Unmarshal\<close>), \<open>Compact\<close>, and the encoder
  for a struct holding a list of strings (\<open>Marshal\<close>).

  A JSON value is its text. The scanner is the byte-at-a-time machine of the library, with
  the stack of the enclosing objects and arrays and its nesting limit. Members and elements
  are split off a text the scanner has accepted. A decoder takes the text of a value and the
  Go value decoded into, and returns the new value, or \<open>None\<close> where \<open>Unmarshal\<close> returns an
  error; \<open>null\<close> leaves strings, numbers and structs as they are.
\<close>

subsection \<open>The scanner\<close>

datatype json_ctx = ObjectKey | ObjectValue | ArrayValue

datatype json_state =
    BeginValue | BeginValueOrEmpty | BeginString | BeginStringOrEmpty | EndValue | EndTop
  | InString | InStringEsc | InStringEscU nat
  | Neg | Digits | Zero | Dot | Dot0 | Exp | ExpSign | Exp0
  | Literal bytes | ScanError

definition json_space :: "char \<Rightarrow> bool" where
  "json_space c \<longleftrightarrow> c = CHR '' '' \<or> c = CHR 0x09 \<or> c = CHR 0x0D \<or> c = CHR 0x0A"

definition digit :: "char \<Rightarrow> bool" where
  "digit c \<longleftrightarrow> 0x30 \<le> byte c \<and> byte c \<le> 0x39"

definition hex_digit :: "char \<Rightarrow> bool" where
  "hex_digit c \<longleftrightarrow> digit c \<or> (0x61 \<le> byte c \<and> byte c \<le> 0x66) \<or> (0x41 \<le> byte c \<and> byte c \<le> 0x46)"

definition maxNestingDepth :: nat where
  "maxNestingDepth = 10000"

abbreviation quote :: char where "quote \<equiv> CHR 0x22"
abbreviation backslash :: char where "backslash \<equiv> CHR 0x5C"

type_synonym scanner = "json_state \<times> json_ctx list"

fun pop_ctx :: "json_ctx list \<Rightarrow> scanner" where
  "pop_ctx [] = (EndTop, [])"
| "pop_ctx [x] = (EndTop, [])"
| "pop_ctx (x # y # st) = (EndValue, y # st)"

definition push_ctx :: "json_state \<Rightarrow> json_ctx \<Rightarrow> json_ctx list \<Rightarrow> scanner" where
  "push_ctx s x st = (if length st < maxNestingDepth then (s, x # st) else (ScanError, st))"

fun end_value :: "json_ctx list \<Rightarrow> char \<Rightarrow> scanner" where
  "end_value [] c = (if json_space c then (EndTop, []) else (ScanError, []))"
| "end_value (x # st) c =
     (if json_space c then (EndValue, x # st)
      else case x of
        ObjectKey \<Rightarrow> if c = CHR '':'' then (BeginValue, ObjectValue # st) else (ScanError, x # st)
      | ObjectValue \<Rightarrow>
          if c = CHR '','' then (BeginString, ObjectKey # st)
          else if c = CHR ''}'' then pop_ctx (x # st) else (ScanError, x # st)
      | ArrayValue \<Rightarrow>
          if c = CHR '','' then (BeginValue, x # st)
          else if c = CHR '']'' then pop_ctx (x # st) else (ScanError, x # st))"

definition begin_value :: "json_ctx list \<Rightarrow> char \<Rightarrow> scanner" where
  "begin_value st c =
     (if json_space c then (BeginValue, st)
      else if c = CHR ''{'' then push_ctx BeginStringOrEmpty ObjectKey st
      else if c = CHR ''['' then push_ctx BeginValueOrEmpty ArrayValue st
      else if c = quote then (InString, st)
      else if c = CHR ''-'' then (Neg, st)
      else if c = CHR ''0'' then (Zero, st)
      else if c = CHR ''t'' then (Literal ''rue'', st)
      else if c = CHR ''f'' then (Literal ''alse'', st)
      else if c = CHR ''n'' then (Literal ''ull'', st)
      else if digit c then (Digits, st)
      else (ScanError, st))"

definition begin_string :: "json_ctx list \<Rightarrow> char \<Rightarrow> scanner" where
  "begin_string st c =
     (if json_space c then (BeginString, st) else if c = quote then (InString, st) else (ScanError, st))"

fun scan_step :: "scanner \<Rightarrow> char \<Rightarrow> scanner" where
  "scan_step (BeginValue, st) c = begin_value st c"
| "scan_step (BeginValueOrEmpty, st) c =
     (if json_space c then (BeginValueOrEmpty, st)
      else if c = CHR '']'' then end_value st c else begin_value st c)"
| "scan_step (BeginString, st) c = begin_string st c"
| "scan_step (BeginStringOrEmpty, st) c =
     (if json_space c then (BeginStringOrEmpty, st)
      else if c = CHR ''}'' then end_value (ObjectValue # tl st) c else begin_string st c)"
| "scan_step (EndValue, st) c = end_value st c"
| "scan_step (EndTop, st) c = (if json_space c then (EndTop, st) else (ScanError, st))"
| "scan_step (InString, st) c =
     (if c = quote then (EndValue, st) else if c = backslash then (InStringEsc, st)
      else if byte c < 0x20 then (ScanError, st) else (InString, st))"
| "scan_step (InStringEsc, st) c =
     (if c = CHR ''u'' then (InStringEscU 4, st)
      else if c \<in> set [CHR ''b'', CHR ''f'', CHR ''n'', CHR ''r'', CHR ''t'', backslash, CHR ''/'', quote]
      then (InString, st) else (ScanError, st))"
| "scan_step (InStringEscU n, st) c =
     (if hex_digit c then (if n \<le> 1 then (InString, st) else (InStringEscU (n - 1), st))
      else (ScanError, st))"
| "scan_step (Neg, st) c =
     (if c = CHR ''0'' then (Zero, st) else if digit c then (Digits, st) else (ScanError, st))"
| "scan_step (Digits, st) c =
     (if digit c then (Digits, st) else if c = CHR ''.'' then (Dot, st)
      else if c = CHR ''e'' \<or> c = CHR ''E'' then (Exp, st) else end_value st c)"
| "scan_step (Zero, st) c =
     (if c = CHR ''.'' then (Dot, st)
      else if c = CHR ''e'' \<or> c = CHR ''E'' then (Exp, st) else end_value st c)"
| "scan_step (Dot, st) c = (if digit c then (Dot0, st) else (ScanError, st))"
| "scan_step (Dot0, st) c =
     (if digit c then (Dot0, st)
      else if c = CHR ''e'' \<or> c = CHR ''E'' then (Exp, st) else end_value st c)"
| "scan_step (Exp, st) c =
     (if c = CHR ''+'' \<or> c = CHR ''-'' then (ExpSign, st)
      else if digit c then (Exp0, st) else (ScanError, st))"
| "scan_step (ExpSign, st) c = (if digit c then (Exp0, st) else (ScanError, st))"
| "scan_step (Exp0, st) c = (if digit c then (Exp0, st) else end_value st c)"
| "scan_step (Literal [], st) c = (ScanError, st)"
| "scan_step (Literal (x # xs), st) c =
     (if c = x then (if xs = [] then (EndValue, st) else (Literal xs, st)) else (ScanError, st))"
| "scan_step (ScanError, st) c = (ScanError, st)"

definition json_valid :: "bytes \<Rightarrow> bool" where
  "json_valid s \<longleftrightarrow> fst (scan_step (foldl scan_step (BeginValue, []) s) (CHR '' '')) = EndTop"

lemma scan_error_stays: "foldl scan_step (ScanError, st) s = (ScanError, st)"
  by (induction s) auto

subsection \<open>Members and elements of an accepted text\<close>

definition trim_json :: "bytes \<Rightarrow> bytes" where
  "trim_json s = rev (dropWhile json_space (rev (dropWhile json_space s)))"

text \<open>Split at a separator that is outside strings and nested values.\<close>

fun split_top :: "char \<Rightarrow> nat \<Rightarrow> bool \<Rightarrow> bool \<Rightarrow> bytes \<Rightarrow> bytes list" where
  "split_top sep d inside esc [] = [[]]"
| "split_top sep d inside esc (c # cs) =
     (if \<not> inside \<and> d = 0 \<and> c = sep then [] # split_top sep 0 False False cs
      else
        let rest =
          (if inside then
             (if esc then split_top sep d True False cs
              else if c = backslash then split_top sep d True True cs
              else if c = quote then split_top sep d False False cs
              else split_top sep d True False cs)
           else if c = quote then split_top sep d True False cs
           else if c = CHR ''{'' \<or> c = CHR ''['' then split_top sep (d + 1) False False cs
           else if c = CHR ''}'' \<or> c = CHR '']'' then split_top sep (d - 1) False False cs
           else split_top sep d False False cs)
        in (case rest of [] \<Rightarrow> [[c]] | x # xs \<Rightarrow> (c # x) # xs))"

definition json_inner :: "bytes \<Rightarrow> bytes" where
  "json_inner s = butlast (tl s)"

definition json_elements :: "bytes \<Rightarrow> bytes list" where
  "json_elements s =
     (if trim_json (json_inner s) = [] then []
      else map trim_json (split_top (CHR '','') 0 False False (json_inner s)))"

definition json_member :: "bytes \<Rightarrow> bytes \<times> bytes" where
  "json_member m =
     (case split_top (CHR '':'') 0 False False m of
        k # v # _ \<Rightarrow> (trim_json k, trim_json v)
      | _ \<Rightarrow> ([], []))"

subsection \<open>Strings\<close>

definition hex_value :: "char \<Rightarrow> nat" where
  "hex_value c =
     (if digit c then byte c - 0x30 else if 0x61 \<le> byte c then byte c - 0x57 else byte c - 0x37)"

fun hex4 :: "bytes \<Rightarrow> nat option" where
  "hex4 (a # b # c # d # _) =
     (if hex_digit a \<and> hex_digit b \<and> hex_digit c \<and> hex_digit d
      then Some (((hex_value a * 16 + hex_value b) * 16 + hex_value c) * 16 + hex_value d) else None)"
| "hex4 _ = None"

definition getu4 :: "bytes \<Rightarrow> nat option" where
  "getu4 s = (if take 2 s = [backslash, CHR ''u''] then hex4 (drop 2 s) else None)"

definition encode_rune :: "nat \<Rightarrow> bytes" where
  "encode_rune r =
     (if r < 0x80 then [char_of r]
      else if r < 0x800 then [char_of (0xC0 + r div 64), char_of (0x80 + r mod 64)]
      else if r > 0x10FFFF \<or> (0xD800 \<le> r \<and> r \<le> 0xDFFF) then replacement
      else if r < 0x10000 then
        [char_of (0xE0 + r div 4096), char_of (0x80 + r div 64 mod 64), char_of (0x80 + r mod 64)]
      else
        [char_of (0xF0 + r div 262144), char_of (0x80 + r div 4096 mod 64),
         char_of (0x80 + r div 64 mod 64), char_of (0x80 + r mod 64)])"

definition simple_escape :: "char \<Rightarrow> bytes" where
  "simple_escape c =
     (if c = CHR ''b'' then [CHR 0x08] else if c = CHR ''f'' then [CHR 0x0C]
      else if c = CHR ''n'' then [CHR 0x0A] else if c = CHR ''r'' then [CHR 0x0D]
      else if c = CHR ''t'' then [CHR 0x09] else [c])"

text \<open>
  The text between the quotes: escapes are expanded (a surrogate pair to one code point, a
  lone surrogate to U+FFFD) and every byte of invalid UTF-8 becomes U+FFFD.
\<close>

function unquote :: "bytes \<Rightarrow> bytes" where
  "unquote s =
     (case s of
        [] \<Rightarrow> []
      | c # cs \<Rightarrow>
          if c = backslash then
            (case getu4 s of
               Some r \<Rightarrow>
                 if 0xD800 \<le> r \<and> r \<le> 0xDFFF then
                   (case getu4 (drop 6 s) of
                      Some r2 \<Rightarrow>
                        if r < 0xDC00 \<and> 0xDC00 \<le> r2 \<and> r2 \<le> 0xDFFF
                        then encode_rune (0x10000 + (r - 0xD800) * 1024 + (r2 - 0xDC00)) @ unquote (drop 12 s)
                        else replacement @ unquote (drop 6 s)
                    | None \<Rightarrow> replacement @ unquote (drop 6 s))
                 else encode_rune r @ unquote (drop 6 s)
             | None \<Rightarrow> (case cs of [] \<Rightarrow> [] | d # ds \<Rightarrow> simple_escape d @ unquote ds))
          else if rune_width s = 0 then replacement @ unquote cs
          else take (rune_width s) s @ unquote (drop (rune_width s) s))"
  by pat_completeness auto
termination
  by (relation "measure length") auto

declare unquote.simps [simp del]

subsection \<open>Decoders\<close>

type_synonym 'a decoder = "bytes \<Rightarrow> 'a \<Rightarrow> 'a option"

abbreviation json_null :: bytes where "json_null \<equiv> ''null''"

definition dec_string :: "bytes decoder" where
  "dec_string raw old =
     (if raw = json_null then Some old
      else if take 1 raw = [quote] then Some (unquote (json_inner raw)) else None)"

definition dec_bool :: "bool decoder" where
  "dec_bool raw old =
     (if raw = json_null then Some old
      else if raw = ''true'' then Some True else if raw = ''false'' then Some False else None)"

definition digits_value :: "bytes \<Rightarrow> int" where
  "digits_value s = foldl (\<lambda>n c. 10 * n + (int (byte c) - 0x30)) 0 s"

definition parse_int64 :: "bytes \<Rightarrow> int option" where
  "parse_int64 s =
     (let neg = (take 1 s = ''-''); ds = (if neg then drop 1 s else s);
          v = (if neg then - digits_value ds else digits_value ds)
      in if ds \<noteq> [] \<and> (\<forall>c \<in> set ds. digit c) \<and> int64_ok v then Some v else None)"

definition dec_int :: "int decoder" where
  "dec_int raw old = (if raw = json_null then Some old else parse_int64 raw)"

definition dec_raw :: "bytes decoder" where
  "dec_raw raw old = Some raw"

text \<open>A pointer: \<open>null\<close> makes it nil, another value is decoded into what it points to.\<close>

definition dec_ptr :: "'a decoder \<Rightarrow> 'a \<Rightarrow> 'a option decoder" where
  "dec_ptr d zero raw old =
     (if raw = json_null then Some None
      else map_option Some (d raw (case old of None \<Rightarrow> zero | Some x \<Rightarrow> x)))"

text \<open>A slice: elements are decoded into the elements already there, as the library does.\<close>

fun dec_elements :: "'a decoder \<Rightarrow> 'a \<Rightarrow> bytes list \<Rightarrow> 'a list \<Rightarrow> 'a list option" where
  "dec_elements d zero [] old = Some []"
| "dec_elements d zero (r # rs) old =
     (case d r (case old of [] \<Rightarrow> zero | x # _ \<Rightarrow> x) of
        None \<Rightarrow> None
      | Some x \<Rightarrow> map_option ((#) x) (dec_elements d zero rs (tl old)))"

definition dec_list :: "'a decoder \<Rightarrow> 'a \<Rightarrow> 'a list decoder" where
  "dec_list d zero raw old =
     (if raw = json_null then Some []
      else if take 1 raw = ''['' then dec_elements d zero (json_elements raw) old else None)"

text \<open>
  Field names match exactly, or else under case folding; besides the ASCII letters, the
  long s (U+017F) folds to \<open>S\<close> and the Kelvin sign (U+212A) to \<open>K\<close>.
\<close>

definition ascii_upper :: "char \<Rightarrow> char" where
  "ascii_upper c = (if 0x61 \<le> byte c \<and> byte c \<le> 0x7A then char_of (byte c - 0x20) else c)"

fun fold_name :: "bytes \<Rightarrow> bytes" where
  "fold_name [] = []"
| "fold_name (c # cs) =
     (if c = CHR 0xC5 \<and> take 1 cs = [CHR 0xBF] then CHR ''S'' # fold_name (drop 1 cs)
      else if c = CHR 0xE2 \<and> take 2 cs = [CHR 0x84, CHR 0xAA] then CHR ''K'' # fold_name (drop 2 cs)
      else ascii_upper c # fold_name cs)"

definition find_field :: "(bytes \<times> 'f) list \<Rightarrow> bytes \<Rightarrow> 'f option" where
  "find_field fs name =
     (case al_lookup fs name of
        Some f \<Rightarrow> Some f
      | None \<Rightarrow> map_option snd (find (\<lambda>(n, f). fold_name n = fold_name name) fs))"

fun dec_members :: "(bytes \<times> 'a decoder) list \<Rightarrow> (bytes \<times> bytes) list \<Rightarrow> 'a \<Rightarrow> 'a option" where
  "dec_members fs [] x = Some x"
| "dec_members fs ((k, raw) # ms) x =
     (case find_field fs (unquote (json_inner k)) of
        None \<Rightarrow> dec_members fs ms x
      | Some d \<Rightarrow> (case d raw x of None \<Rightarrow> None | Some x' \<Rightarrow> dec_members fs ms x'))"

definition dec_struct :: "(bytes \<times> 'a decoder) list \<Rightarrow> 'a decoder" where
  "dec_struct fs raw old =
     (if raw = json_null then Some old
      else if take 1 raw = ''{'' then dec_members fs (map json_member (json_elements raw)) old else None)"

definition unmarshal :: "'a decoder \<Rightarrow> bytes \<Rightarrow> 'a \<Rightarrow> 'a option" where
  "unmarshal d s old = (if json_valid s then d (trim_json s) old else None)"

definition unmarshal_string :: "bytes \<Rightarrow> bytes option" where
  "unmarshal_string s = unmarshal dec_string s []"

subsection \<open>\<open>Compact\<close> and \<open>Marshal\<close>\<close>

fun strip_space :: "bool \<Rightarrow> bool \<Rightarrow> bytes \<Rightarrow> bytes" where
  "strip_space inside esc [] = []"
| "strip_space inside esc (c # cs) =
     (if inside then
        c # (if esc then strip_space True False cs
             else if c = backslash then strip_space True True cs
             else if c = quote then strip_space False False cs
             else strip_space True False cs)
      else if json_space c then strip_space False False cs
      else c # strip_space (c = quote) False cs)"

definition json_compact :: "bytes \<Rightarrow> bytes option" where
  "json_compact s = (if json_valid s then Some (strip_space False False s) else None)"

definition hex_char :: "nat \<Rightarrow> char" where
  "hex_char n = (if n < 10 then char_of (0x30 + n) else char_of (0x57 + n))"

definition escape_ascii :: "char \<Rightarrow> bytes" where
  "escape_ascii c =
     (if c = quote \<or> c = backslash then [backslash, c]
      else if c = CHR 0x08 then [backslash, CHR ''b'']
      else if c = CHR 0x0C then [backslash, CHR ''f'']
      else if c = CHR 0x0A then [backslash, CHR ''n'']
      else if c = CHR 0x0D then [backslash, CHR ''r'']
      else if c = CHR 0x09 then [backslash, CHR ''t'']
      else if byte c < 0x20 \<or> c = CHR ''<'' \<or> c = CHR ''>'' \<or> c = CHR ''&'' then
        [backslash, CHR ''u'', CHR ''0'', CHR ''0'', hex_char (byte c div 16), hex_char (byte c mod 16)]
      else [c])"

function quote_string :: "bytes \<Rightarrow> bytes" where
  "quote_string s =
     (case s of
        [] \<Rightarrow> []
      | c # cs \<Rightarrow>
          if byte c < 0x80 then escape_ascii c @ quote_string cs
          else if rune_width s = 0 then (backslash # ''ufffd'') @ quote_string cs
          else if take 3 s = [CHR 0xE2, CHR 0x80, CHR 0xA8] then (backslash # ''u2028'') @ quote_string (drop 3 s)
          else if take 3 s = [CHR 0xE2, CHR 0x80, CHR 0xA9] then (backslash # ''u2029'') @ quote_string (drop 3 s)
          else take (rune_width s) s @ quote_string (drop (rune_width s) s))"
  by pat_completeness auto
termination
  by (relation "measure length") auto

declare quote_string.simps [simp del]

definition marshal_string :: "bytes \<Rightarrow> bytes" where
  "marshal_string s = quote # quote_string s @ [quote]"

fun join_with :: "bytes \<Rightarrow> bytes list \<Rightarrow> bytes" where
  "join_with sep [] = []"
| "join_with sep [x] = x"
| "join_with sep (x # y # xs) = x @ sep @ join_with sep (y # xs)"

definition marshal_strings :: "bytes list \<Rightarrow> bytes" where
  "marshal_strings xs = ''['' @ join_with '','' (map marshal_string xs) @ '']''"

end
