(* ===== verification/Stream_Output.thy ===== *)
theory Stream_Output
  imports Json "HOL-Library.Product_Lexorder"
begin

text \<open>
  The data of the stream accumulator of \<open>internal/genai/genai.go\<close>: outputs, the keys they are
  collected under, the state of one output and how it is turned into a finished output.

  Indexes are 64-bit integers, represented by \<open>int\<close> with the wrap-around of \<open>wrap64\<close> written
  where the code computes with them. The keys are linearly ordered by the comparison
  function \<open>finishMatching\<close> sorts with, made an instance of \<open>linorder\<close>, so \<open>sort\<close> is its
  \<open>sort.Slice\<close>.
\<close>

datatype StreamOutputKind = StreamOutputReasoning | StreamOutputResponse | StreamOutputToolCall

datatype streamOutputSource = StreamSourceChat | StreamSourceResponses | StreamSourceNative

fun kind_value :: "StreamOutputKind \<Rightarrow> nat" where
  "kind_value StreamOutputReasoning = 0"
| "kind_value StreamOutputResponse = 1"
| "kind_value StreamOutputToolCall = 2"

fun source_value :: "streamOutputSource \<Rightarrow> nat" where
  "source_value StreamSourceChat = 0"
| "source_value StreamSourceResponses = 1"
| "source_value StreamSourceNative = 2"

record StreamOutput =
  so_kind :: StreamOutputKind
  so_choiceIndex :: int
  so_hasChoiceIndex :: bool
  so_outputIndex :: int
  so_hasOutputIndex :: bool
  so_contentIndex :: int
  so_hasContentIndex :: bool
  so_toolCallIndex :: int
  so_hasToolCallIndex :: bool
  so_toolCallID :: bytes
  so_itemID :: bytes
  so_toolType :: bytes
  so_name :: bytes
  so_reasoning :: bytes
  so_content :: bytes
  so_refusal :: bytes
  so_arguments :: bytes
  so_finishReason :: bytes
  so_start :: go_time
  so_end :: go_time
  so_truncated :: bool
  so_complete :: bool
  so_failed :: bool
  so_observationLimited :: bool
  so_protocolIncomplete :: bool
  so_errorMessage :: bytes

definition output_of_kind :: "StreamOutputKind \<Rightarrow> StreamOutput" where
  "output_of_kind k =
     \<lparr>so_kind = k, so_choiceIndex = 0, so_hasChoiceIndex = False, so_outputIndex = 0,
      so_hasOutputIndex = False, so_contentIndex = 0, so_hasContentIndex = False,
      so_toolCallIndex = 0, so_hasToolCallIndex = False, so_toolCallID = [], so_itemID = [],
      so_toolType = [], so_name = [], so_reasoning = [], so_content = [], so_refusal = [],
      so_arguments = [], so_finishReason = [], so_start = 0, so_end = 0, so_truncated = False,
      so_complete = False, so_failed = False, so_observationLimited = False,
      so_protocolIncomplete = False, so_errorMessage = []\<rparr>"

subsection \<open>Keys\<close>

datatype streamOutputKey = StreamKey
  (key_source: streamOutputSource) (key_kind: StreamOutputKind) (key_choiceIndex: int)
  (key_outputIndex: int) (key_contentIndex: int) (key_toolIndex: int) (key_itemID: bytes)

datatype streamOutputGroup = StreamGroup streamOutputSource StreamOutputKind int int int

definition key_group :: "streamOutputKey \<Rightarrow> streamOutputGroup" where
  "key_group k =
     StreamGroup (key_source k) (key_kind k) (key_choiceIndex k) (key_outputIndex k) (key_toolIndex k)"

definition key_less :: "streamOutputKey \<Rightarrow> streamOutputKey \<Rightarrow> bool" where
  "key_less left right =
     (if key_source left \<noteq> key_source right
      then source_value (key_source left) < source_value (key_source right)
      else if key_choiceIndex left \<noteq> key_choiceIndex right
      then key_choiceIndex left < key_choiceIndex right
      else if key_outputIndex left \<noteq> key_outputIndex right
      then key_outputIndex left < key_outputIndex right
      else if key_contentIndex left \<noteq> key_contentIndex right
      then key_contentIndex left < key_contentIndex right
      else if key_kind left \<noteq> key_kind right
      then kind_value (key_kind left) < kind_value (key_kind right)
      else if key_toolIndex left \<noteq> key_toolIndex right
      then key_toolIndex left < key_toolIndex right
      else key_itemID left < key_itemID right)"

definition key_tuple :: "streamOutputKey \<Rightarrow> nat \<times> int \<times> int \<times> int \<times> nat \<times> int \<times> bytes" where
  "key_tuple k =
     (source_value (key_source k), key_choiceIndex k, key_outputIndex k, key_contentIndex k,
      kind_value (key_kind k), key_toolIndex k, key_itemID k)"

lemma source_value_inj [simp]: "source_value a = source_value b \<longleftrightarrow> a = b"
  by (cases a; cases b) simp_all

lemma kind_value_inj [simp]: "kind_value a = kind_value b \<longleftrightarrow> a = b"
  by (cases a; cases b) simp_all

lemma key_tuple_inj [simp]: "key_tuple a = key_tuple b \<longleftrightarrow> a = b"
  by (cases a; cases b) (auto simp: key_tuple_def)

lemma lex_pair_less: "((x::'a::linorder), (u::'b::linorder)) < (y, v) \<longleftrightarrow> (if x \<noteq> y then x < y else u < v)"
  by auto

lemma key_less_tuple: "key_less a b \<longleftrightarrow> key_tuple a < key_tuple b"
  unfolding key_less_def key_tuple_def lex_pair_less source_value_inj kind_value_inj ..

instantiation streamOutputKey :: linorder
begin

definition less_streamOutputKey :: "streamOutputKey \<Rightarrow> streamOutputKey \<Rightarrow> bool" where
  "less_streamOutputKey a b \<longleftrightarrow> key_less a b"

definition less_eq_streamOutputKey :: "streamOutputKey \<Rightarrow> streamOutputKey \<Rightarrow> bool" where
  "less_eq_streamOutputKey a b \<longleftrightarrow> a = b \<or> key_less a b"

instance
  by standard (auto simp: less_streamOutputKey_def less_eq_streamOutputKey_def key_less_tuple)

end

subsection \<open>The state of one output\<close>

record streamOutputState =
  st_output :: StreamOutput
  st_reasoning :: limitedStreamText
  st_content :: limitedStreamText
  st_refusal :: limitedStreamText
  st_arguments :: limitedStreamText
  st_name :: limitedStreamText
  st_toolType :: limitedStreamText
  st_toolID :: limitedStreamText
  st_itemID :: limitedStreamText
  st_finishReason :: limitedStreamText
  st_shellCommands :: "(int \<times> limitedStreamText) list"
  st_started :: bool
  st_argumentsAuthoritative :: bool
  st_completed :: bool
  st_incomplete :: bool
  st_failed :: bool
  st_errorMessage :: bytes

definition new_state :: "StreamOutput \<Rightarrow> streamOutputState" where
  "new_state out =
     \<lparr>st_output = out, st_reasoning = empty_text, st_content = empty_text, st_refusal = empty_text,
      st_arguments = empty_text, st_name = empty_text, st_toolType = empty_text,
      st_toolID = empty_text, st_itemID = empty_text, st_finishReason = empty_text,
      st_shellCommands = [], st_started = False, st_argumentsAuthoritative = False,
      st_completed = False, st_incomplete = False, st_failed = False, st_errorMessage = []\<rparr>"

definition touch :: "streamOutputState \<Rightarrow> go_time \<Rightarrow> streamOutputState" where
  "touch s at =
     (if \<not> st_started s
      then s\<lparr>st_started := True, st_output := (st_output s)\<lparr>so_start := at\<rparr>\<rparr> else s)"

abbreviation text_present :: "limitedStreamText \<Rightarrow> bool" where
  "text_present t \<equiv> length (lt_value t) > 0"

definition hasData :: "streamOutputState \<Rightarrow> bool" where
  "hasData s =
     (case so_kind (st_output s) of
        StreamOutputReasoning \<Rightarrow> text_present (st_reasoning s) \<or> lt_truncated (st_reasoning s)
      | StreamOutputResponse \<Rightarrow>
          text_present (st_content s) \<or> text_present (st_refusal s) \<or>
          lt_truncated (st_content s) \<or> lt_truncated (st_refusal s)
      | StreamOutputToolCall \<Rightarrow>
          text_present (st_toolID s) \<or> text_present (st_toolType s) \<or> text_present (st_name s) \<or>
          text_present (st_arguments s) \<or> lt_truncated (st_toolID s) \<or> lt_truncated (st_toolType s) \<or>
          lt_truncated (st_name s) \<or> lt_truncated (st_arguments s) \<or> length (st_shellCommands s) > 0)"

definition streamToolHasToken :: "bytes \<Rightarrow> bytes \<Rightarrow> bytes \<Rightarrow> bytes \<Rightarrow> bool" where
  "streamToolHasToken toolType toolID name arguments =
     (if toolID \<noteq> [] \<or> name \<noteq> [] \<or> arguments \<noteq> [] then True
      else toolType \<noteq> [] \<and> toolType \<noteq> ''function'' \<and> toolType \<noteq> ''function_call'' \<and>
           toolType \<noteq> ''custom_tool_call'')"

definition streamStateHasToken :: "streamOutputState \<Rightarrow> bool" where
  "streamStateHasToken s =
     (case so_kind (st_output s) of
        StreamOutputReasoning \<Rightarrow> text_present (st_reasoning s) \<or> lt_truncated (st_reasoning s)
      | StreamOutputResponse \<Rightarrow>
          text_present (st_content s) \<or> text_present (st_refusal s) \<or>
          lt_truncated (st_content s) \<or> lt_truncated (st_refusal s)
      | StreamOutputToolCall \<Rightarrow>
          streamToolHasToken (lt_value (st_toolType s)) (lt_value (st_toolID s))
            (lt_value (st_name s)) (lt_value (st_arguments s)) \<or>
          lt_truncated (st_toolType s) \<or> lt_truncated (st_toolID s) \<or>
          lt_truncated (st_name s) \<or> lt_truncated (st_arguments s))"

definition streamOutputHasToken :: "StreamOutput \<Rightarrow> bool" where
  "streamOutputHasToken out =
     (case so_kind out of
        StreamOutputReasoning \<Rightarrow> so_reasoning out \<noteq> [] \<or> so_truncated out
      | StreamOutputResponse \<Rightarrow> so_content out \<noteq> [] \<or> so_refusal out \<noteq> [] \<or> so_truncated out
      | StreamOutputToolCall \<Rightarrow>
          streamToolHasToken (so_toolType out) (so_toolCallID out) (so_name out) (so_arguments out) \<or>
          so_truncated out)"

definition generic_error :: bytes where
  "generic_error = ''upstream reported an error''"

definition preferredStreamErrorMessage :: "bytes \<Rightarrow> bytes \<Rightarrow> bytes" where
  "preferredStreamErrorMessage state fallback =
     (if state \<noteq> [] \<and> state \<noteq> generic_error then state
      else if fallback \<noteq> [] \<and> fallback \<noteq> generic_error then fallback
      else if state \<noteq> [] then state else fallback)"

definition assembledShellCommands :: "streamOutputState \<Rightarrow> nat \<Rightarrow> bytes \<times> bool" where
  "assembledShellCommands s limit =
     (let indexes = sort (al_keys (st_shellCommands s));
          parts = map (\<lambda>i. case al_lookup (st_shellCommands s) i of Some t \<Rightarrow> t | None \<Rightarrow> empty_text) indexes;
          commands = map lt_value parts;
          truncated = list_ex lt_truncated parts;
          raw = (CHR ''{'' # marshal_string ''commands'') @ '':'' @ marshal_strings commands @ ''}'';
          assembled = text_set empty_text raw limit
      in (lt_value assembled, truncated \<or> lt_truncated assembled))"

definition finish_state ::
    "streamOutputState \<Rightarrow> go_time \<Rightarrow> bool \<Rightarrow> bool \<Rightarrow> bytes \<Rightarrow> nat \<Rightarrow> StreamOutput" where
  "finish_state s at complete0 failed0 message0 limit =
     (let (complete, failed, message) =
            (if st_failed s then (False, True, preferredStreamErrorMessage (st_errorMessage s) message0)
             else if st_incomplete s then (False, failed0, message0)
             else if st_completed s then (True, False, [])
             else (complete0, failed0, message0));
          (arguments, shellTruncated) =
            (if length (st_shellCommands s) > 0 \<and> \<not> st_argumentsAuthoritative s
             then assembledShellCommands s limit
             else (lt_value (st_arguments s), False))
      in (st_output s)\<lparr>
           so_end := at,
           so_complete := complete,
           so_failed := failed,
           so_protocolIncomplete := st_incomplete s,
           so_errorMessage := message,
           so_reasoning := lt_value (st_reasoning s),
           so_content := lt_value (st_content s),
           so_refusal := lt_value (st_refusal s),
           so_arguments := arguments,
           so_name := lt_value (st_name s),
           so_toolType := lt_value (st_toolType s),
           so_toolCallID := lt_value (st_toolID s),
           so_itemID := lt_value (st_itemID s),
           so_finishReason := lt_value (st_finishReason s),
           so_truncated :=
             lt_truncated (st_reasoning s) \<or> lt_truncated (st_content s) \<or> lt_truncated (st_refusal s) \<or>
             lt_truncated (st_arguments s) \<or> lt_truncated (st_name s) \<or> lt_truncated (st_toolType s) \<or>
             lt_truncated (st_toolID s) \<or> lt_truncated (st_itemID s) \<or>
             lt_truncated (st_finishReason s) \<or> shellTruncated\<rparr>)"

end
