(* ===== verification/Stream_Events.thy ===== *)
theory Stream_Events
  imports Stream_Output
begin

text \<open>
  The events of a stream as \<open>internal/genai/genai.go\<close> decodes them: the payload structs with
  their JSON fields, and the functions that read statuses, error messages and raw values.

  A \<open>json.RawMessage\<close> is the text of the value, empty when the field is absent. A struct
  decoder lists the JSON name of each field with the decoder of its type.
\<close>

definition fld :: "bytes \<Rightarrow> 'b decoder \<Rightarrow> ('a \<Rightarrow> 'b) \<Rightarrow> (('b \<Rightarrow> 'b) \<Rightarrow> 'a \<Rightarrow> 'a) \<Rightarrow> bytes \<times> 'a decoder" where
  "fld name d get upd = (name, \<lambda>raw x. map_option (\<lambda>v. upd (\<lambda>_. v) x) (d raw (get x)))"

record functionPart =
  fp_name :: bytes
  fp_arguments :: bytes

definition dec_functionPart :: "functionPart decoder" where
  "dec_functionPart = dec_struct
     [fld ''name'' dec_string fp_name fp_name_update,
      fld ''arguments'' dec_string fp_arguments fp_arguments_update]"

definition no_functionPart :: functionPart where
  "no_functionPart = \<lparr>fp_name = [], fp_arguments = []\<rparr>"

record streamToolPart =
  tp_index :: "int option"
  tp_id :: bytes
  tp_type :: bytes
  tp_function :: "functionPart option"

definition no_streamToolPart :: streamToolPart where
  "no_streamToolPart = \<lparr>tp_index = None, tp_id = [], tp_type = [], tp_function = None\<rparr>"

definition dec_streamToolPart :: "streamToolPart decoder" where
  "dec_streamToolPart = dec_struct
     [fld ''index'' (dec_ptr dec_int 0) tp_index tp_index_update,
      fld ''id'' dec_string tp_id tp_id_update,
      fld ''type'' dec_string tp_type tp_type_update,
      fld ''function'' (dec_ptr dec_functionPart no_functionPart) tp_function tp_function_update]"

record streamDelta =
  d_content :: bytes
  d_reasoning :: bytes
  d_reasoningContent :: bytes
  d_refusal :: bytes
  d_toolCalls :: "streamToolPart list"
  d_functionCall :: "functionPart option"

definition no_streamDelta :: streamDelta where
  "no_streamDelta =
     \<lparr>d_content = [], d_reasoning = [], d_reasoningContent = [], d_refusal = [], d_toolCalls = [],
      d_functionCall = None\<rparr>"

definition dec_streamDelta :: "streamDelta decoder" where
  "dec_streamDelta = dec_struct
     [fld ''content'' dec_string d_content d_content_update,
      fld ''reasoning'' dec_string d_reasoning d_reasoning_update,
      fld ''reasoning_content'' dec_string d_reasoningContent d_reasoningContent_update,
      fld ''refusal'' dec_string d_refusal d_refusal_update,
      fld ''tool_calls'' (dec_list dec_streamToolPart no_streamToolPart) d_toolCalls d_toolCalls_update,
      fld ''function_call'' (dec_ptr dec_functionPart no_functionPart) d_functionCall d_functionCall_update]"

record streamChoice =
  c_index :: "int option"
  c_text :: bytes
  c_finishReason :: "bytes option"
  c_delta :: "streamDelta option"

definition no_streamChoice :: streamChoice where
  "no_streamChoice = \<lparr>c_index = None, c_text = [], c_finishReason = None, c_delta = None\<rparr>"

definition dec_streamChoice :: "streamChoice decoder" where
  "dec_streamChoice = dec_struct
     [fld ''index'' (dec_ptr dec_int 0) c_index c_index_update,
      fld ''text'' dec_string c_text c_text_update,
      fld ''finish_reason'' (dec_ptr dec_string []) c_finishReason c_finishReason_update,
      fld ''delta'' (dec_ptr dec_streamDelta no_streamDelta) c_delta c_delta_update]"

record streamPart =
  pt_type :: bytes
  pt_text :: bytes
  pt_refusal :: bytes
  pt_status :: bytes
  pt_error :: bytes

definition no_streamPart :: streamPart where
  "no_streamPart = \<lparr>pt_type = [], pt_text = [], pt_refusal = [], pt_status = [], pt_error = []\<rparr>"

definition dec_streamPart :: "streamPart decoder" where
  "dec_streamPart = dec_struct
     [fld ''type'' dec_string pt_type pt_type_update,
      fld ''text'' dec_string pt_text pt_text_update,
      fld ''refusal'' dec_string pt_refusal pt_refusal_update,
      fld ''status'' dec_string pt_status pt_status_update,
      fld ''error'' dec_raw pt_error pt_error_update]"

record streamItem =
  it_id :: bytes
  it_callID :: bytes
  it_type :: bytes
  it_name :: bytes
  it_status :: bytes
  it_arguments :: bytes
  it_input :: bytes
  it_code :: bytes
  it_action :: bytes
  it_actions :: bytes
  it_queries :: bytes
  it_operation :: bytes
  it_error :: bytes
  it_content :: "streamPart list"
  it_summary :: "streamPart list"

definition no_streamItem :: streamItem where
  "no_streamItem =
     \<lparr>it_id = [], it_callID = [], it_type = [], it_name = [], it_status = [], it_arguments = [],
      it_input = [], it_code = [], it_action = [], it_actions = [], it_queries = [],
      it_operation = [], it_error = [], it_content = [], it_summary = []\<rparr>"

definition dec_streamItem :: "streamItem decoder" where
  "dec_streamItem = dec_struct
     [fld ''id'' dec_string it_id it_id_update,
      fld ''call_id'' dec_string it_callID it_callID_update,
      fld ''type'' dec_string it_type it_type_update,
      fld ''name'' dec_string it_name it_name_update,
      fld ''status'' dec_string it_status it_status_update,
      fld ''arguments'' dec_raw it_arguments it_arguments_update,
      fld ''input'' dec_raw it_input it_input_update,
      fld ''code'' dec_raw it_code it_code_update,
      fld ''action'' dec_raw it_action it_action_update,
      fld ''actions'' dec_raw it_actions it_actions_update,
      fld ''queries'' dec_raw it_queries it_queries_update,
      fld ''operation'' dec_raw it_operation it_operation_update,
      fld ''error'' dec_raw it_error it_error_update,
      fld ''content'' (dec_list dec_streamPart no_streamPart) it_content it_content_update,
      fld ''summary'' (dec_list dec_streamPart no_streamPart) it_summary it_summary_update]"

record streamResponse =
  rs_output :: "streamItem list"
  rs_error :: bytes

definition no_streamResponse :: streamResponse where
  "no_streamResponse = \<lparr>rs_output = [], rs_error = []\<rparr>"

definition dec_streamResponse :: "streamResponse decoder" where
  "dec_streamResponse = dec_struct
     [fld ''output'' (dec_list dec_streamItem no_streamItem) rs_output rs_output_update,
      fld ''error'' dec_raw rs_error rs_error_update]"

record streamEventPayload =
  e_type :: bytes
  e_delta :: bytes
  e_content :: bytes
  e_reasoning :: bytes
  e_reasoningContent :: bytes
  e_refusal :: bytes
  e_text :: bytes
  e_arguments :: bytes
  e_input :: bytes
  e_name :: bytes
  e_message :: bytes
  e_status :: bytes
  e_code :: bytes
  e_command :: bytes
  e_itemID :: bytes
  e_outputIndex :: "int option"
  e_contentIndex :: "int option"
  e_summaryIndex :: "int option"
  e_commandIndex :: "int option"
  e_stop :: "bool option"
  e_stopType :: bytes
  e_error :: bytes
  e_choices :: "streamChoice list"
  e_item :: "streamItem option"
  e_part :: "streamPart option"
  e_response :: "streamResponse option"

definition no_event :: streamEventPayload where
  "no_event =
     \<lparr>e_type = [], e_delta = [], e_content = [], e_reasoning = [], e_reasoningContent = [],
      e_refusal = [], e_text = [], e_arguments = [], e_input = [], e_name = [], e_message = [],
      e_status = [], e_code = [], e_command = [], e_itemID = [], e_outputIndex = None,
      e_contentIndex = None, e_summaryIndex = None, e_commandIndex = None, e_stop = None,
      e_stopType = [], e_error = [], e_choices = [], e_item = None, e_part = None,
      e_response = None\<rparr>"

definition dec_event :: "streamEventPayload decoder" where
  "dec_event = dec_struct
     [fld ''type'' dec_string e_type e_type_update,
      fld ''delta'' dec_raw e_delta e_delta_update,
      fld ''content'' dec_raw e_content e_content_update,
      fld ''reasoning'' dec_string e_reasoning e_reasoning_update,
      fld ''reasoning_content'' dec_string e_reasoningContent e_reasoningContent_update,
      fld ''refusal'' dec_string e_refusal e_refusal_update,
      fld ''text'' dec_string e_text e_text_update,
      fld ''arguments'' dec_string e_arguments e_arguments_update,
      fld ''input'' dec_string e_input e_input_update,
      fld ''name'' dec_string e_name e_name_update,
      fld ''message'' dec_string e_message e_message_update,
      fld ''status'' dec_string e_status e_status_update,
      fld ''code'' dec_raw e_code e_code_update,
      fld ''command'' dec_string e_command e_command_update,
      fld ''item_id'' dec_string e_itemID e_itemID_update,
      fld ''output_index'' (dec_ptr dec_int 0) e_outputIndex e_outputIndex_update,
      fld ''content_index'' (dec_ptr dec_int 0) e_contentIndex e_contentIndex_update,
      fld ''summary_index'' (dec_ptr dec_int 0) e_summaryIndex e_summaryIndex_update,
      fld ''command_index'' (dec_ptr dec_int 0) e_commandIndex e_commandIndex_update,
      fld ''stop'' (dec_ptr dec_bool False) e_stop e_stop_update,
      fld ''stop_type'' dec_string e_stopType e_stopType_update,
      fld ''error'' dec_raw e_error e_error_update,
      fld ''choices'' (dec_list dec_streamChoice no_streamChoice) e_choices e_choices_update,
      fld ''item'' (dec_ptr dec_streamItem no_streamItem) e_item e_item_update,
      fld ''part'' (dec_ptr dec_streamPart no_streamPart) e_part e_part_update,
      fld ''response'' (dec_ptr dec_streamResponse no_streamResponse) e_response e_response_update]"

definition unmarshal_event :: "bytes \<Rightarrow> streamEventPayload option" where
  "unmarshal_event payload = unmarshal dec_event payload no_event"

subsection \<open>Raw values\<close>

text \<open>\<open>len(raw) > 0 \&\& !bytes.Equal(bytes.TrimSpace(raw), "null")\<close>\<close>

definition raw_present :: "bytes \<Rightarrow> bool" where
  "raw_present raw \<longleftrightarrow> length raw > 0 \<and> trim_space raw \<noteq> json_null"

record messageType =
  mt_message :: bytes
  mt_type :: bytes

definition dec_messageType :: "messageType decoder" where
  "dec_messageType = dec_struct
     [fld ''message'' dec_string mt_message mt_message_update,
      fld ''type'' dec_string mt_type mt_type_update]"

definition errorMessage :: "bytes \<Rightarrow> bytes" where
  "errorMessage raw =
     (case unmarshal_string raw of
        Some asString \<Rightarrow> Truncate asString
      | None \<Rightarrow>
          (case unmarshal dec_messageType raw \<lparr>mt_message = [], mt_type = []\<rparr> of
             Some obj \<Rightarrow>
               if mt_message obj \<noteq> [] then Truncate (mt_message obj)
               else if mt_type obj \<noteq> [] then Truncate (mt_type obj)
               else generic_error
           | None \<Rightarrow> generic_error))"

definition rawErrorCode :: "bytes \<Rightarrow> bytes" where
  "rawErrorCode raw0 =
     (let raw = trim_space raw0
      in if length raw = 0 \<or> raw = json_null then []
         else case unmarshal_string raw of
                Some value \<Rightarrow> Truncate value
              | None \<Rightarrow> Truncate raw)"

definition streamJSONString :: "bytes \<Rightarrow> bytes" where
  "streamJSONString raw =
     (if length raw = 0 then []
      else case unmarshal_string raw of None \<Rightarrow> [] | Some value \<Rightarrow> value)"

definition streamRawValue :: "bytes \<Rightarrow> bytes" where
  "streamRawValue raw0 =
     (let raw = trim_space raw0
      in if length raw = 0 \<or> raw = json_null then []
         else case unmarshal_string raw of
                Some value \<Rightarrow> value
              | None \<Rightarrow> (case json_compact raw of Some compact \<Rightarrow> compact | None \<Rightarrow> []))"

fun first_nonempty :: "bytes list \<Rightarrow> bytes" where
  "first_nonempty [] = []"
| "first_nonempty (r # rs) =
     (let value = streamRawValue r in if value \<noteq> [] then value else first_nonempty rs)"

definition streamItemArguments :: "streamItem \<Rightarrow> bytes" where
  "streamItemArguments item =
     first_nonempty [it_arguments item, it_input item, it_code item, it_action item, it_actions item,
       it_queries item, it_operation item]"

definition streamIndex :: "int option \<Rightarrow> int \<Rightarrow> int" where
  "streamIndex value fallback =
     (case value of Some v \<Rightarrow> if v \<ge> 0 then v else fallback | None \<Rightarrow> fallback)"

definition streamPartWithEventStatus :: "streamPart \<Rightarrow> bytes \<Rightarrow> bytes \<Rightarrow> streamPart" where
  "streamPartWithEventStatus part status raw =
     (let part1 = (if status \<noteq> [] then part\<lparr>pt_status := status\<rparr> else part)
      in if raw_present raw then part1\<lparr>pt_error := raw\<rparr> else part1)"

subsection \<open>Statuses and errors\<close>

text \<open>(complete, failed, message)\<close>

definition streamStatus :: "bytes \<Rightarrow> bytes \<Rightarrow> bool \<times> bool \<times> bytes" where
  "streamStatus status raw =
     (if raw_present raw then (False, True, errorMessage raw)
      else if status = ''failed'' \<or> status = ''error'' then (False, True, generic_error)
      else if status \<in> set [''incomplete'', ''cancelled'', ''canceled'', ''in_progress'', ''queued'']
      then (False, False, [])
      else (True, False, []))"

definition applyStreamStatus :: "streamOutputState \<Rightarrow> bytes \<Rightarrow> bytes \<Rightarrow> streamOutputState" where
  "applyStreamStatus s status raw =
     (case streamStatus status raw of
        (_, failed, message) \<Rightarrow>
          if failed then
            (let s1 = s\<lparr>st_failed := True\<rparr>
             in if st_errorMessage s1 = [] \<or> message \<noteq> generic_error
                then s1\<lparr>st_errorMessage := message\<rparr> else s1)
          else if status = ''incomplete'' \<or> status = ''cancelled'' \<or> status = ''canceled''
          then s\<lparr>st_incomplete := True\<rparr>
          else s)"

definition applyStreamOutputStatus :: "streamOutputState \<Rightarrow> bytes \<Rightarrow> bytes \<Rightarrow> streamOutputState" where
  "applyStreamOutputStatus s status raw =
     (let s1 = applyStreamStatus s status raw
      in if status = ''completed'' then s1\<lparr>st_completed := True\<rparr> else s1)"

fun lifecycle_status :: "bytes \<Rightarrow> bytes list \<Rightarrow> (bytes \<times> bytes) option" where
  "lifecycle_status name [] = None"
| "lifecycle_status name (status # rest) =
     (let suffix = ''.'' @ status
      in if has_suffix suffix name \<and> has_suffix ''_call'' (trim_suffix suffix name)
         then Some (trim_suffix suffix name, status)
         else lifecycle_status name rest)"

definition streamToolLifecycle :: "bytes \<Rightarrow> (bytes \<times> bytes) option" where
  "streamToolLifecycle eventType =
     (let name = trim_prefix ''response.'' eventType
      in if name = eventType then None
         else lifecycle_status name [''completed'', ''failed'', ''incomplete''])"

definition streamEventFailed :: "streamEventPayload \<Rightarrow> bool" where
  "streamEventFailed event =
     (if e_type event = ''response.failed'' \<or> e_type event = ''error'' then True
      else e_type event = [] \<and> raw_present (e_error event))"

definition streamEventErrorMessage :: "streamEventPayload \<Rightarrow> bytes" where
  "streamEventErrorMessage event =
     (if e_message event \<noteq> [] then Truncate (e_message event)
      else if raw_present (e_error event) then errorMessage (e_error event)
      else case e_response event of
        Some r \<Rightarrow>
          if raw_present (rs_error r) then errorMessage (rs_error r)
          else (let code = rawErrorCode (e_code event) in if code \<noteq> [] then code else generic_error)
      | None \<Rightarrow> (let code = rawErrorCode (e_code event) in if code \<noteq> [] then code else generic_error))"

record streamEnvelope =
  env_type :: bytes
  env_stop :: "bool option"
  env_message :: bytes
  env_code :: bytes
  env_error :: bytes
  env_response :: bytes

definition dec_envelope :: "streamEnvelope decoder" where
  "dec_envelope = dec_struct
     [fld ''type'' dec_string env_type env_type_update,
      fld ''stop'' (dec_ptr dec_bool False) env_stop env_stop_update,
      fld ''message'' dec_string env_message env_message_update,
      fld ''code'' dec_raw env_code env_code_update,
      fld ''error'' dec_raw env_error env_error_update,
      fld ''response'' dec_raw env_response env_response_update]"

record nestedError = ne_error :: bytes

definition dec_nestedError :: "nestedError decoder" where
  "dec_nestedError = dec_struct [fld ''error'' dec_raw ne_error ne_error_update]"

definition streamEnvelopeErrorMessage :: "bytes \<Rightarrow> bytes \<Rightarrow> bytes \<Rightarrow> bytes \<Rightarrow> bytes" where
  "streamEnvelopeErrorMessage message code raw response =
     (if message \<noteq> [] then Truncate message
      else if raw_present raw then errorMessage raw
      else
        let fallback = (let value = rawErrorCode code in if value \<noteq> [] then value else generic_error)
        in case unmarshal dec_nestedError response \<lparr>ne_error = []\<rparr> of
             Some nested \<Rightarrow> if raw_present (ne_error nested) then errorMessage (ne_error nested) else fallback
           | None \<Rightarrow> fallback)"

text \<open>(terminal, incomplete, failed, message)\<close>

definition decodeStreamTerminal :: "bytes \<Rightarrow> bool \<times> bool \<times> bool \<times> bytes" where
  "decodeStreamTerminal payload =
     (case unmarshal dec_envelope payload
             \<lparr>env_type = [], env_stop = None, env_message = [], env_code = [], env_error = [], env_response = []\<rparr> of
        None \<Rightarrow> (False, False, False, [])
      | Some env \<Rightarrow>
          let message = streamEnvelopeErrorMessage (env_message env) (env_code env) (env_error env) (env_response env)
          in if env_type env = ''response.completed'' then (True, False, False, [])
             else if env_type env = ''response.incomplete'' then (True, True, False, [])
             else if env_type env = ''response.failed'' \<or> env_type env = ''error'' then (True, False, True, message)
             else if env_stop env = Some True then (True, False, False, [])
             else if env_type env = [] \<and> raw_present (env_error env) then (True, False, True, message)
             else (False, False, False, []))"

end
