(* ===== verification/Stream_Accumulator.thy ===== *)
theory Stream_Accumulator
  imports Stream_Events
begin

text \<open>
  \<open>StreamAccumulator\<close> of \<open>internal/genai/genai.go\<close>: it collects the outputs of a response
  stream per key, and hands each out once, when its choice, item or the stream ends.

  The maps \<open>states\<close>, \<open>finished\<close>, \<open>groups\<close>, \<open>finishedGroups\<close> and \<open>finishedChoices\<close> are lists
  without repeated keys; Go iterates over them in random order, and every theorem is about
  lists in any order. A method that returns a pointer to a state returns a \<open>state_ref\<close>: the
  accumulator with the key and the current value of the state, or no state for nil;
  \<open>mutate\<close> is an assignment through the pointer.
\<close>

definition maxStreamOutputStates :: nat where
  "maxStreamOutputStates = 64"

definition maxStreamOutputParts :: nat where
  "maxStreamOutputParts = 128"

record StreamAccumulator =
  a_limit :: nat
  a_states :: "(streamOutputKey \<times> streamOutputState) list"
  a_finished :: "streamOutputKey list"
  a_groups :: "streamOutputGroup list"
  a_finishedGroups :: "streamOutputGroup list"
  a_finishedChoices :: "(streamOutputSource \<times> int) list"
  a_createdParts :: nat
  a_limited :: bool
  a_decodeFailed :: bool
  a_terminalIncomplete :: bool
  a_terminalObserved :: bool
  a_closed :: bool

definition NewStreamAccumulator :: "int \<Rightarrow> StreamAccumulator" where
  "NewStreamAccumulator limit0 =
     (let limit = (if limit0 \<le> 0 then 1 else nat limit0)
      in \<lparr>a_limit = limit, a_states = [], a_finished = [], a_groups = [], a_finishedGroups = [],
          a_finishedChoices = [], a_createdParts = 0, a_limited = False, a_decodeFailed = False,
          a_terminalIncomplete = False, a_terminalObserved = False, a_closed = False\<rparr>)"

definition set_add :: "'a \<Rightarrow> 'a list \<Rightarrow> 'a list" where
  "set_add x xs = (if x \<in> set xs then xs else xs @ [x])"

definition ObservationGap :: "StreamAccumulator \<Rightarrow> bool" where
  "ObservationGap a \<longleftrightarrow> a_limited a \<or> a_decodeFailed a"

definition ContainsToken :: "StreamAccumulator \<Rightarrow> bool" where
  "ContainsToken a \<longleftrightarrow> list_ex (\<lambda>e. streamStateHasToken (snd e)) (a_states a)"

definition MarkLimited :: "StreamAccumulator \<Rightarrow> StreamAccumulator" where
  "MarkLimited a = a\<lparr>a_limited := True\<rparr>"

subsection \<open>States\<close>

type_synonym state_ref = "StreamAccumulator \<times> (streamOutputKey \<times> streamOutputState) option"

definition acc_state :: "StreamAccumulator \<Rightarrow> streamOutputKey \<Rightarrow> StreamOutput \<Rightarrow> state_ref" where
  "acc_state a key out =
     (if key \<in> set (a_finished a) then (a, None)
      else if key_group key \<in> set (a_finishedGroups a) then (a, None)
      else case al_lookup (a_states a) key of
        Some s \<Rightarrow> (a, Some (key, s))
      | None \<Rightarrow>
          if a_createdParts a \<ge> maxStreamOutputParts then (a\<lparr>a_limited := True\<rparr>, None)
          else if key_group key \<notin> set (a_groups a) \<and> length (a_groups a) \<ge> maxStreamOutputStates
          then (a\<lparr>a_limited := True\<rparr>, None)
          else
            let s = new_state out
            in (a\<lparr>a_groups := set_add (key_group key) (a_groups a),
                  a_createdParts := a_createdParts a + 1,
                  a_states := al_put key s (a_states a)\<rparr>, Some (key, s)))"

definition put_state :: "StreamAccumulator \<Rightarrow> streamOutputKey \<Rightarrow> streamOutputState \<Rightarrow> StreamAccumulator" where
  "put_state a key s = a\<lparr>a_states := al_put key s (a_states a)\<rparr>"

fun mutate :: "state_ref \<Rightarrow> (streamOutputState \<Rightarrow> streamOutputState) \<Rightarrow> StreamAccumulator" where
  "mutate (a, None) f = a"
| "mutate (a, Some (key, s)) f = put_state a key (f s)"

fun mutate_ref :: "state_ref \<Rightarrow> (streamOutputState \<Rightarrow> streamOutputState) \<Rightarrow> state_ref" where
  "mutate_ref (a, None) f = (a, None)"
| "mutate_ref (a, Some (key, s)) f = (put_state a key (f s), Some (key, f s))"

definition chatState :: "StreamAccumulator \<Rightarrow> StreamOutputKind \<Rightarrow> int \<Rightarrow> state_ref" where
  "chatState a kind choiceIndex =
     acc_state a (StreamKey StreamSourceChat kind choiceIndex (-1) (-1) (-1) [])
       ((output_of_kind kind)\<lparr>so_choiceIndex := choiceIndex, so_hasChoiceIndex := True\<rparr>)"

definition chatToolState :: "StreamAccumulator \<Rightarrow> int \<Rightarrow> int \<Rightarrow> state_ref" where
  "chatToolState a choiceIndex toolIndex =
     acc_state a (StreamKey StreamSourceChat StreamOutputToolCall choiceIndex (-1) (-1) toolIndex [])
       ((output_of_kind StreamOutputToolCall)\<lparr>so_choiceIndex := choiceIndex, so_hasChoiceIndex := True,
          so_toolCallIndex := toolIndex, so_hasToolCallIndex := True\<rparr>)"

definition nativeState :: "StreamAccumulator \<Rightarrow> StreamOutputKind \<Rightarrow> state_ref" where
  "nativeState a kind =
     acc_state a (StreamKey StreamSourceNative kind 0 (-1) (-1) (-1) []) (output_of_kind kind)"

definition set_item_id :: "bytes \<Rightarrow> nat \<Rightarrow> streamOutputState \<Rightarrow> streamOutputState" where
  "set_item_id itemID limit s = s\<lparr>st_itemID := setStreamMetadata (st_itemID s) itemID limit\<rparr>"

definition response_text_key :: "StreamOutputKind \<Rightarrow> int \<Rightarrow> int \<Rightarrow> streamOutputKey" where
  "response_text_key kind outputIndex contentIndex =
     StreamKey StreamSourceResponses kind (-1) outputIndex contentIndex (-1) []"

definition responseTextState :: "StreamAccumulator \<Rightarrow> StreamOutputKind \<Rightarrow> int \<Rightarrow> int \<Rightarrow> bytes \<Rightarrow> state_ref" where
  "responseTextState a kind outputIndex contentIndex itemID =
     mutate_ref
       (acc_state a (response_text_key kind outputIndex contentIndex)
         ((output_of_kind kind)\<lparr>so_outputIndex := outputIndex, so_hasOutputIndex := True,
            so_contentIndex := contentIndex, so_hasContentIndex := True\<rparr>))
       (set_item_id itemID (a_limit a))"

definition response_tool_key :: "int \<Rightarrow> streamOutputKey" where
  "response_tool_key outputIndex =
     StreamKey StreamSourceResponses StreamOutputToolCall (-1) outputIndex (-1) (-1) []"

text \<open>The item ID also stands in for a tool call ID not seen yet.\<close>

definition set_tool_item_id :: "bytes \<Rightarrow> nat \<Rightarrow> streamOutputState \<Rightarrow> streamOutputState" where
  "set_tool_item_id itemID limit s =
     (let s1 = set_item_id itemID limit s
      in if lt_value (st_toolID s1) = []
         then s1\<lparr>st_toolID := setStreamMetadata (st_toolID s1) itemID limit\<rparr> else s1)"

definition responseToolState :: "StreamAccumulator \<Rightarrow> int \<Rightarrow> bytes \<Rightarrow> state_ref" where
  "responseToolState a outputIndex itemID =
     mutate_ref
       (acc_state a (response_tool_key outputIndex)
         ((output_of_kind StreamOutputToolCall)\<lparr>so_outputIndex := outputIndex, so_hasOutputIndex := True\<rparr>))
       (set_tool_item_id itemID (a_limit a))"

definition summary_content_index :: "int \<Rightarrow> int" where
  "summary_content_index summaryIndex = wrap64 (-2 - summaryIndex)"

definition responseSummaryState :: "StreamAccumulator \<Rightarrow> int \<Rightarrow> int \<Rightarrow> bytes \<Rightarrow> state_ref" where
  "responseSummaryState a outputIndex summaryIndex itemID =
     mutate_ref
       (acc_state a (response_text_key StreamOutputReasoning outputIndex (summary_content_index summaryIndex))
         ((output_of_kind StreamOutputReasoning)\<lparr>so_outputIndex := outputIndex, so_hasOutputIndex := True,
            so_contentIndex := summaryIndex, so_hasContentIndex := True\<rparr>))
       (set_item_id itemID (a_limit a))"

subsection \<open>Finishing\<close>

type_synonym outputs = "StreamOutput list"

definition finishKey ::
    "StreamAccumulator \<Rightarrow> streamOutputKey \<Rightarrow> go_time \<Rightarrow> bool \<Rightarrow> bool \<Rightarrow> bytes \<Rightarrow> StreamAccumulator \<times> StreamOutput option" where
  "finishKey a key at complete failed message =
     (case al_lookup (a_states a) key of
        None \<Rightarrow> (a, None)
      | Some s \<Rightarrow>
          let a1 = a\<lparr>a_states := al_delete key (a_states a)\<rparr>
          in if \<not> hasData s then (a1, None)
             else
               let a2 = a1\<lparr>a_finished := set_add key (a_finished a1),
                          a_finishedGroups := set_add (key_group key) (a_finishedGroups a1)\<rparr>;
                   out = finish_state s at complete failed message (a_limit a2);
                   out1 = out\<lparr>so_observationLimited := a_limited a2 \<or> (a_decodeFailed a2 \<and> complete)\<rparr>;
                   out2 = out1\<lparr>so_protocolIncomplete :=
                            so_protocolIncomplete out1 \<or> (a_terminalIncomplete a2 \<and> \<not> so_complete out1)\<rparr>
               in (a2, Some out2))"

text \<open>The loop \<open>for _, key := range keys\<close> that both finishing methods run.\<close>

fun finishKeys ::
    "StreamAccumulator \<Rightarrow> streamOutputKey list \<Rightarrow> go_time \<Rightarrow> bool \<Rightarrow> bool \<Rightarrow> bytes \<Rightarrow> StreamAccumulator \<times> outputs" where
  "finishKeys a [] at complete failed message = (a, [])"
| "finishKeys a (key # keys) at complete failed message =
     (let (a1, out) = finishKey a key at complete failed message;
          (a2, outs) = finishKeys a1 keys at complete failed message
      in (a2, (case out of None \<Rightarrow> outs | Some x \<Rightarrow> x # outs)))"

definition finishMatching ::
    "StreamAccumulator \<Rightarrow> (streamOutputKey \<Rightarrow> bool) \<Rightarrow> go_time \<Rightarrow> bool \<Rightarrow> bool \<Rightarrow> bytes \<Rightarrow> StreamAccumulator \<times> outputs" where
  "finishMatching a matches at complete failed message =
     finishKeys a (sort (filter matches (al_keys (a_states a)))) at complete failed message"

definition setChoiceFinishReason :: "StreamAccumulator \<Rightarrow> streamOutputSource \<Rightarrow> int \<Rightarrow> bytes \<Rightarrow> StreamAccumulator" where
  "setChoiceFinishReason a source index reason =
     a\<lparr>a_states := map (\<lambda>(key, s).
         if key_source key = source \<and> key_choiceIndex key = index
         then (key, s\<lparr>st_finishReason := setStreamMetadata (st_finishReason s) reason (a_limit a)\<rparr>)
         else (key, s)) (a_states a)\<rparr>"

definition finishChoice ::
    "StreamAccumulator \<Rightarrow> streamOutputSource \<Rightarrow> int \<Rightarrow> go_time \<Rightarrow> bytes \<Rightarrow> StreamAccumulator \<times> outputs" where
  "finishChoice a source index at reason =
     (if (source, index) \<in> set (a_finishedChoices a) then (a, [])
      else if length (a_finishedChoices a) \<ge> maxStreamOutputStates then (a\<lparr>a_limited := True\<rparr>, [])
      else
        let a1 = a\<lparr>a_finishedChoices := set_add (source, index) (a_finishedChoices a)\<rparr>;
            a2 = setChoiceFinishReason a1 source index reason
        in finishMatching a2 (\<lambda>key. key_source key = source \<and> key_choiceIndex key = index) at True False [])"

text \<open>
  The parts of one Responses item: text parts first, by content index, then the summary
  parts, whose negative content index counts down from -2.
\<close>

definition part_less :: "int \<Rightarrow> int \<Rightarrow> bool" where
  "part_less left right =
     (if left \<ge> 0 \<and> right < 0 then True
      else if left < 0 \<and> right \<ge> 0 then False
      else
        let l = (if left < 0 then wrap64 (-2 - left) else left);
            r = (if left < 0 then wrap64 (-2 - right) else right)
        in l < r)"

definition part_rank :: "int \<Rightarrow> bool \<times> int" where
  "part_rank i = (if i < 0 then (True, wrap64 (-2 - i)) else (False, i))"

fun merge_part :: "nat \<Rightarrow> streamOutputState \<Rightarrow> StreamOutput \<Rightarrow> streamOutputState" where
  "merge_part limit s part =
     (let s0 = (if so_start part < so_start (st_output s)
                then s\<lparr>st_output := (st_output s)\<lparr>so_start := so_start part\<rparr>\<rparr> else s)
      in s0\<lparr>st_reasoning := text_append (st_reasoning s0) (so_reasoning part) limit,
            st_content := text_append (st_content s0) (so_content part) limit,
            st_refusal := text_append (st_refusal s0) (so_refusal part) limit,
            st_arguments := text_append (st_arguments s0) (so_arguments part) limit,
            st_name := setStreamMetadata (st_name s0) (so_name part) limit,
            st_toolType := setStreamMetadata (st_toolType s0) (so_toolType part) limit,
            st_toolID := setStreamMetadata (st_toolID s0) (so_toolCallID part) limit,
            st_itemID := setStreamMetadata (st_itemID s0) (so_itemID part) limit,
            st_finishReason := setStreamMetadata (st_finishReason s0) (so_finishReason part) limit\<rparr>)"

text \<open>(complete, failed, message) over the parts, starting from (true, false, "").\<close>

fun merge_status :: "bool \<times> bool \<times> bytes \<Rightarrow> StreamOutput \<Rightarrow> bool \<times> bool \<times> bytes" where
  "merge_status (complete, failed, message) part =
     (if so_failed part then
        (False, True, if so_errorMessage part \<noteq> [] then so_errorMessage part else message)
      else if \<not> so_complete part then (False, failed, message)
      else (complete, failed, message))"

definition mergeResponseOutputs :: "StreamAccumulator \<Rightarrow> outputs \<Rightarrow> go_time \<Rightarrow> StreamOutput" where
  "mergeResponseOutputs a parts at =
     (let first = hd parts;
          out0 = (if length parts > 1 then first\<lparr>so_hasContentIndex := False\<rparr> else first);
          s0 = (new_state out0)\<lparr>st_started := True\<rparr>;
          s1 = foldl (merge_part (a_limit a)) s0 parts;
          (complete, failed, message) = foldl merge_status (True, False, []) parts;
          output = finish_state s1 at complete failed message (a_limit a)
      in output\<lparr>so_truncated := so_truncated output \<or> list_ex so_truncated parts,
                so_observationLimited := a_limited a \<or> list_ex so_observationLimited parts,
                so_protocolIncomplete := list_ex so_protocolIncomplete parts\<rparr>)"

definition finishResponseOutputKind ::
    "StreamAccumulator \<Rightarrow> int \<Rightarrow> StreamOutputKind \<Rightarrow> go_time \<Rightarrow> bool \<Rightarrow> bool \<Rightarrow> bytes \<Rightarrow> StreamAccumulator \<times> outputs" where
  "finishResponseOutputKind a outputIndex kind at complete failed message =
     (let keys = sort_key (\<lambda>key. part_rank (key_contentIndex key))
            (filter (\<lambda>key. key_source key = StreamSourceResponses \<and> key_outputIndex key = outputIndex \<and>
               key_kind key = kind) (al_keys (a_states a)));
          (a1, parts) = finishKeys a keys at complete failed message
      in if parts = [] then (a1, []) else (a1, [mergeResponseOutputs a1 parts at]))"

definition finishResponseOutput ::
    "StreamAccumulator \<Rightarrow> int \<Rightarrow> go_time \<Rightarrow> bool \<Rightarrow> bool \<Rightarrow> bytes \<Rightarrow> StreamAccumulator \<times> outputs" where
  "finishResponseOutput a outputIndex at complete failed message =
     (let (a1, o1) = finishResponseOutputKind a outputIndex StreamOutputReasoning at complete failed message;
          (a2, o2) = finishResponseOutputKind a1 outputIndex StreamOutputResponse at complete failed message;
          (a3, o3) = finishResponseOutputKind a2 outputIndex StreamOutputToolCall at complete failed message
      in (a3, o1 @ o2 @ o3))"

fun finishResponseGroups ::
    "StreamAccumulator \<Rightarrow> (int \<times> nat \<times> StreamOutputKind) list \<Rightarrow> go_time \<Rightarrow> bool \<Rightarrow> bool \<Rightarrow> bytes \<Rightarrow> StreamAccumulator \<times> outputs" where
  "finishResponseGroups a [] at complete failed message = (a, [])"
| "finishResponseGroups a ((outputIndex, _, kind) # gs) at complete failed message =
     (let (a1, o1) = finishResponseOutputKind a outputIndex kind at complete failed message;
          (a2, o2) = finishResponseGroups a1 gs at complete failed message
      in (a2, o1 @ o2))"

text \<open>The groups (output index, kind) of the unfinished Responses outputs, sorted.\<close>

definition response_groups :: "StreamAccumulator \<Rightarrow> (int \<times> nat \<times> StreamOutputKind) list" where
  "response_groups a =
     sort_key (\<lambda>(i, k, _). (i, k))
       (remdups (map (\<lambda>key. (key_outputIndex key, kind_value (key_kind key), key_kind key))
          (filter (\<lambda>key. key_source key = StreamSourceResponses) (al_keys (a_states a)))))"

definition finishAll ::
    "StreamAccumulator \<Rightarrow> go_time \<Rightarrow> bool \<Rightarrow> bool \<Rightarrow> bytes \<Rightarrow> StreamAccumulator \<times> outputs" where
  "finishAll a at complete failed message =
     (let (a1, o1) = finishResponseGroups a (response_groups a) at complete failed message;
          (a2, o2) = finishMatching a1 (\<lambda>key. key_source key \<noteq> StreamSourceResponses) at complete failed message
      in (a2, o1 @ o2))"

subsection \<open>Chat completions and native events\<close>

definition append_reasoning :: "bytes \<Rightarrow> nat \<Rightarrow> streamOutputState \<Rightarrow> streamOutputState" where
  "append_reasoning v limit s = s\<lparr>st_reasoning := text_append (st_reasoning s) v limit\<rparr>"

definition append_content :: "bytes \<Rightarrow> nat \<Rightarrow> streamOutputState \<Rightarrow> streamOutputState" where
  "append_content v limit s = s\<lparr>st_content := text_append (st_content s) v limit\<rparr>"

definition append_refusal :: "bytes \<Rightarrow> nat \<Rightarrow> streamOutputState \<Rightarrow> streamOutputState" where
  "append_refusal v limit s = s\<lparr>st_refusal := text_append (st_refusal s) v limit\<rparr>"

definition append_arguments :: "bytes \<Rightarrow> nat \<Rightarrow> streamOutputState \<Rightarrow> streamOutputState" where
  "append_arguments v limit s = s\<lparr>st_arguments := text_append (st_arguments s) v limit\<rparr>"

definition set_reasoning :: "bytes \<Rightarrow> nat \<Rightarrow> streamOutputState \<Rightarrow> streamOutputState" where
  "set_reasoning v limit s = s\<lparr>st_reasoning := text_set (st_reasoning s) v limit\<rparr>"

definition set_content :: "bytes \<Rightarrow> nat \<Rightarrow> streamOutputState \<Rightarrow> streamOutputState" where
  "set_content v limit s = s\<lparr>st_content := text_set (st_content s) v limit\<rparr>"

definition set_refusal :: "bytes \<Rightarrow> nat \<Rightarrow> streamOutputState \<Rightarrow> streamOutputState" where
  "set_refusal v limit s = s\<lparr>st_refusal := text_set (st_refusal s) v limit\<rparr>"

definition set_arguments :: "bytes \<Rightarrow> nat \<Rightarrow> streamOutputState \<Rightarrow> streamOutputState" where
  "set_arguments v limit s = s\<lparr>st_arguments := text_set (st_arguments s) v limit\<rparr>"

definition set_tool_id :: "bytes \<Rightarrow> nat \<Rightarrow> streamOutputState \<Rightarrow> streamOutputState" where
  "set_tool_id v limit s = s\<lparr>st_toolID := setStreamMetadata (st_toolID s) v limit\<rparr>"

definition set_tool_type :: "bytes \<Rightarrow> nat \<Rightarrow> streamOutputState \<Rightarrow> streamOutputState" where
  "set_tool_type v limit s = s\<lparr>st_toolType := setStreamMetadata (st_toolType s) v limit\<rparr>"

definition set_name :: "bytes \<Rightarrow> nat \<Rightarrow> streamOutputState \<Rightarrow> streamOutputState" where
  "set_name v limit s = s\<lparr>st_name := setStreamMetadata (st_name s) v limit\<rparr>"

definition append_name :: "bytes \<Rightarrow> nat \<Rightarrow> streamOutputState \<Rightarrow> streamOutputState" where
  "append_name v limit s = s\<lparr>st_name := appendStreamMetadata (st_name s) v limit\<rparr>"

definition chat_tool_call :: "StreamAccumulator \<Rightarrow> int \<Rightarrow> int \<Rightarrow> streamToolPart \<Rightarrow> go_time \<Rightarrow> StreamAccumulator" where
  "chat_tool_call a choiceIndex toolPosition tool at =
     (let toolIndex = streamIndex (tp_index tool) toolPosition;
          (name, arguments) = (case tp_function tool of None \<Rightarrow> ([], []) | Some f \<Rightarrow> (fp_name f, fp_arguments f))
      in mutate (chatToolState a choiceIndex toolIndex)
           (\<lambda>s. if tp_id tool = [] \<and> tp_type tool = [] \<and> name = [] \<and> arguments = [] then s
                else append_arguments arguments (a_limit a)
                       (append_name name (a_limit a)
                         (set_tool_type (tp_type tool) (a_limit a)
                           (set_tool_id (tp_id tool) (a_limit a) (touch s at))))))"

fun chat_tool_calls :: "StreamAccumulator \<Rightarrow> int \<Rightarrow> int \<Rightarrow> streamToolPart list \<Rightarrow> go_time \<Rightarrow> StreamAccumulator" where
  "chat_tool_calls a choiceIndex i [] at = a"
| "chat_tool_calls a choiceIndex i (tool # tools) at =
     chat_tool_calls (chat_tool_call a choiceIndex i tool at) choiceIndex (i + 1) tools at"

definition chat_delta :: "StreamAccumulator \<Rightarrow> int \<Rightarrow> streamDelta \<Rightarrow> go_time \<Rightarrow> StreamAccumulator" where
  "chat_delta a choiceIndex delta at =
     (let limit = a_limit a;
          reasoning = (if d_reasoningContent delta = [] then d_reasoning delta else d_reasoningContent delta);
          a1 = (if reasoning \<noteq> [] then
                  mutate (chatState a StreamOutputReasoning choiceIndex)
                    (\<lambda>s. append_reasoning reasoning limit (touch s at))
                else a);
          a2 = (if d_content delta \<noteq> [] \<or> d_refusal delta \<noteq> [] then
                  mutate (chatState a1 StreamOutputResponse choiceIndex)
                    (\<lambda>s. append_refusal (d_refusal delta) limit (append_content (d_content delta) limit (touch s at)))
                else a1);
          a3 = chat_tool_calls a2 choiceIndex 0 (d_toolCalls delta) at
      in case d_functionCall delta of
           Some call \<Rightarrow>
             if fp_name call \<noteq> [] \<or> fp_arguments call \<noteq> [] then
               mutate (chatToolState a3 choiceIndex 0)
                 (\<lambda>s. append_arguments (fp_arguments call) limit
                    (append_name (fp_name call) limit (set_tool_type ''function'' limit (touch s at))))
             else a3
         | None \<Rightarrow> a3)"

definition observe_choice ::
    "StreamAccumulator \<Rightarrow> int \<Rightarrow> streamChoice \<Rightarrow> go_time \<Rightarrow> bool \<Rightarrow> StreamAccumulator \<times> outputs" where
  "observe_choice a choicePosition choice at finishOutputs =
     (let choiceIndex = streamIndex (c_index choice) choicePosition
      in if (StreamSourceChat, choiceIndex) \<in> set (a_finishedChoices a) then (a, [])
         else
           let a1 = (case c_delta choice of None \<Rightarrow> a | Some delta \<Rightarrow> chat_delta a choiceIndex delta at);
               a2 = (if c_text choice \<noteq> [] then
                       mutate (chatState a1 StreamOutputResponse choiceIndex)
                         (\<lambda>s. append_content (c_text choice) (a_limit a) (touch s at))
                     else a1)
           in case c_finishReason choice of
                None \<Rightarrow> (a2, [])
              | Some reason \<Rightarrow>
                  if finishOutputs then finishChoice a2 StreamSourceChat choiceIndex at reason
                  else (setChoiceFinishReason a2 StreamSourceChat choiceIndex reason, []))"

fun observe_choices ::
    "StreamAccumulator \<Rightarrow> int \<Rightarrow> streamChoice list \<Rightarrow> go_time \<Rightarrow> bool \<Rightarrow> StreamAccumulator \<times> outputs" where
  "observe_choices a i [] at fin = (a, [])"
| "observe_choices a i (choice # choices) at fin =
     (let (a1, o1) = observe_choice a i choice at fin;
          (a2, o2) = observe_choices a1 (i + 1) choices at fin
      in (a2, o1 @ o2))"

definition observeChat ::
    "StreamAccumulator \<Rightarrow> streamEventPayload \<Rightarrow> go_time \<Rightarrow> bool \<Rightarrow> StreamAccumulator \<times> outputs" where
  "observeChat a event at finishOutputs = observe_choices a 0 (e_choices event) at finishOutputs"

definition observeNative ::
    "StreamAccumulator \<Rightarrow> streamEventPayload \<Rightarrow> go_time \<Rightarrow> bool \<Rightarrow> StreamAccumulator \<times> outputs" where
  "observeNative a event at finishOutputs =
     (if e_type event \<noteq> [] \<or> length (e_choices event) \<noteq> 0 then (a, [])
      else
        let limit = a_limit a;
            reasoning = (if e_reasoningContent event = [] then e_reasoning event else e_reasoningContent event);
            a1 = (if reasoning \<noteq> [] then
                    mutate (nativeState a StreamOutputReasoning) (\<lambda>s. append_reasoning reasoning limit (touch s at))
                  else a);
            content = streamJSONString (e_content event);
            a2 = (if content \<noteq> [] then
                    mutate (nativeState a1 StreamOutputResponse) (\<lambda>s. append_content content limit (touch s at))
                  else a1)
        in if e_stop event = Some True then
             (let reason = (if e_stopType event = [] then ''stop'' else e_stopType event)
              in if finishOutputs then finishChoice a2 StreamSourceNative 0 at reason
                 else (setChoiceFinishReason a2 StreamSourceNative 0 reason, []))
           else (a2, []))"

subsection \<open>Responses events\<close>

definition appendResponseText ::
    "StreamAccumulator \<Rightarrow> int \<Rightarrow> int \<Rightarrow> bytes \<Rightarrow> bytes \<Rightarrow> bytes \<Rightarrow> go_time \<Rightarrow> StreamAccumulator" where
  "appendResponseText a outputIndex contentIndex itemID content refusal at =
     (if content = [] \<and> refusal = [] then a
      else mutate (responseTextState a StreamOutputResponse outputIndex contentIndex itemID)
        (\<lambda>s. append_refusal refusal (a_limit a) (append_content content (a_limit a) (touch s at))))"

definition appendResponseReasoning ::
    "StreamAccumulator \<Rightarrow> int \<Rightarrow> int \<Rightarrow> bytes \<Rightarrow> bytes \<Rightarrow> go_time \<Rightarrow> StreamAccumulator" where
  "appendResponseReasoning a outputIndex contentIndex itemID reasoning at =
     (if reasoning = [] then a
      else mutate (responseTextState a StreamOutputReasoning outputIndex contentIndex itemID)
        (\<lambda>s. append_reasoning reasoning (a_limit a) (touch s at)))"

definition appendResponseSummary ::
    "StreamAccumulator \<Rightarrow> int \<Rightarrow> int \<Rightarrow> bytes \<Rightarrow> bytes \<Rightarrow> go_time \<Rightarrow> StreamAccumulator" where
  "appendResponseSummary a outputIndex summaryIndex itemID reasoning at =
     (if reasoning = [] then a
      else mutate (responseSummaryState a outputIndex summaryIndex itemID)
        (\<lambda>s. append_reasoning reasoning (a_limit a) (touch s at)))"

definition appendResponseTool ::
    "StreamAccumulator \<Rightarrow> int \<Rightarrow> bytes \<Rightarrow> bytes \<Rightarrow> bytes \<Rightarrow> bytes \<Rightarrow> bytes \<Rightarrow> go_time \<Rightarrow> StreamAccumulator" where
  "appendResponseTool a outputIndex itemID toolType name arguments input at =
     (if itemID = [] \<and> toolType = [] \<and> name = [] \<and> arguments = [] \<and> input = [] then a
      else mutate (responseToolState a outputIndex itemID)
        (\<lambda>s. append_arguments input (a_limit a)
           (append_arguments arguments (a_limit a)
             (set_name name (a_limit a) (set_tool_type toolType (a_limit a) (touch s at))))))"

definition observeResponseShellCommand ::
    "StreamAccumulator \<Rightarrow> int \<Rightarrow> int \<Rightarrow> bytes \<Rightarrow> bytes \<Rightarrow> go_time \<Rightarrow> bool \<Rightarrow> StreamAccumulator" where
  "observeResponseShellCommand a outputIndex commandIndex itemID command at authoritative =
     (case mutate_ref (responseToolState a outputIndex itemID)
             (\<lambda>s. set_tool_type ''shell_call'' (a_limit a) (touch s at)) of
        (a1, None) \<Rightarrow> a1
      | (a1, Some (key, s)) \<Rightarrow>
          let write = (\<lambda>part. if authoritative then text_set part command (a_limit a)
                              else text_append part command (a_limit a))
          in case al_lookup (st_shellCommands s) commandIndex of
               Some part \<Rightarrow>
                 put_state a1 key (s\<lparr>st_shellCommands := al_put commandIndex (write part) (st_shellCommands s)\<rparr>)
             | None \<Rightarrow>
                 if a_createdParts a1 \<ge> maxStreamOutputParts then a1\<lparr>a_limited := True\<rparr>
                 else put_state (a1\<lparr>a_createdParts := a_createdParts a1 + 1\<rparr>) key
                        (s\<lparr>st_shellCommands := al_put commandIndex (write empty_text) (st_shellCommands s)\<rparr>))"

definition observeResponsePart ::
    "StreamAccumulator \<Rightarrow> streamPart \<Rightarrow> int \<Rightarrow> int \<Rightarrow> bytes \<Rightarrow> go_time \<Rightarrow> bool \<Rightarrow> StreamAccumulator" where
  "observeResponsePart a part outputIndex contentIndex itemID at authoritative =
     (let kind = (if contains_sub ''reasoning'' (pt_type part) \<or> contains_sub ''summary'' (pt_type part)
                  then StreamOutputReasoning else StreamOutputResponse);
          value = (if pt_text part = [] then pt_refusal part else pt_text part);
          limit = a_limit a
      in if value = [] \<and> \<not> authoritative then a
         else mutate (responseTextState a kind outputIndex contentIndex itemID)
           (\<lambda>s0. let s = (if value \<noteq> [] then touch s0 at else s0)
             in if authoritative then
                  applyStreamStatus
                    (if kind = StreamOutputReasoning then set_reasoning (pt_text part) limit s
                     else if pt_refusal part \<noteq> [] then set_refusal (pt_refusal part) limit s
                     else set_content (pt_text part) limit s)
                    (pt_status part) (pt_error part)
                else if kind = StreamOutputReasoning then append_reasoning (pt_text part) limit s
                else if pt_refusal part \<noteq> [] then append_refusal (pt_refusal part) limit s
                else append_content (pt_text part) limit s))"

definition observeResponseSummaryPart ::
    "StreamAccumulator \<Rightarrow> streamPart \<Rightarrow> int \<Rightarrow> int \<Rightarrow> bytes \<Rightarrow> go_time \<Rightarrow> bool \<Rightarrow> StreamAccumulator" where
  "observeResponseSummaryPart a part outputIndex summaryIndex itemID at authoritative =
     mutate (responseSummaryState a outputIndex summaryIndex itemID)
       (\<lambda>s. let s1 = (if pt_text part \<noteq> [] then
                        (if authoritative then set_reasoning (pt_text part) (a_limit a) (touch s at)
                         else append_reasoning (pt_text part) (a_limit a) (touch s at))
                      else s)
            in if authoritative then applyStreamStatus s1 (pt_status part) (pt_error part) else s1)"

fun observe_parts ::
    "StreamAccumulator \<Rightarrow> streamPart list \<Rightarrow> int \<Rightarrow> int \<Rightarrow> bytes \<Rightarrow> go_time \<Rightarrow> bool \<Rightarrow> StreamAccumulator" where
  "observe_parts a [] outputIndex i itemID at auth = a"
| "observe_parts a (part # parts) outputIndex i itemID at auth =
     observe_parts (observeResponsePart a part outputIndex i itemID at auth) parts outputIndex (i + 1) itemID at auth"

fun observe_summary_parts ::
    "StreamAccumulator \<Rightarrow> streamPart list \<Rightarrow> int \<Rightarrow> int \<Rightarrow> bytes \<Rightarrow> go_time \<Rightarrow> bool \<Rightarrow> StreamAccumulator" where
  "observe_summary_parts a [] outputIndex i itemID at auth = a"
| "observe_summary_parts a (part # parts) outputIndex i itemID at auth =
     observe_summary_parts (observeResponseSummaryPart a part outputIndex i itemID at auth) parts outputIndex (i + 1) itemID at auth"

definition observeResponseItem ::
    "StreamAccumulator \<Rightarrow> streamItem \<Rightarrow> int \<Rightarrow> go_time \<Rightarrow> bool \<Rightarrow> StreamAccumulator" where
  "observeResponseItem a item outputIndex at authoritative =
     (if it_type item = ''message'' then
        observe_parts a (it_content item) outputIndex 0 (it_id item) at authoritative
      else if it_type item = ''reasoning'' then
        observe_summary_parts
          (observe_parts a (it_content item) outputIndex 0 (it_id item) at authoritative)
          (it_summary item) outputIndex 0 (it_id item) at authoritative
      else if \<not> has_suffix ''_call'' (it_type item) \<and> it_type item \<noteq> ''program'' then a
      else
        let arguments = streamItemArguments item;
            toolID = (if it_callID item = [] then it_id item else it_callID item);
            limit = a_limit a
        in mutate (responseToolState a outputIndex (it_id item))
             (\<lambda>s. let s1 = set_name (it_name item) limit
                             (set_tool_type (it_type item) limit (set_tool_id toolID limit (touch s at)))
               in if authoritative then
                    (let s2 = (set_arguments arguments limit s1)\<lparr>st_argumentsAuthoritative := (arguments \<noteq> [])\<rparr>;
                         s3 = applyStreamOutputStatus s2 (it_status item) (it_error item)
                     in if it_type item = ''program'' then s3\<lparr>st_completed := True\<rparr> else s3)
                  else append_arguments arguments limit s1))"

definition markResponseOutputStatus :: "StreamAccumulator \<Rightarrow> int \<Rightarrow> bytes \<Rightarrow> bytes \<Rightarrow> StreamAccumulator" where
  "markResponseOutputStatus a outputIndex status raw =
     a\<lparr>a_states := map (\<lambda>(key, s).
         if key_source key = StreamSourceResponses \<and> key_outputIndex key = outputIndex
         then (key, applyStreamOutputStatus s status raw) else (key, s)) (a_states a)\<rparr>"

fun observe_items :: "StreamAccumulator \<Rightarrow> int \<Rightarrow> streamItem list \<Rightarrow> go_time \<Rightarrow> StreamAccumulator" where
  "observe_items a i [] at = a"
| "observe_items a i (item # items) at =
     observe_items (markResponseOutputStatus (observeResponseItem a item i at True) i (it_status item) (it_error item))
       (i + 1) items at"

text \<open>A tool call lifecycle event looks the state up in the map and never creates one.\<close>

definition observe_lifecycle :: "StreamAccumulator \<Rightarrow> streamEventPayload \<Rightarrow> int \<Rightarrow> StreamAccumulator" where
  "observe_lifecycle a event outputIndex =
     (case streamToolLifecycle (e_type event) of
        None \<Rightarrow> a
      | Some (toolType, status) \<Rightarrow>
          (case al_lookup (a_states a) (response_tool_key outputIndex) of
             None \<Rightarrow> a
           | Some s \<Rightarrow>
               let limit = a_limit a;
                   s1 = set_tool_item_id (e_itemID event) limit s;
                   s2 = set_name (e_name event) limit (set_tool_type toolType limit s1);
                   s3 = applyStreamStatus s2 status (e_error event);
                   s4 = (if st_failed s3 \<and> e_message event \<noteq> []
                         then s3\<lparr>st_errorMessage := Truncate (e_message event)\<rparr> else s3)
               in put_state a (response_tool_key outputIndex) s4))"

text \<open>The \<open>switch event.Type\<close> of \<open>observeResponses\<close>.\<close>

definition response_switch ::
    "StreamAccumulator \<Rightarrow> streamEventPayload \<Rightarrow> int \<Rightarrow> int \<Rightarrow> go_time \<Rightarrow> StreamAccumulator \<times> outputs" where
  "response_switch a event outputIndex contentIndex at =
     (let itemID = e_itemID event;
          type = e_type event;
          limit = a_limit a;
          delta = streamJSONString (e_delta event);
          summaryIndex = streamIndex (e_summaryIndex event) 0;
          commandIndex = streamIndex (e_commandIndex event) 0;
          tool_done = (\<lambda>toolType name value.
            mutate (responseToolState a outputIndex itemID)
              (\<lambda>s. set_arguments value limit (set_name name limit (set_tool_type toolType limit (touch s at)))))
      in if type \<in> set [''response.output_text.delta'', ''response.text.delta''] then
           (appendResponseText a outputIndex contentIndex itemID delta [] at, [])
         else if type = ''response.refusal.delta'' then
           (appendResponseText a outputIndex contentIndex itemID [] delta at, [])
         else if type = ''response.reasoning_text.delta'' then
           (appendResponseReasoning a outputIndex contentIndex itemID delta at, [])
         else if type = ''response.reasoning_summary_text.delta'' then
           (appendResponseSummary a outputIndex summaryIndex itemID delta at, [])
         else if type = ''response.function_call_arguments.delta'' then
           (appendResponseTool a outputIndex itemID ''function_call'' [] delta [] at, [])
         else if type = ''response.custom_tool_call_input.delta'' then
           (appendResponseTool a outputIndex itemID ''custom_tool_call'' [] [] delta at, [])
         else if type = ''response.mcp_call_arguments.delta'' then
           (appendResponseTool a outputIndex itemID ''mcp_call'' (e_name event) delta [] at, [])
         else if type = ''response.code_interpreter_call_code.delta'' then
           (appendResponseTool a outputIndex itemID ''code_interpreter_call'' [] delta [] at, [])
         else if type = ''response.shell_call_command.added'' then
           (observeResponseShellCommand a outputIndex commandIndex itemID (e_command event) at True, [])
         else if type = ''response.shell_call_command.delta'' then
           (observeResponseShellCommand a outputIndex commandIndex itemID delta at False, [])
         else if type = ''response.shell_call_command.done'' then
           (observeResponseShellCommand a outputIndex commandIndex itemID (e_command event) at True, [])
         else if type \<in> set [''response.output_text.done'', ''response.text.done''] then
           (mutate (responseTextState a StreamOutputResponse outputIndex contentIndex itemID)
              (\<lambda>s. set_content (e_text event) limit (touch s at)), [])
         else if type = ''response.refusal.done'' then
           (mutate (responseTextState a StreamOutputResponse outputIndex contentIndex itemID)
              (\<lambda>s. set_refusal (if e_refusal event = [] then e_text event else e_refusal event) limit (touch s at)), [])
         else if type = ''response.reasoning_text.done'' then
           (mutate (responseTextState a StreamOutputReasoning outputIndex contentIndex itemID)
              (\<lambda>s. set_reasoning (e_text event) limit (touch s at)), [])
         else if type = ''response.reasoning_summary_text.done'' then
           (mutate (responseSummaryState a outputIndex summaryIndex itemID)
              (\<lambda>s. set_reasoning (e_text event) limit (touch s at)), [])
         else if type = ''response.function_call_arguments.done'' then
           (tool_done ''function_call'' (e_name event) (e_arguments event), [])
         else if type = ''response.custom_tool_call_input.done'' then
           (tool_done ''custom_tool_call'' (e_name event) (e_input event), [])
         else if type = ''response.mcp_call_arguments.done'' then
           (tool_done ''mcp_call'' (e_name event) (e_arguments event), [])
         else if type = ''response.code_interpreter_call_code.done'' then
           (mutate (responseToolState a outputIndex itemID)
              (\<lambda>s. set_arguments (streamJSONString (e_code event)) limit
                     (set_tool_type ''code_interpreter_call'' limit (touch s at))), [])
         else if type = ''response.output_item.added'' then
           (case e_item event of
              Some item \<Rightarrow> (observeResponseItem a item outputIndex at False, [])
            | None \<Rightarrow> (a, []))
         else if type = ''response.output_item.done'' then
           (case e_item event of
              Some item \<Rightarrow>
                let a1 = observeResponseItem a item outputIndex at True;
                    a2 = markResponseOutputStatus a1 outputIndex (it_status item) (it_error item);
                    (complete, failed, message) = streamStatus (it_status item) (it_error item)
                in finishResponseOutput a2 outputIndex at complete failed message
            | None \<Rightarrow> finishResponseOutput a outputIndex at True False [])
         else if type = ''response.content_part.added'' then
           (case e_part event of
              Some part \<Rightarrow> (observeResponsePart a part outputIndex contentIndex itemID at False, [])
            | None \<Rightarrow> (a, []))
         else if type = ''response.content_part.done'' then
           (case e_part event of
              Some part \<Rightarrow>
                (observeResponsePart a (streamPartWithEventStatus part (e_status event) (e_error event))
                   outputIndex contentIndex itemID at True, [])
            | None \<Rightarrow> (a, []))
         else if type = ''response.reasoning_summary_part.added'' then
           (case e_part event of
              Some part \<Rightarrow> (observeResponseSummaryPart a part outputIndex summaryIndex itemID at False, [])
            | None \<Rightarrow> (a, []))
         else if type = ''response.reasoning_summary_part.done'' then
           (case e_part event of
              Some part \<Rightarrow>
                (observeResponseSummaryPart a (streamPartWithEventStatus part (e_status event) (e_error event))
                   outputIndex summaryIndex itemID at True, [])
            | None \<Rightarrow> (a, []))
         else (a, []))"

definition observeResponses ::
    "StreamAccumulator \<Rightarrow> streamEventPayload \<Rightarrow> go_time \<Rightarrow> StreamAccumulator \<times> outputs" where
  "observeResponses a event at =
     (if e_type event = [] then (a, [])
      else
        let outputIndex = streamIndex (e_outputIndex event) 0;
            contentIndex = streamIndex (e_contentIndex event) 0;
            (a1, outs) = response_switch a event outputIndex contentIndex at;
            a2 = observe_lifecycle a1 event outputIndex;
            a3 = (case e_response event of
                    Some r \<Rightarrow>
                      if e_type event \<in> set [''response.completed'', ''response.failed'', ''response.incomplete'']
                      then observe_items a2 0 (rs_output r) at else a2
                  | None \<Rightarrow> a2)
        in (a3, outs))"

subsection \<open>The accumulator's methods\<close>

text \<open>Set \<open>closed\<close> and \<open>terminalObserved\<close>, then finish everything.\<close>

definition close_terminal ::
    "StreamAccumulator \<Rightarrow> go_time \<Rightarrow> bool \<Rightarrow> bool \<Rightarrow> bytes \<Rightarrow> StreamAccumulator \<times> outputs" where
  "close_terminal a at complete failed message =
     finishAll (a\<lparr>a_closed := True, a_terminalObserved := True\<rparr>) at complete failed message"

definition observe_undecodable :: "StreamAccumulator \<Rightarrow> bytes \<Rightarrow> go_time \<Rightarrow> StreamAccumulator \<times> outputs" where
  "observe_undecodable a payload at =
     (let a1 = a\<lparr>a_decodeFailed := True\<rparr>;
          a2 = (if json_valid payload then a1\<lparr>a_limited := True\<rparr> else a1);
          (terminal, incomplete, failed, message) = decodeStreamTerminal payload
      in if terminal
         then close_terminal (a2\<lparr>a_limited := True, a_terminalIncomplete := incomplete\<rparr>) at
                (\<not> incomplete \<and> \<not> failed) failed message
         else (a2, []))"

definition observe_event :: "StreamAccumulator \<Rightarrow> streamEventPayload \<Rightarrow> go_time \<Rightarrow> StreamAccumulator \<times> outputs" where
  "observe_event a event at =
     (let failed = streamEventFailed event;
          (a1, o1) = observeChat a event at (\<not> failed);
          (a2, o2) = observeNative a1 event at (\<not> failed);
          (a3, o3) = observeResponses a2 event at;
          nativeTerminal = (e_stop event = Some True);
          a4 = (if a_decodeFailed a3 \<and>
                   (failed \<or> nativeTerminal \<or> e_type event = ''response.incomplete'' \<or>
                    e_type event = ''response.completed'')
                then a3\<lparr>a_limited := True\<rparr> else a3);
          (a5, o4) =
            (if failed then close_terminal a4 at False True (streamEventErrorMessage event)
             else if e_type event = ''response.incomplete'' then
               close_terminal (a4\<lparr>a_terminalIncomplete := True\<rparr>) at False False []
             else if e_type event = ''response.completed'' then close_terminal a4 at True False []
             else if nativeTerminal then close_terminal a4 at True False []
             else (a4, []))
      in (a5, o1 @ o2 @ o3 @ o4))"

definition Observe ::
    "StreamAccumulator \<Rightarrow> bytes \<Rightarrow> bool \<Rightarrow> go_time \<Rightarrow> StreamAccumulator \<times> outputs" where
  "Observe a payload protocolTerminal at =
     (if a_closed a then (a, [])
      else if protocolTerminal then
        close_terminal (if a_decodeFailed a then a\<lparr>a_limited := True\<rparr> else a) at True False []
      else case unmarshal_event payload of
             None \<Rightarrow> observe_undecodable a payload at
           | Some event \<Rightarrow> observe_event a event at)"

definition finish_stream :: "StreamAccumulator \<Rightarrow> go_time \<Rightarrow> StreamAccumulator \<times> outputs" where
  "finish_stream a at =
     (if a_closed a then (a, []) else finishAll (a\<lparr>a_closed := True\<rparr>) at False False [])"

definition FirstTokenIn :: "bytes \<Rightarrow> bool" where
  "FirstTokenIn payload =
     (let (a, outs) = Observe (NewStreamAccumulator (int maxStreamMetadataSize)) payload False 0
      in list_ex streamOutputHasToken outs \<or> ContainsToken a)"

end
