(* ===== verification/Stream_Safety.thy ===== *)
theory Stream_Safety
  imports Stream_Accumulator
begin

text \<open>
  The stream accumulator never exceeds its bounds and never reports an output twice.

  \<open>acc_inv\<close> is the invariant of the accumulator; \<open>emits L a outs b\<close> says that going from
  accumulator \<open>a\<close> to \<open>b\<close> keeps it, that \<open>outs\<close> are well-formed, that they belong to output
  groups that were not finished in \<open>a\<close> and are in \<open>b\<close>, and to different ones, and that a
  known observation gap stays known and is marked on the outputs. It composes,
  so each operation has one \<open>emits\<close> lemma and a whole stream has one, too.
\<close>

named_theorems emit_intros \<open>every operation of the accumulator emits fresh outputs\<close>

subsection \<open>Bounded texts in states and outputs\<close>

definition text_ok :: "nat \<Rightarrow> limitedStreamText \<Rightarrow> bool" where
  "text_ok limit t \<longleftrightarrow> length (lt_value t) \<le> limit \<and> valid_utf8 (lt_value t)"

definition bytes_ok :: "nat \<Rightarrow> bytes \<Rightarrow> bool" where
  "bytes_ok limit v \<longleftrightarrow> length v \<le> limit \<and> valid_utf8 v"

definition message_ok :: "bytes \<Rightarrow> bool" where
  "message_ok m \<longleftrightarrow> bytes_ok 259 m"

abbreviation meta_limit :: "nat \<Rightarrow> nat" where
  "meta_limit limit \<equiv> min limit maxStreamMetadataSize"

lemma text_ok_empty [simp]: "text_ok limit empty_text"
  by (simp add: text_ok_def empty_text_def)

lemma text_ok_bytes: "text_ok limit t \<longleftrightarrow> bytes_ok limit (lt_value t)"
  by (simp add: text_ok_def bytes_ok_def)

lemma text_ok_append [simp]: "text_ok limit t \<Longrightarrow> text_ok limit (text_append t v limit)"
  by (simp add: text_ok_def text_append_length valid_text_append)

lemma text_ok_set [simp]: "text_ok limit (text_set t v limit)"
  by (simp add: text_ok_def text_set_length valid_text_set)

lemma text_ok_meta [simp]: "text_ok (meta_limit limit) t \<Longrightarrow> text_ok (meta_limit limit) (setStreamMetadata t v limit)"
  by (auto simp: setStreamMetadata_def min_def split: if_splits)

lemma text_ok_append_meta [simp]:
  "text_ok (meta_limit limit) t \<Longrightarrow> text_ok (meta_limit limit) (appendStreamMetadata t v limit)"
  using appendStreamMetadata_length [of t limit v] valid_appendStreamMetadata [of t v limit]
  by (simp add: text_ok_def)

lemma message_ok_Nil [simp]: "message_ok []"
  by (simp add: message_ok_def bytes_ok_def)

lemma message_ok_generic [simp]: "message_ok generic_error"
  by (simp add: message_ok_def bytes_ok_def generic_error_def valid_utf8.simps)

lemma message_ok_Truncate [simp]: "message_ok (Truncate s)"
  using Truncate_length [of s] by (simp add: message_ok_def bytes_ok_def)

lemma message_ok_errorMessage [simp]: "message_ok (errorMessage raw)"
  by (simp add: errorMessage_def split: option.split)

lemma message_ok_rawErrorCode [simp]: "message_ok (rawErrorCode raw)"
  by (simp add: rawErrorCode_def Let_def split: option.split)

lemma message_ok_preferred [simp]:
  "message_ok m \<Longrightarrow> message_ok m' \<Longrightarrow> message_ok (preferredStreamErrorMessage m m')"
  by (simp add: preferredStreamErrorMessage_def)

lemma message_ok_event [simp]: "message_ok (streamEventErrorMessage event)"
  by (simp add: streamEventErrorMessage_def Let_def split: option.split)

lemma message_ok_envelope [simp]: "message_ok (streamEnvelopeErrorMessage m code raw response)"
  by (simp add: streamEnvelopeErrorMessage_def Let_def split: option.split)

lemma message_ok_status: "streamStatus status raw = (c, f, m) \<Longrightarrow> message_ok m"
  by (auto simp: streamStatus_def split: if_splits)

lemma message_ok_terminal: "decodeStreamTerminal payload = (t, i, f, m) \<Longrightarrow> message_ok m"
  by (auto simp: decodeStreamTerminal_def Let_def split: option.splits if_splits)

definition texts_ok :: "nat \<Rightarrow> streamOutputState \<Rightarrow> bool" where
  "texts_ok limit s \<longleftrightarrow>
     text_ok limit (st_reasoning s) \<and> text_ok limit (st_content s) \<and> text_ok limit (st_refusal s) \<and>
     text_ok limit (st_arguments s) \<and> text_ok (meta_limit limit) (st_name s) \<and>
     text_ok (meta_limit limit) (st_toolType s) \<and> text_ok (meta_limit limit) (st_toolID s) \<and>
     text_ok (meta_limit limit) (st_itemID s) \<and> text_ok (meta_limit limit) (st_finishReason s) \<and>
     (\<forall>e \<in> set (st_shellCommands s). text_ok limit (snd e)) \<and> message_ok (st_errorMessage s)"

definition output_texts_ok :: "nat \<Rightarrow> StreamOutput \<Rightarrow> bool" where
  "output_texts_ok limit out \<longleftrightarrow>
     bytes_ok limit (so_reasoning out) \<and> bytes_ok limit (so_content out) \<and>
     bytes_ok limit (so_refusal out) \<and> bytes_ok limit (so_arguments out) \<and>
     bytes_ok (meta_limit limit) (so_name out) \<and> bytes_ok (meta_limit limit) (so_toolType out) \<and>
     bytes_ok (meta_limit limit) (so_toolCallID out) \<and> bytes_ok (meta_limit limit) (so_itemID out) \<and>
     bytes_ok (meta_limit limit) (so_finishReason out) \<and> message_ok (so_errorMessage out)"

lemma assembled_ok: "bytes_ok limit (fst (assembledShellCommands s limit))"
  using text_ok_set by (simp add: assembledShellCommands_def Let_def text_ok_bytes)

lemma finish_state_texts:
  assumes "texts_ok limit s" and "message_ok m"
  shows "output_texts_ok limit (finish_state s at c f m limit)"
  using assms assembled_ok [of limit s]
  by (auto simp: finish_state_def texts_ok_def output_texts_ok_def text_ok_bytes Let_def split: prod.split)

subsection \<open>Identities\<close>

text \<open>
  What a finished output says it is: its kind and the choice, item and tool-call indexes it
  carries. Parts of one Responses item share an identity, because they are merged.
\<close>

type_synonym identity = "StreamOutputKind \<times> int option \<times> int option \<times> int option"

definition output_identity :: "StreamOutput \<Rightarrow> identity" where
  "output_identity out =
     (so_kind out, (if so_hasChoiceIndex out then Some (so_choiceIndex out) else None),
      (if so_hasOutputIndex out then Some (so_outputIndex out) else None),
      (if so_hasToolCallIndex out then Some (so_toolCallIndex out) else None))"

fun group_identity :: "streamOutputGroup \<Rightarrow> identity" where
  "group_identity (StreamGroup source kind choice outputIndex tool) =
     (case source of
        StreamSourceChat \<Rightarrow> (kind, Some choice, None, if kind = StreamOutputToolCall then Some tool else None)
      | StreamSourceResponses \<Rightarrow> (kind, None, Some outputIndex, None)
      | StreamSourceNative \<Rightarrow> (kind, None, None, None))"

fun group_ok :: "streamOutputGroup \<Rightarrow> bool" where
  "group_ok (StreamGroup source kind choice outputIndex tool) \<longleftrightarrow>
     (case source of
        StreamSourceChat \<Rightarrow> outputIndex = -1 \<and> (kind \<noteq> StreamOutputToolCall \<longrightarrow> tool = -1)
      | StreamSourceResponses \<Rightarrow> choice = -1 \<and> tool = -1
      | StreamSourceNative \<Rightarrow> choice = 0 \<and> outputIndex = -1 \<and> tool = -1)"

definition key_ok :: "streamOutputKey \<Rightarrow> bool" where
  "key_ok k \<longleftrightarrow> group_ok (key_group k) \<and> key_itemID k = [] \<and>
     (key_source k \<noteq> StreamSourceResponses \<longrightarrow> key_contentIndex k = -1)"

lemma group_identity_inj: "group_ok g \<Longrightarrow> group_ok h \<Longrightarrow> group_identity g = group_identity h \<Longrightarrow> g = h"
proof -
  obtain s k c i t s' k' c' i' t' where gh: "g = StreamGroup s k c i t" "h = StreamGroup s' k' c' i' t'"
    by (cases g; cases h)
  assume "group_ok g" "group_ok h" "group_identity g = group_identity h"
  then show "g = h"
    unfolding gh by (cases s; cases s') (simp_all split: if_splits)
qed

lemma key_group_inj:
  assumes "key_ok k" "key_ok l" "key_source k \<noteq> StreamSourceResponses" "key_group k = key_group l"
  shows "k = l"
proof -
  have eq: "key_source k = key_source l" "key_kind k = key_kind l" "key_choiceIndex k = key_choiceIndex l"
    "key_outputIndex k = key_outputIndex l" "key_toolIndex k = key_toolIndex l"
    using assms(4) unfolding key_group_def by simp_all
  then have "key_contentIndex k = key_contentIndex l" "key_itemID k = key_itemID l"
    using assms(1-3) unfolding key_ok_def by metis+
  with eq show ?thesis by (intro streamOutputKey.expand conjI)
qed

lemma finish_state_frame [simp]:
  "so_kind (finish_state s at c f m limit) = so_kind (st_output s)"
  "so_choiceIndex (finish_state s at c f m limit) = so_choiceIndex (st_output s)"
  "so_hasChoiceIndex (finish_state s at c f m limit) = so_hasChoiceIndex (st_output s)"
  "so_outputIndex (finish_state s at c f m limit) = so_outputIndex (st_output s)"
  "so_hasOutputIndex (finish_state s at c f m limit) = so_hasOutputIndex (st_output s)"
  "so_toolCallIndex (finish_state s at c f m limit) = so_toolCallIndex (st_output s)"
  "so_hasToolCallIndex (finish_state s at c f m limit) = so_hasToolCallIndex (st_output s)"
  by (simp_all add: finish_state_def Let_def case_prod_beta)

lemma finish_state_identity [simp]: "output_identity (finish_state s at c f m limit) = output_identity (st_output s)"
  by (simp add: output_identity_def)

definition state_ok :: "nat \<Rightarrow> streamOutputKey \<Rightarrow> streamOutputState \<Rightarrow> bool" where
  "state_ok limit k s \<longleftrightarrow> texts_ok limit s \<and> key_ok k \<and> output_identity (st_output s) = group_identity (key_group k)"

definition output_ok :: "nat \<Rightarrow> StreamOutput \<Rightarrow> bool" where
  "output_ok limit out \<longleftrightarrow> output_texts_ok limit out \<and> \<not> (so_complete out \<and> so_failed out)"

text \<open>An assignment to a state that keeps it well-formed and adds no shell command.\<close>

definition keeps_state :: "nat \<Rightarrow> (streamOutputState \<Rightarrow> streamOutputState) \<Rightarrow> bool" where
  "keeps_state limit f \<longleftrightarrow>
     (\<forall>s. texts_ok limit s \<longrightarrow> texts_ok limit (f s) \<and> output_identity (st_output (f s)) = output_identity (st_output s) \<and>
        length (st_shellCommands (f s)) = length (st_shellCommands s))"

lemma keeps_texts: "keeps_state limit f \<Longrightarrow> texts_ok limit s \<Longrightarrow> texts_ok limit (f s)"
  by (simp add: keeps_state_def)

lemma keeps_id [emit_intros]: "keeps_state limit (\<lambda>s. s)"
  by (simp add: keeps_state_def)

lemma keeps_comp: "keeps_state limit f \<Longrightarrow> keeps_state limit g \<Longrightarrow> keeps_state limit (\<lambda>s. g (f s))"
  by (simp add: keeps_state_def)

lemma keeps_if [emit_intros]: "keeps_state limit f \<Longrightarrow> keeps_state limit g \<Longrightarrow> keeps_state limit (\<lambda>s. if b s then f s else g s)"
  by (simp add: keeps_state_def)

text \<open>The elementary assignments, then the same after another one.\<close>

lemma keeps_basic:
  "keeps_state limit (append_reasoning v limit)" "keeps_state limit (append_content v limit)"
  "keeps_state limit (append_refusal v limit)" "keeps_state limit (append_arguments v limit)"
  "keeps_state limit (set_reasoning v limit)" "keeps_state limit (set_content v limit)"
  "keeps_state limit (set_refusal v limit)" "keeps_state limit (set_arguments v limit)"
  "keeps_state limit (set_tool_id v limit)" "keeps_state limit (set_tool_type v limit)"
  "keeps_state limit (set_name v limit)" "keeps_state limit (append_name v limit)"
  "keeps_state limit (set_item_id v limit)"
  "keeps_state limit (\<lambda>s. s\<lparr>st_finishReason := setStreamMetadata (st_finishReason s) v limit\<rparr>)"
  "keeps_state limit (\<lambda>s. s\<lparr>st_argumentsAuthoritative := auth\<rparr>)"
  "keeps_state limit (\<lambda>s. s\<lparr>st_completed := auth\<rparr>)"
  by (simp_all add: keeps_state_def texts_ok_def append_reasoning_def append_content_def append_refusal_def
      append_arguments_def set_reasoning_def set_content_def set_refusal_def set_arguments_def
      set_tool_id_def set_tool_type_def set_name_def append_name_def set_item_id_def)

lemma keeps_basic_touch: "keeps_state limit (\<lambda>s. touch s at)"
proof -
  have "texts_ok limit (s\<lparr>st_started := True, st_output := out\<rparr>) = texts_ok limit s" for s out
    by (simp add: texts_ok_def)
  then show ?thesis by (simp add: keeps_state_def touch_def output_identity_def)
qed

lemma keeps_basic_tool_item_id: "keeps_state limit (set_tool_item_id v limit)"
proof -
  have "keeps_state limit (\<lambda>s. s\<lparr>st_toolID := setStreamMetadata (st_toolID s) v limit\<rparr>)"
    by (simp add: keeps_state_def texts_ok_def)
  then show ?thesis
    using keeps_basic(13) [of limit v] by (simp add: keeps_state_def set_tool_item_id_def Let_def)
qed

lemma texts_ok_flags [simp]:
  "texts_ok limit (s\<lparr>st_completed := b\<rparr>) = texts_ok limit s"
  "texts_ok limit (s\<lparr>st_incomplete := b\<rparr>) = texts_ok limit s"
  "texts_ok limit (s\<lparr>st_failed := b\<rparr>) = texts_ok limit s"
  by (simp_all add: texts_ok_def)

lemma texts_ok_message: "texts_ok limit s \<Longrightarrow> message_ok m \<Longrightarrow> texts_ok limit (s\<lparr>st_errorMessage := m\<rparr>)"
  by (simp add: texts_ok_def)

lemma applyStreamStatus_frame [simp]:
  "st_output (applyStreamStatus s status raw) = st_output s"
  "st_shellCommands (applyStreamStatus s status raw) = st_shellCommands s"
  by (cases "streamStatus status raw"; simp add: applyStreamStatus_def Let_def)+

lemma applyStreamStatus_texts:
  assumes "texts_ok limit s"
  shows "texts_ok limit (applyStreamStatus s status raw)"
proof -
  obtain c f m where st: "streamStatus status raw = (c, f, m)" by (cases "streamStatus status raw")
  from assms message_ok_status [OF st] have "texts_ok limit (s\<lparr>st_failed := True, st_errorMessage := m\<rparr>)"
    by (simp add: texts_ok_message)
  with assms show ?thesis by (simp add: applyStreamStatus_def st Let_def)
qed

lemma keeps_basic_status:
  "keeps_state limit (\<lambda>s. applyStreamStatus s status raw)"
  "keeps_state limit (\<lambda>s. applyStreamOutputStatus s status raw)"
  by (simp_all add: keeps_state_def applyStreamOutputStatus_def applyStreamStatus_texts Let_def)

lemmas keeps_ops [emit_intros] =
  keeps_basic [THEN keeps_comp [rotated]] keeps_basic_touch [THEN keeps_comp [rotated]]
  keeps_basic_tool_item_id [THEN keeps_comp [rotated]] keeps_basic_status [THEN keeps_comp [rotated]]

subsection \<open>The invariant\<close>

text \<open>Every state and every shell command of a state was counted when it was created.\<close>

definition state_weight :: "streamOutputState \<Rightarrow> nat" where
  "state_weight s = 1 + length (st_shellCommands s)"

definition live_weight :: "(streamOutputKey \<times> streamOutputState) list \<Rightarrow> nat" where
  "live_weight m = sum_list (map (\<lambda>e. state_weight (snd e)) m)"

definition acc_core :: "nat \<Rightarrow> StreamAccumulator \<Rightarrow> bool" where
  "acc_core limit a \<longleftrightarrow>
     a_limit a = limit \<and> distinct (al_keys (a_states a)) \<and> distinct (a_finished a) \<and> distinct (a_groups a) \<and>
     distinct (a_finishedGroups a) \<and> distinct (a_finishedChoices a) \<and>
     length (a_groups a) \<le> maxStreamOutputStates \<and> length (a_finishedChoices a) \<le> maxStreamOutputStates \<and>
     a_createdParts a \<le> maxStreamOutputParts \<and>
     live_weight (a_states a) + length (a_finished a) \<le> a_createdParts a \<and>
     set (a_finishedGroups a) \<subseteq> set (a_groups a) \<and> (\<forall>g \<in> set (a_groups a). group_ok g) \<and>
     (\<forall>(k, s) \<in> set (a_states a). state_ok limit k s \<and> k \<notin> set (a_finished a) \<and> key_group k \<in> set (a_groups a))"

definition acc_inv :: "nat \<Rightarrow> StreamAccumulator \<Rightarrow> bool" where
  "acc_inv limit a \<longleftrightarrow> acc_core limit a \<and> (\<forall>k \<in> set (al_keys (a_states a)). key_group k \<notin> set (a_finishedGroups a))"

lemma live_weight_simps [simp]: "live_weight [] = 0" "live_weight (e # m) = state_weight (snd e) + live_weight m"
  by (simp_all add: live_weight_def)

lemma live_weight_put:
  "live_weight (al_put k s m) = (case al_lookup m k of None \<Rightarrow> live_weight m + state_weight s
     | Some s' \<Rightarrow> live_weight m + state_weight s - state_weight s')"
  "al_lookup m k = Some s' \<Longrightarrow> state_weight s' \<le> live_weight m"
proof -
  show le: "state_weight s' \<le> live_weight m" if "al_lookup m k = Some s'" for m :: "(streamOutputKey \<times> streamOutputState) list" and s'
    using that by (induction m) (auto split: if_splits)
  show "live_weight (al_put k s m) = (case al_lookup m k of None \<Rightarrow> live_weight m + state_weight s
     | Some s' \<Rightarrow> live_weight m + state_weight s - state_weight s')"
    by (induction m) (use le in \<open>fastforce split: option.split\<close>)+
qed

lemma live_weight_filter: "live_weight (filter P m) \<le> live_weight m"
  by (induction m) auto

lemma live_weight_map:
  "(\<And>e. e \<in> set m \<Longrightarrow> length (st_shellCommands (snd (f e))) = length (st_shellCommands (snd e))) \<Longrightarrow>
     live_weight (map f m) = live_weight m"
  by (induction m) (simp_all add: state_weight_def)

lemma length_le_live_weight: "length m \<le> live_weight m"
  by (induction m) (simp_all add: state_weight_def)

lemma distinct_set_add [simp]: "distinct xs \<Longrightarrow> distinct (set_add x xs)"
  by (simp add: set_add_def)

lemma set_set_add [simp]: "set (set_add x xs) = insert x (set xs)"
  by (auto simp: set_add_def)

lemma length_set_add: "length (set_add x xs) \<le> Suc (length xs)"
  by (simp add: set_add_def)

subsection \<open>Fresh outputs\<close>

definition emits :: "nat \<Rightarrow> StreamAccumulator \<Rightarrow> outputs \<Rightarrow> StreamAccumulator \<Rightarrow> bool" where
  "emits limit a outs b \<longleftrightarrow>
     (acc_inv limit a \<longrightarrow>
        acc_inv limit b \<and> set (a_finishedGroups a) \<subseteq> set (a_finishedGroups b) \<and>
        a_closed b = a_closed a \<and> a_terminalObserved b = a_terminalObserved a \<and>
        (a_limited a \<longrightarrow> a_limited b \<and> (\<forall>out \<in> set outs. so_observationLimited out)) \<and>
        (a_decodeFailed a \<longrightarrow> a_decodeFailed b) \<and>
        (\<forall>out \<in> set outs. output_ok limit out) \<and> distinct (map output_identity outs) \<and>
        output_identity ` set outs \<subseteq> group_identity ` (set (a_finishedGroups b) - set (a_finishedGroups a)))"

lemma emits_refl [emit_intros]: "emits limit a [] a"
  by (simp add: emits_def)

lemma emits_trans:
  assumes "emits limit a o1 b" and "emits limit b o2 c"
  shows "emits limit a (o1 @ o2) c"
  unfolding emits_def
proof
  assume inv: "acc_inv limit a"
  let ?F = "\<lambda>a. set (a_finishedGroups a)"
  from assms inv have ab: "acc_inv limit b" "?F a \<subseteq> ?F b"
      "output_identity ` set o1 \<subseteq> group_identity ` (?F b - ?F a)" "distinct (map output_identity o1)"
    and bc: "acc_inv limit c" "?F b \<subseteq> ?F c" "output_identity ` set o2 \<subseteq> group_identity ` (?F c - ?F b)"
      "distinct (map output_identity o2)"
    by (auto simp: emits_def)
  from bc(1) have "\<forall>g \<in> ?F c. group_ok g" by (auto simp: acc_inv_def acc_core_def)
  with bc(2) have "group_identity ` (?F b - ?F a) \<inter> group_identity ` (?F c - ?F b) = {}"
    unfolding disjoint_iff image_iff by (metis DiffE group_identity_inj subsetD)
  with ab(3) bc(3) have "output_identity ` set o1 \<inter> output_identity ` set o2 = {}" by blast
  with ab(4) bc(4) have "distinct (map output_identity (o1 @ o2))"
    unfolding map_append distinct_append set_map by blast
  moreover have "output_identity ` set (o1 @ o2) \<subseteq> group_identity ` (?F c - ?F a)"
    unfolding set_append image_Un
    using ab(2) bc(2) by (intro Un_least subset_trans [OF ab(3)] subset_trans [OF bc(3)] image_mono) auto
  moreover note ab(1,2) bc(1,2) assms inv
  ultimately show "acc_inv limit c \<and> ?F a \<subseteq> ?F c \<and> a_closed c = a_closed a \<and>
        a_terminalObserved c = a_terminalObserved a \<and>
        (a_limited a \<longrightarrow> a_limited c \<and> (\<forall>out \<in> set (o1 @ o2). so_observationLimited out)) \<and>
        (a_decodeFailed a \<longrightarrow> a_decodeFailed c) \<and>
        (\<forall>out \<in> set (o1 @ o2). output_ok limit out) \<and> distinct (map output_identity (o1 @ o2)) \<and>
        output_identity ` set (o1 @ o2) \<subseteq> group_identity ` (?F c - ?F a)"
    by (auto simp: emits_def)
qed

lemma emits_quiet_trans [trans]: "emits limit a [] b \<Longrightarrow> emits limit b outs c \<Longrightarrow> emits limit a outs c"
  using emits_trans [of limit a "[]" b outs c] by simp

lemma emits_then: "emits limit a outs b \<Longrightarrow> emits limit b [] c \<Longrightarrow> emits limit a outs c"
  using emits_trans [of limit a outs b "[]" c] by simp

lemma emits_limited [emit_intros]: "emits limit a [] (a\<lparr>a_limited := True\<rparr>)"
  by (simp add: emits_def acc_inv_def acc_core_def)

lemma emits_flags [emit_intros]:
  "emits limit a [] (a\<lparr>a_decodeFailed := True\<rparr>)" "emits limit a [] (a\<lparr>a_terminalIncomplete := c\<rparr>)"
  by (simp_all add: emits_def acc_inv_def acc_core_def)

subsection \<open>Looking up and assigning states\<close>

text \<open>A reference points to a state of the accumulator.\<close>

definition emits_ref :: "nat \<Rightarrow> StreamAccumulator \<Rightarrow> state_ref \<Rightarrow> bool" where
  "emits_ref limit a r \<longleftrightarrow>
     emits limit a [] (fst r) \<and>
     (acc_inv limit a \<longrightarrow> (case snd r of None \<Rightarrow> True
        | Some (k, s) \<Rightarrow> al_lookup (a_states (fst r)) k = Some s))"

lemma acc_core_lookup:
  assumes "acc_core limit a" and "al_lookup (a_states a) k = Some s"
  shows "state_ok limit k s" and "k \<notin> set (a_finished a)" and "key_group k \<in> set (a_groups a)"
proof -
  have "(k, s) \<in> set (a_states a)" using assms(2) by (rule al_lookup_in)
  with assms(1) show "state_ok limit k s" "k \<notin> set (a_finished a)" "key_group k \<in> set (a_groups a)"
    unfolding acc_core_def by blast+
qed

lemma put_state_core:
  assumes core: "acc_core limit a" and s: "al_lookup (a_states a) k = Some s"
    and s': "state_ok limit k s'" "live_weight (al_put k s' (a_states a)) + length (a_finished a) \<le> n" "n \<le> maxStreamOutputParts"
  shows "acc_core limit (put_state (a\<lparr>a_createdParts := n\<rparr>) k s')"
proof -
  note k = acc_core_lookup [OF core s]
  have d: "distinct (al_keys (a_states a))" using core by (simp add: acc_core_def)
  have "\<forall>(l, t) \<in> set (al_put k s' (a_states a)). state_ok limit l t \<and> l \<notin> set (a_finished a) \<and> key_group l \<in> set (a_groups a)"
    using core k s' unfolding set_al_put [OF d] acc_core_def by blast
  then show ?thesis using core s' d by (simp add: acc_core_def put_state_def)
qed

lemma put_state_weight:
  assumes "al_lookup m k = Some s" and "length (st_shellCommands s') = length (st_shellCommands s)"
  shows "live_weight (al_put k s' m) = live_weight m"
  using live_weight_put(1) [of k s' m] live_weight_put(2) [OF assms(1)] assms by (simp add: state_weight_def)

lemma put_state_emits:
  assumes s: "acc_inv limit a \<Longrightarrow> al_lookup (a_states a) k = Some s" and f: "keeps_state limit f"
  shows "emits limit a [] (put_state a k (f s))"
proof (unfold emits_def, intro impI)
  assume inv: "acc_inv limit a"
  then have core: "acc_core limit a" by (simp add: acc_inv_def)
  note k = acc_core_lookup [OF core s [OF inv]]
  have "length (st_shellCommands (f s)) = length (st_shellCommands s)" "state_ok limit k (f s)"
    using f k(1) by (simp_all add: keeps_state_def state_ok_def)
  then have "acc_core limit (put_state (a\<lparr>a_createdParts := a_createdParts a\<rparr>) k (f s))"
    using core by (intro put_state_core [OF core s [OF inv]]) (simp_all add: put_state_weight [OF s [OF inv]] acc_core_def)
  moreover have "fst ` set (al_put k (f s) (a_states a)) = fst ` set (a_states a)"
    using al_lookup_in [OF s [OF inv]] by force
  ultimately have "acc_inv limit (put_state a k (f s))"
    using inv by (simp add: acc_inv_def put_state_def)
  then show "acc_inv limit (put_state a k (f s)) \<and>
      set (a_finishedGroups a) \<subseteq> set (a_finishedGroups (put_state a k (f s))) \<and>
      a_closed (put_state a k (f s)) = a_closed a \<and> a_terminalObserved (put_state a k (f s)) = a_terminalObserved a \<and>
      (a_limited a \<longrightarrow> a_limited (put_state a k (f s)) \<and> (\<forall>out \<in> set []. so_observationLimited out)) \<and>
      (a_decodeFailed a \<longrightarrow> a_decodeFailed (put_state a k (f s))) \<and>
      (\<forall>out \<in> set []. output_ok limit out) \<and> distinct (map output_identity []) \<and>
      output_identity ` set [] \<subseteq> group_identity ` (set (a_finishedGroups (put_state a k (f s))) - set (a_finishedGroups a))"
    by (simp add: put_state_def)
qed

lemma mutate_emits [emit_intros]:
  assumes "emits_ref limit a r" and "keeps_state limit f"
  shows "emits limit a [] (mutate r f)"
proof (cases r)
  case (Pair b x)
  show ?thesis
  proof (cases x)
    case None
    with Pair assms show ?thesis by (simp add: emits_ref_def)
  next
    case (Some ks)
    obtain k s where ks: "ks = (k, s)" by (cases ks)
    have b: "emits limit a [] b" using assms(1) Pair by (simp add: emits_ref_def)
    show ?thesis
    proof (cases "acc_inv limit a")
      case True
      then have "al_lookup (a_states b) k = Some s" using assms(1) Pair Some ks by (simp add: emits_ref_def)
      then have "emits limit b [] (put_state b k (f s))" using assms(2) by (intro put_state_emits)
      with b show ?thesis unfolding Pair Some ks by (simp add: emits_quiet_trans)
    qed (simp add: emits_def)
  qed
qed

lemma mutate_ref_emits [emit_intros]:
  assumes "emits_ref limit a r" and "keeps_state limit f"
  shows "emits_ref limit a (mutate_ref r f)"
proof -
  have "fst (mutate_ref r f) = mutate r f" by (cases r; cases "snd r") auto
  moreover have "case snd (mutate_ref r f) of None \<Rightarrow> True | Some (k, s) \<Rightarrow> al_lookup (a_states (fst (mutate_ref r f))) k = Some s"
    by (cases r; cases "snd r") (auto simp: put_state_def)
  ultimately show ?thesis using mutate_emits [OF assms] by (simp add: emits_ref_def)
qed

lemma new_state_ok: "key_ok k \<Longrightarrow> output_identity out = group_identity (key_group k) \<Longrightarrow> state_ok limit k (new_state out)"
  by (simp add: state_ok_def texts_ok_def new_state_def)

lemma acc_state_emits:
  assumes k: "key_ok k" "output_identity out = group_identity (key_group k)"
  shows "emits_ref limit a (acc_state a k out)"
proof (cases "acc_inv limit a")
  case inv: True
  then have core: "acc_core limit a" and d: "distinct (al_keys (a_states a))" by (simp_all add: acc_inv_def acc_core_def)
  define b where "b = a\<lparr>a_groups := set_add (key_group k) (a_groups a), a_createdParts := a_createdParts a + 1,
      a_states := al_put k (new_state out) (a_states a)\<rparr>"
  have new: "acc_inv limit b"
    if fresh: "k \<notin> set (a_finished a)" "key_group k \<notin> set (a_finishedGroups a)" "al_lookup (a_states a) k = None"
      and room: "a_createdParts a < maxStreamOutputParts"
        "key_group k \<in> set (a_groups a) \<or> length (a_groups a) < maxStreamOutputStates"
  proof -
    have w: "live_weight (al_put k (new_state out) (a_states a)) = live_weight (a_states a) + 1"
      using live_weight_put(1) [of k "new_state out" "a_states a"] fresh by (simp add: state_weight_def new_state_def)
    have g: "length (set_add (key_group k) (a_groups a)) \<le> maxStreamOutputStates"
      using room core by (auto simp: set_add_def acc_core_def)
    have st: "\<forall>(l, t) \<in> set (al_put k (new_state out) (a_states a)). state_ok limit l t \<and> l \<notin> set (a_finished a) \<and>
        key_group l \<in> insert (key_group k) (set (a_groups a))"
      using core fresh new_state_ok [OF k, of limit] unfolding set_al_put [OF d] acc_core_def by auto
    have "acc_core limit b"
      using core room w g st d k(1) unfolding acc_core_def b_def by (auto simp: key_ok_def)
    moreover have "\<forall>l \<in> set (al_keys (a_states b)). key_group l \<notin> set (a_finishedGroups b)"
      using inv fresh by (auto simp: acc_inv_def b_def)
    ultimately show ?thesis by (simp add: acc_inv_def)
  qed
  have "emits limit a [] b" if "acc_inv limit b" using that by (simp add: emits_def b_def)
  with new show ?thesis
    using emits_limited [of limit a] emits_refl [of limit a]
    by (auto simp: acc_state_def emits_ref_def b_def Let_def not_le split: option.split)
qed (simp add: emits_ref_def emits_def split: option.split)

lemma chatState_emits [emit_intros]:
  "kind \<noteq> StreamOutputToolCall \<Longrightarrow> emits_ref limit a (chatState a kind i)"
  unfolding chatState_def
  by (intro acc_state_emits) (simp_all add: key_ok_def key_group_def output_identity_def output_of_kind_def)

lemma chatToolState_emits [emit_intros]: "emits_ref limit a (chatToolState a i j)"
  unfolding chatToolState_def
  by (intro acc_state_emits) (simp_all add: key_ok_def key_group_def output_identity_def output_of_kind_def)

lemma nativeState_emits [emit_intros]: "emits_ref limit a (nativeState a kind)"
  unfolding nativeState_def
  by (intro acc_state_emits) (simp_all add: key_ok_def key_group_def output_identity_def output_of_kind_def)

text \<open>The limit of the accumulator is the one of its invariant.\<close>

lemma emits_limit:
  "(acc_inv limit a \<Longrightarrow> a_limit a = limit \<Longrightarrow> emits limit a outs b) \<Longrightarrow> emits limit a outs b"
  by (auto simp: emits_def acc_inv_def acc_core_def)

lemma emits_ref_limit:
  "(a_limit a = limit \<Longrightarrow> emits_ref limit a r) \<Longrightarrow> emits_ref limit a r"
  by (auto simp: emits_ref_def emits_def acc_inv_def acc_core_def)

lemma responseStates_emits [emit_intros]:
  "emits_ref limit a (responseTextState a kind i j itemID)"
  "emits_ref limit a (responseToolState a i itemID)"
  "emits_ref limit a (responseSummaryState a i j itemID)"
  unfolding responseTextState_def responseToolState_def responseSummaryState_def
    response_text_key_def response_tool_key_def
  by (rule emits_ref_limit, simp, intro mutate_ref_emits acc_state_emits keeps_basic keeps_basic_tool_item_id,
      simp_all add: key_ok_def key_group_def output_identity_def output_of_kind_def)+

end
