(* ===== verification/Stream_Finish.thy ===== *)
theory Stream_Finish
  imports Stream_Safety
begin

text \<open>
  Finishing outputs: \<open>finishKeys\<close> in closed form (\<open>finishKeys_eq\<close>), and the \<open>emits\<close> lemmas of
  the finishing methods of the stream accumulator, the merge of the parts of a Responses item
  included.
\<close>

subsection \<open>Finishing keys\<close>

text \<open>The state of a key that is present, and whether finishing the key yields an output.\<close>

definition live_state :: "StreamAccumulator \<Rightarrow> streamOutputKey \<Rightarrow> streamOutputState" where
  "live_state a k = (case al_lookup (a_states a) k of Some s \<Rightarrow> s | None \<Rightarrow> new_state (output_of_kind (key_kind k)))"

definition has_output :: "StreamAccumulator \<Rightarrow> streamOutputKey \<Rightarrow> bool" where
  "has_output a k \<longleftrightarrow> (case al_lookup (a_states a) k of Some s \<Rightarrow> hasData s | None \<Rightarrow> False)"

definition key_output :: "StreamAccumulator \<Rightarrow> go_time \<Rightarrow> bool \<Rightarrow> bool \<Rightarrow> bytes \<Rightarrow> streamOutputKey \<Rightarrow> StreamOutput" where
  "key_output a at c f m k =
     (let out = finish_state (live_state a k) at c f m (a_limit a)
      in out\<lparr>so_observationLimited := a_limited a \<or> (a_decodeFailed a \<and> c),
             so_protocolIncomplete := so_protocolIncomplete out \<or> (a_terminalIncomplete a \<and> \<not> so_complete out)\<rparr>)"

lemma key_output_limited [simp]:
  "so_observationLimited (key_output a at c f m k) \<longleftrightarrow> a_limited a \<or> (a_decodeFailed a \<and> c)"
  by (simp add: key_output_def Let_def)

lemma merge_limited [simp]:
  "so_observationLimited (mergeResponseOutputs a parts at) \<longleftrightarrow> a_limited a \<or> list_ex so_observationLimited parts"
  by (simp add: mergeResponseOutputs_def Let_def case_prod_beta)

text \<open>The accumulator without the states of some keys, those with an output marked finished.\<close>

definition without_keys :: "StreamAccumulator \<Rightarrow> streamOutputKey list \<Rightarrow> StreamAccumulator" where
  "without_keys a keys =
     a\<lparr>a_states := filter (\<lambda>e. fst e \<notin> set keys) (a_states a),
       a_finished := foldl (\<lambda>xs k. set_add k xs) (a_finished a) (filter (has_output a) keys),
       a_finishedGroups := foldl (\<lambda>xs k. set_add (key_group k) xs) (a_finishedGroups a) (filter (has_output a) keys)\<rparr>"

lemma finishKey_eq:
  "finishKey a k at c f m = (without_keys a [k], if has_output a k then Some (key_output a at c f m k) else None)"
proof (cases "al_lookup (a_states a) k")
  case None
  then have "filter (\<lambda>e. fst e \<noteq> k) (a_states a) = a_states a"
    using al_delete_notin [of k "a_states a"] by (simp add: al_lookup_None al_delete_def)
  with None show ?thesis by (simp add: finishKey_def without_keys_def has_output_def)
next
  case (Some s)
  then show ?thesis
    by (simp add: finishKey_def without_keys_def has_output_def key_output_def live_state_def al_delete_def Let_def)
qed

lemma finishKeys_eq:
  "distinct keys \<Longrightarrow>
     finishKeys a keys at c f m = (without_keys a keys, map (key_output a at c f m) (filter (has_output a) keys))"
proof (induction keys arbitrary: a)
  case Nil
  then show ?case by (simp add: without_keys_def)
next
  case (Cons k ks)
  let ?b = "without_keys a [k]"
  have lk: "al_lookup (a_states ?b) l = al_lookup (a_states a) l" if "l \<in> set ks" for l
    using that Cons.prems al_lookup_delete [of k "a_states a" l] by (auto simp: without_keys_def al_delete_def)
  have ho: "filter (has_output ?b) ks = filter (has_output a) ks"
    by (rule filter_cong) (simp_all add: has_output_def lk)
  have ko: "map (key_output ?b at c f m) (filter (has_output a) ks) = map (key_output a at c f m) (filter (has_output a) ks)"
    by (rule map_cong) (simp_all add: key_output_def live_state_def lk Let_def, simp_all add: without_keys_def)
  have "without_keys ?b ks = without_keys a (k # ks)"
  proof (cases "has_output a k")
    case True
    then show ?thesis
      unfolding without_keys_def [of ?b] ho unfolding without_keys_def by (simp add: conj_commute)
  next
    case False
    then show ?thesis
      unfolding without_keys_def [of ?b] ho unfolding without_keys_def by (simp add: conj_commute)
  qed
  with Cons ho ko show ?case by (simp add: finishKey_eq)
qed

lemma set_foldl_set_add [simp]: "set (foldl (\<lambda>xs k. set_add (g k) xs) ys ks) = set ys \<union> g ` set ks"
  by (induction ks arbitrary: ys) auto

lemma distinct_foldl_set_add [simp]: "distinct ys \<Longrightarrow> distinct (foldl (\<lambda>xs k. set_add (g k) xs) ys ks)"
  by (induction ks arbitrary: ys) auto

lemma length_foldl_set_add: "length (foldl (\<lambda>xs k. set_add (g k) xs) ys ks) \<le> length ys + length ks"
proof (induction ks arbitrary: ys)
  case (Cons k ks)
  from Cons [of "set_add (g k) ys"] length_set_add [of "g k" ys] show ?case by simp
qed simp

lemma without_keys_frame [simp]:
  "a_limit (without_keys a ks) = a_limit a" "a_closed (without_keys a ks) = a_closed a"
  "a_terminalObserved (without_keys a ks) = a_terminalObserved a" "a_limited (without_keys a ks) = a_limited a"
  "a_decodeFailed (without_keys a ks) = a_decodeFailed a"
  "a_terminalIncomplete (without_keys a ks) = a_terminalIncomplete a"
  "a_groups (without_keys a ks) = a_groups a" "a_finishedChoices (without_keys a ks) = a_finishedChoices a"
  "a_states (without_keys a ks) = filter (\<lambda>e. fst e \<notin> set ks) (a_states a)"
  "set (a_finishedGroups (without_keys a ks)) =
     set (a_finishedGroups a) \<union> key_group ` {k \<in> set ks. has_output a k}"
  by (simp_all add: without_keys_def)

lemma live_weight_split:
  "live_weight m = live_weight (filter P m) + live_weight (filter (\<lambda>e. \<not> P e) m)"
  by (induction m) auto

lemma has_output_key: "has_output a k \<Longrightarrow> k \<in> set (al_keys (a_states a))"
  by (force simp: has_output_def dest: al_lookup_in split: option.splits)

lemma has_output_state: "has_output a k \<Longrightarrow> al_lookup (a_states a) k = Some (live_state a k)"
  by (simp add: has_output_def live_state_def split: option.splits)

lemma without_keys_core:
  assumes core: "acc_core limit a" and d: "distinct ks"
  shows "acc_core limit (without_keys a ks)"
proof -
  let ?ks = "filter (has_output a) ks" and ?m = "a_states a"
  have dm: "distinct (al_keys ?m)" using core by (simp add: acc_core_def)
  have sub: "set ?ks \<subseteq> set (al_keys (filter (\<lambda>e. fst e \<in> set ks) ?m))"
    using has_output_key by fastforce
  have "length ?ks = card (set ?ks)" using distinct_card [OF distinct_filter [OF d]] by simp
  also have "\<dots> \<le> length (al_keys (filter (\<lambda>e. fst e \<in> set ks) ?m))"
    using card_mono [OF _ sub] card_length [of "al_keys (filter (\<lambda>e. fst e \<in> set ks) ?m)"] by simp
  also have "\<dots> \<le> live_weight (filter (\<lambda>e. fst e \<in> set ks) ?m)"
    using length_le_live_weight by simp
  finally have w: "live_weight (filter (\<lambda>e. fst e \<notin> set ks) ?m) + (length (a_finished a) + length ?ks) \<le> a_createdParts a"
    using core live_weight_split [of ?m "\<lambda>e. fst e \<in> set ks"] by (simp add: acc_core_def)
  have len: "length (a_finished (without_keys a ks)) \<le> length (a_finished a) + length ?ks"
    using length_foldl_set_add [of "\<lambda>k. k" "a_finished a" ?ks] by (simp add: without_keys_def)
  have g: "key_group ` {k \<in> set ks. has_output a k} \<subseteq> set (a_groups a)"
    using acc_core_lookup(3) [OF core has_output_state] by auto
  have fin: "set (a_finished (without_keys a ks)) \<subseteq> set (a_finished a) \<union> set ks"
    by (auto simp: without_keys_def)
  have dk: "distinct (al_keys (filter (\<lambda>e. fst e \<notin> set ks) ?m))"
    using dm by (simp add: distinct_map inj_on_def) 
  from core w len g fin dk show ?thesis
    unfolding acc_core_def without_keys_frame by (auto simp: without_keys_def)
qed

text \<open>Finishing a set of keys that is closed under groups keeps the invariant.\<close>

lemma without_keys_inv:
  assumes inv: "acc_inv limit a" and d: "distinct ks"
    and closed: "\<And>k l. k \<in> set ks \<Longrightarrow> has_output a k \<Longrightarrow> l \<in> set (al_keys (a_states a)) \<Longrightarrow>
      key_group l = key_group k \<Longrightarrow> l \<in> set ks"
  shows "acc_inv limit (without_keys a ks)"
proof -
  have "key_group l \<notin> set (a_finishedGroups (without_keys a ks))"
    if l: "l \<in> set (al_keys (a_states (without_keys a ks)))" for l
  proof
    from l have l': "l \<in> set (al_keys (a_states a))" "l \<notin> set ks" by auto
    then have "key_group l \<notin> set (a_finishedGroups a)" using inv by (auto simp: acc_inv_def)
    moreover assume "key_group l \<in> set (a_finishedGroups (without_keys a ks))"
    ultimately obtain k where "k \<in> set ks" "has_output a k" "key_group l = key_group k" by auto
    with closed l' show False by blast
  qed
  with inv d show ?thesis by (simp add: acc_inv_def without_keys_core)
qed

lemma key_output_ok:
  assumes "acc_core limit a" and "has_output a k" and "message_ok m" and "\<not> (c \<and> f)"
  shows "output_ok limit (key_output a at c f m k)" "output_identity (key_output a at c f m k) = group_identity (key_group k)"
proof -
  from acc_core_lookup(1) [OF assms(1) has_output_state [OF assms(2)]]
  have s: "texts_ok limit (live_state a k)" "output_identity (st_output (live_state a k)) = group_identity (key_group k)"
    by (simp_all add: state_ok_def)
  have lim: "a_limit a = limit" using assms(1) by (simp add: acc_core_def)
  have ex: "\<not> (so_complete (finish_state s at c f m limit) \<and> so_failed (finish_state s at c f m limit))" for s
    using assms(4) by (simp add: finish_state_def Let_def case_prod_beta)
  have upd: "output_texts_ok limit (out\<lparr>so_observationLimited := p, so_protocolIncomplete := q\<rparr>) = output_texts_ok limit out"
    "output_identity (out\<lparr>so_observationLimited := p, so_protocolIncomplete := q\<rparr>) = output_identity out" for out p q
    by (simp_all add: output_texts_ok_def output_identity_def)
  show "output_ok limit (key_output a at c f m k)" "output_identity (key_output a at c f m k) = group_identity (key_group k)"
    using finish_state_texts [OF s(1) assms(3)] ex s(2)
    by (simp_all add: key_output_def output_ok_def lim Let_def upd)
qed

subsection \<open>The finishing methods\<close>

abbreviation emits_result :: "nat \<Rightarrow> StreamAccumulator \<Rightarrow> StreamAccumulator \<times> outputs \<Rightarrow> bool" where
  "emits_result limit a r \<equiv> emits limit a (snd r) (fst r)"

lemma emits_bind:
  assumes "emits_result limit a r" and "\<And>b outs. r = (b, outs) \<Longrightarrow> emits_result limit b (g b)"
  shows "emits limit a (snd r @ snd (g (fst r))) (fst (g (fst r)))"
  using assms emits_trans [of limit a "snd r" "fst r"] by (cases r) auto

lemma fresh_group:
  assumes inv: "acc_inv limit a" and k: "k \<in> set ks" "has_output a k"
  shows "key_group k \<in> set (a_finishedGroups (without_keys a ks)) - set (a_finishedGroups a)"
  using k has_output_key [OF k(2)] inv by (auto simp: acc_inv_def)

lemma acc_inv_key_ok: "acc_inv limit a \<Longrightarrow> k \<in> set (al_keys (a_states a)) \<Longrightarrow> key_ok k"
  by (auto simp: acc_inv_def acc_core_def state_ok_def)

lemma finishMatching_emits:
  assumes M: "\<And>k. M k \<Longrightarrow> key_source k \<noteq> StreamSourceResponses" and m: "message_ok m" "\<not> (c \<and> f)"
  shows "emits_result limit a (finishMatching a M at c f m)"
proof (cases "acc_inv limit a")
  case inv: True
  then have core: "acc_core limit a" by (simp add: acc_inv_def)
  define ks where "ks = sort (filter M (al_keys (a_states a)))"
  have d: "distinct ks" using core by (simp add: ks_def acc_core_def)
  let ?os = "filter (has_output a) ks"
  have eq: "finishMatching a M at c f m = (without_keys a ks, map (key_output a at c f m) ?os)"
    by (simp add: finishMatching_def ks_def [symmetric] finishKeys_eq [OF d])
  have inj: "l = k" if "k \<in> set ks" "l \<in> set (al_keys (a_states a))" "key_group l = key_group k" for k l
    using that M acc_inv_key_ok [OF inv] by (intro key_group_inj [of k l, symmetric]) (auto simp: ks_def)
  have "acc_inv limit (without_keys a ks)"
    using inj by (intro without_keys_inv [OF inv d]) blast
  moreover have ids: "map output_identity (map (key_output a at c f m) ?os) = map (\<lambda>k. group_identity (key_group k)) ?os"
    using key_output_ok(2) [OF core _ m] by simp
  moreover have "distinct (map output_identity (map (key_output a at c f m) ?os))"
    unfolding ids distinct_map
  proof (intro conjI inj_onI)
    fix k l assume kl: "k \<in> set ?os" "l \<in> set ?os" "group_identity (key_group k) = group_identity (key_group l)"
    then have "group_ok (key_group k)" "group_ok (key_group l)"
      using acc_inv_key_ok [OF inv] by (auto simp: ks_def key_ok_def)
    with kl(3) have "key_group k = key_group l" by (intro group_identity_inj)
    moreover have "k \<in> set (al_keys (a_states a))" "l \<in> set ks" using kl by (simp_all add: ks_def)
    ultimately show "k = l" by (intro inj)
  qed (simp add: d)
  moreover have "output_identity ` set (map (key_output a at c f m) ?os) \<subseteq>
      group_identity ` (set (a_finishedGroups (without_keys a ks)) - set (a_finishedGroups a))"
    using fresh_group [OF inv, of _ ks] key_output_ok(2) [OF core _ m] by auto
  moreover have "\<forall>out \<in> set (map (key_output a at c f m) ?os). output_ok limit out"
    using key_output_ok(1) [OF core _ m] by auto
  moreover have "a_limited a \<longrightarrow> (\<forall>out \<in> set (map (key_output a at c f m) ?os). so_observationLimited out)"
    by auto
  ultimately show ?thesis
    unfolding eq emits_def by (simp del: set_map map_map)
qed (simp add: emits_def)

lemma map_states_emits:
  assumes "keeps_state limit f"
  shows "emits limit a [] (a\<lparr>a_states := map (\<lambda>(k, s). if P k then (k, f s) else (k, s)) (a_states a)\<rparr>)"
proof -
  let ?g = "\<lambda>(k, s). if P k then (k, f s) else (k, s)"
  have keys: "al_keys (map ?g m) = al_keys m" for m
    by (induction m) auto
  have w: "live_weight (map ?g m) = live_weight m" if "\<forall>(k, s) \<in> set m. texts_ok limit s" for m
    using that assms by (intro live_weight_map) (auto simp: keeps_state_def)
  have st: "\<forall>(k, s) \<in> set (map ?g m). state_ok limit k s \<and> k \<notin> F \<and> key_group k \<in> G"
    if "\<forall>(k, s) \<in> set m. state_ok limit k s \<and> k \<notin> F \<and> key_group k \<in> G" for m F G
  proof (intro ballI)
    fix e assume "e \<in> set (map ?g m)"
    then obtain k s where ks: "(k, s) \<in> set m" "e = (if P k then (k, f s) else (k, s))" by auto
    with that have "state_ok limit k s" "k \<notin> F" "key_group k \<in> G" by auto
    then show "case e of (k, s) \<Rightarrow> state_ok limit k s \<and> k \<notin> F \<and> key_group k \<in> G"
      using assms ks(2) by (simp add: state_ok_def keeps_state_def)
  qed
  have t: "\<forall>(k, s) \<in> set m. texts_ok limit s" if "\<forall>(k, s) \<in> set m. state_ok limit k s \<and> k \<notin> F \<and> key_group k \<in> G" for m F G
    using that by (auto simp: state_ok_def)
  have "acc_inv limit (a\<lparr>a_states := map ?g (a_states a)\<rparr>)" if inv: "acc_inv limit a"
  proof -
    from inv have S: "\<forall>(k, s) \<in> set (a_states a). state_ok limit k s \<and> k \<notin> set (a_finished a) \<and> key_group k \<in> set (a_groups a)"
      by (simp add: acc_inv_def acc_core_def)
    from inv show ?thesis
      unfolding acc_inv_def acc_core_def
      using st [OF S] w [OF t [OF S]] by (simp del: map_map list.set_map add: keys)
  qed
  then show ?thesis by (simp add: emits_def)
qed

lemma setChoiceFinishReason_emits [emit_intros]: "emits limit a [] (setChoiceFinishReason a source i reason)"
proof (rule emits_limit)
  assume "a_limit a = limit"
  then show ?thesis
    unfolding setChoiceFinishReason_def by (simp only: map_states_emits [OF keeps_basic(14)])
qed

lemma markResponseOutputStatus_emits [emit_intros]: "emits limit a [] (markResponseOutputStatus a i status raw)"
  unfolding markResponseOutputStatus_def by (rule map_states_emits [OF keeps_basic_status(2)])

lemma finishChoice_emits [emit_intros]:
  assumes "source \<noteq> StreamSourceResponses"
  shows "emits_result limit a (finishChoice a source i at reason)"
proof -
  let ?b = "a\<lparr>a_finishedChoices := set_add (source, i) (a_finishedChoices a)\<rparr>"
  have "emits limit a [] ?b" if "(source, i) \<notin> set (a_finishedChoices a)" "length (a_finishedChoices a) < maxStreamOutputStates"
    using that by (auto simp: emits_def acc_inv_def acc_core_def set_add_def)
  note this [THEN emits_quiet_trans, OF _ _ setChoiceFinishReason_emits]
  moreover have "emits_result limit b (finishMatching b (\<lambda>k. key_source k = source \<and> key_choiceIndex k = i) at True False [])" for b
    using assms by (intro finishMatching_emits) simp_all
  ultimately have "emits_result limit a (finishMatching (setChoiceFinishReason ?b source i reason)
      (\<lambda>k. key_source k = source \<and> key_choiceIndex k = i) at True False [])"
    if "(source, i) \<notin> set (a_finishedChoices a)" "length (a_finishedChoices a) < maxStreamOutputStates"
    using that by (blast intro: emits_quiet_trans)
  then show ?thesis
    by (auto simp: finishChoice_def Let_def not_le emits_limited emits_refl)
qed

subsection \<open>Merged Responses outputs\<close>

lemma keeps_merge_part: "keeps_state limit (\<lambda>s. merge_part limit s part)"
proof -
  have "texts_ok limit (s\<lparr>st_output := out\<rparr>) = texts_ok limit s" for s out
    by (simp add: texts_ok_def)
  then have start: "keeps_state limit (\<lambda>s. if so_start part < so_start (st_output s)
      then s\<lparr>st_output := (st_output s)\<lparr>so_start := so_start part\<rparr>\<rparr> else s)"
    by (simp add: keeps_state_def output_identity_def)
  have texts: "keeps_state limit (\<lambda>s0. s0\<lparr>st_reasoning := text_append (st_reasoning s0) (so_reasoning part) limit,
            st_content := text_append (st_content s0) (so_content part) limit,
            st_refusal := text_append (st_refusal s0) (so_refusal part) limit,
            st_arguments := text_append (st_arguments s0) (so_arguments part) limit,
            st_name := setStreamMetadata (st_name s0) (so_name part) limit,
            st_toolType := setStreamMetadata (st_toolType s0) (so_toolType part) limit,
            st_toolID := setStreamMetadata (st_toolID s0) (so_toolCallID part) limit,
            st_itemID := setStreamMetadata (st_itemID s0) (so_itemID part) limit,
            st_finishReason := setStreamMetadata (st_finishReason s0) (so_finishReason part) limit\<rparr>)"
    by (simp add: keeps_state_def texts_ok_def)
  show ?thesis using keeps_comp [OF start texts] by (simp add: Let_def)
qed

lemma merge_parts_keeps:
  assumes "texts_ok limit s"
  shows "texts_ok limit (foldl (merge_part limit) s parts) \<and>
     output_identity (st_output (foldl (merge_part limit) s parts)) = output_identity (st_output s)"
  using assms
proof (induction parts arbitrary: s)
  case (Cons part parts)
  with keeps_merge_part [of limit part] have "texts_ok limit (merge_part limit s part)"
    "output_identity (st_output (merge_part limit s part)) = output_identity (st_output s)"
    by (simp_all add: keeps_state_def del: merge_part.simps)
  with Cons.IH show ?case by (simp del: merge_part.simps)
qed simp

lemma merge_status_ok:
  assumes "\<forall>part \<in> set parts. message_ok (so_errorMessage part)" and "message_ok m" and "\<not> (c \<and> f)"
  shows "case foldl merge_status (c, f, m) parts of (c', f', m') \<Rightarrow> message_ok m' \<and> \<not> (c' \<and> f')"
  using assms by (induction parts arbitrary: c f m) auto

lemma merge_output_ok:
  assumes parts: "\<forall>part \<in> set parts. message_ok (so_errorMessage part)" and lim: "a_limit a = limit"
  shows "output_ok limit (mergeResponseOutputs a parts at)"
    and "output_identity (mergeResponseOutputs a parts at) = output_identity (hd parts)"
proof -
  obtain c f m where st: "foldl merge_status (True, False, []) parts = (c, f, m)"
    by (cases "foldl merge_status (True, False, []) parts")
  with merge_status_ok [OF parts, of "[]" True False] have m: "message_ok m" "\<not> (c \<and> f)" by simp_all
  define s0 where "s0 = (new_state (if length parts > 1 then (hd parts)\<lparr>so_hasContentIndex := False\<rparr> else hd parts))\<lparr>st_started := True\<rparr>"
  define s where "s = foldl (merge_part limit) s0 parts"
  have "texts_ok limit s0" "output_identity (st_output s0) = output_identity (hd parts)"
    by (simp_all add: s0_def texts_ok_def new_state_def output_identity_def)
  with merge_parts_keeps [of limit s0 parts] have s: "texts_ok limit s" "output_identity (st_output s) = output_identity (hd parts)"
    by (simp_all add: s_def)
  have eq: "mergeResponseOutputs a parts at =
      (let output = finish_state s at c f m limit
       in output\<lparr>so_truncated := so_truncated output \<or> list_ex so_truncated parts,
                so_observationLimited := a_limited a \<or> list_ex so_observationLimited parts,
                so_protocolIncomplete := list_ex so_protocolIncomplete parts\<rparr>)"
    by (simp add: mergeResponseOutputs_def st s_def s0_def lim Let_def)
  have ex: "\<not> (so_complete (finish_state s at c f m limit) \<and> so_failed (finish_state s at c f m limit))"
    using m(2) by (simp add: finish_state_def Let_def case_prod_beta)
  have upd: "output_ok limit (out\<lparr>so_truncated := t, so_observationLimited := p, so_protocolIncomplete := q\<rparr>) = output_ok limit out"
    "output_texts_ok limit (out\<lparr>so_truncated := t, so_observationLimited := p, so_protocolIncomplete := q\<rparr>) = output_texts_ok limit out"
    "output_identity (out\<lparr>so_truncated := t, so_observationLimited := p, so_protocolIncomplete := q\<rparr>) = output_identity out" for out t p q
    by (simp_all add: output_ok_def output_texts_ok_def output_identity_def)
  show "output_ok limit (mergeResponseOutputs a parts at)"
    "output_identity (mergeResponseOutputs a parts at) = output_identity (hd parts)"
    using finish_state_texts [OF s(1) m(1)] ex s(2) by (simp_all add: eq Let_def upd output_ok_def)
qed

lemma response_group:
  "key_ok k \<Longrightarrow> key_source k = StreamSourceResponses \<Longrightarrow>
     key_group k = StreamGroup StreamSourceResponses (key_kind k) (-1) (key_outputIndex k) (-1)"
  by (simp add: key_ok_def key_group_def)

definition response_keys :: "StreamAccumulator \<Rightarrow> int \<Rightarrow> StreamOutputKind \<Rightarrow> streamOutputKey list" where
  "response_keys a i kind =
     sort_key (\<lambda>key. part_rank (key_contentIndex key))
       (filter (\<lambda>key. key_source key = StreamSourceResponses \<and> key_outputIndex key = i \<and> key_kind key = kind)
         (al_keys (a_states a)))"

lemma finishResponseOutputKind_eq:
  assumes "distinct (al_keys (a_states a))"
  shows "finishResponseOutputKind a i kind at c f m =
     (without_keys a (response_keys a i kind),
      (let ks = filter (has_output a) (response_keys a i kind)
       in if ks = [] then []
          else [mergeResponseOutputs (without_keys a (response_keys a i kind)) (map (key_output a at c f m) ks) at]))"
proof -
  have "distinct (response_keys a i kind)" using assms by (simp add: response_keys_def)
  then show ?thesis
    by (simp add: finishResponseOutputKind_def response_keys_def [symmetric] finishKeys_eq Let_def)
qed

lemma finishResponseOutputKind_emits [emit_intros]:
  assumes m: "message_ok m" "\<not> (c \<and> f)"
  shows "emits_result limit a (finishResponseOutputKind a i kind at c f m)"
proof (cases "acc_inv limit a")
  case inv: True
  then have core: "acc_core limit a" and d: "distinct (al_keys (a_states a))" and lim: "a_limit a = limit"
    by (simp_all add: acc_inv_def acc_core_def)
  define ks where "ks = response_keys a i kind"
  let ?b = "without_keys a ks" and ?os = "filter (has_output a) ks" and ?g = "StreamGroup StreamSourceResponses kind (-1) i (-1)"
  have set_ks: "set ks = {k \<in> set (al_keys (a_states a)). key_source k = StreamSourceResponses \<and> key_outputIndex k = i \<and> key_kind k = kind}"
    by (auto simp: ks_def response_keys_def)
  have g: "key_group k = ?g" if "k \<in> set ks" for k
    using that acc_inv_key_ok [OF inv, of k] response_group [of k] by (simp add: set_ks)
  have dk: "distinct ks" using d by (simp add: ks_def response_keys_def)
  have b: "acc_inv limit ?b"
  proof (rule without_keys_inv [OF inv dk])
    fix k l assume kl: "k \<in> set ks" "l \<in> set (al_keys (a_states a))" "key_group l = key_group k"
    then show "l \<in> set ks" using g [OF kl(1)] by (simp add: set_ks key_group_def)
  qed
  note eq = finishResponseOutputKind_eq [OF d, of i kind at c f m, folded ks_def]
  show ?thesis
  proof (cases "?os = []")
    case True
    with b eq show ?thesis by (auto simp: emits_def Let_def)
  next
    case False
    let ?parts = "map (key_output a at c f m) ?os" and ?out = "mergeResponseOutputs ?b (map (key_output a at c f m) ?os) at"
    obtain k where k: "k \<in> set ks" "has_output a k" "hd ?os = k"
      using hd_in_set [OF False] by auto
    have "message_ok (so_errorMessage part)" if "part \<in> set ?parts" for part
      using that key_output_ok(1) [OF core _ m] by (auto simp: output_ok_def output_texts_ok_def)
    note out = merge_output_ok [of ?parts ?b limit at, OF ballI, OF this]
    have id: "output_identity ?out = group_identity ?g"
      using out(2) key_output_ok(2) [OF core k(2) m] k False g by (simp add: lim hd_map)
    have "?g \<in> set (a_finishedGroups ?b) - set (a_finishedGroups a)"
      using fresh_group [OF inv k(1,2)] unfolding g [OF k(1)] .
    then have "output_identity ` set [?out] \<subseteq> group_identity ` (set (a_finishedGroups ?b) - set (a_finishedGroups a))"
      unfolding list.set(2) image_insert id by (simp del: group_identity.simps without_keys_frame)
    with b out(1) False eq show ?thesis
      by (simp add: emits_def Let_def lim)
  qed
qed (simp add: emits_def)

lemma finishResponseOutput_emits [emit_intros]:
  assumes "message_ok m" "\<not> (c \<and> f)"
  shows "emits_result limit a (finishResponseOutput a i at c f m)"
proof -
  note kind = finishResponseOutputKind_emits [OF assms]
  obtain a1 o1 where 1: "finishResponseOutputKind a i StreamOutputReasoning at c f m = (a1, o1)" by force
  obtain a2 o2 where 2: "finishResponseOutputKind a1 i StreamOutputResponse at c f m = (a2, o2)" by force
  obtain a3 o3 where 3: "finishResponseOutputKind a2 i StreamOutputToolCall at c f m = (a3, o3)" by force
  from kind [of limit a i StreamOutputReasoning at] kind [of limit a1 i StreamOutputResponse at]
    kind [of limit a2 i StreamOutputToolCall at] 1 2 3
  have "emits limit a o1 a1" "emits limit a1 o2 a2" "emits limit a2 o3 a3" by simp_all
  then show ?thesis
    by (simp add: finishResponseOutput_def 1 2 3) (blast intro: emits_trans)
qed

lemma finishResponseGroups_emits [emit_intros]:
  assumes m: "message_ok m" "\<not> (c \<and> f)"
  shows "emits_result limit a (finishResponseGroups a gs at c f m)"
proof (induction gs arbitrary: a)
  case (Cons g gs)
  obtain i n k where g: "g = (i, n, k)" by (cases g)
  obtain a1 o1 where 1: "finishResponseOutputKind a i k at c f m = (a1, o1)" by force
  have "emits limit a o1 a1" using finishResponseOutputKind_emits [OF m, of limit a i k at] 1 by simp
  moreover have "emits_result limit a1 (finishResponseGroups a1 gs at c f m)" by (rule Cons)
  ultimately show ?case by (auto simp: g 1 split: prod.split intro: emits_trans)
qed (simp add: emits_refl)

lemma finishAll_emits [emit_intros]:
  assumes m: "message_ok m" "\<not> (c \<and> f)"
  shows "emits_result limit a (finishAll a at c f m)"
proof -
  obtain a1 o1 where 1: "finishResponseGroups a (response_groups a) at c f m = (a1, o1)" by force
  have "emits limit a o1 a1" using finishResponseGroups_emits [OF m, of limit a "response_groups a" at] 1 by simp
  moreover have "emits_result limit a1 (finishMatching a1 (\<lambda>key. key_source key \<noteq> StreamSourceResponses) at c f m)"
    using m by (intro finishMatching_emits) simp_all
  ultimately show ?thesis by (auto simp: finishAll_def 1 split: prod.split intro: emits_trans)
qed

end
