(* ===== verification/Stream_Observe.thy ===== *)
theory Stream_Observe
  imports Stream_Finish
begin

text \<open>
  What the stream accumulator promises over a whole stream: every event handler emits fresh,
  well-formed outputs, so no output is reported twice and the bounds hold; a terminal event
  hands out everything that was collected and closes the accumulator.
\<close>

subsection \<open>Event handlers\<close>

text \<open>The rules in a form that follows the nesting of the assignments.\<close>

named_theorems quiet_intros \<open>operations that emit nothing, after others that emit nothing\<close>

lemma emits_ref_trans: "emits limit a [] b \<Longrightarrow> emits_ref limit b r \<Longrightarrow> emits_ref limit a r"
  unfolding emits_ref_def using emits_quiet_trans [of limit a b "[]" "fst r"]
  by (auto simp: emits_def split: option.split)

lemma emits_if [quiet_intros]:
  "(b \<Longrightarrow> emits limit a outs x) \<Longrightarrow> (\<not> b \<Longrightarrow> emits limit a outs y) \<Longrightarrow> emits limit a outs (if b then x else y)"
  by simp

lemmas quiet_ops [quiet_intros] =
  emits_refl mutate_emits mutate_ref_emits emits_limited [THEN emits_quiet_trans [rotated]]
  emits_flags [THEN emits_quiet_trans [rotated]]
  setChoiceFinishReason_emits [THEN emits_quiet_trans [rotated]]
  markResponseOutputStatus_emits [THEN emits_quiet_trans [rotated]]
  chatState_emits [THEN emits_ref_trans [rotated]] chatToolState_emits [THEN emits_ref_trans [rotated]]
  nativeState_emits [THEN emits_ref_trans [rotated]] responseStates_emits [THEN emits_ref_trans [rotated]]

lemmas keeps_intros = keeps_id keeps_if keeps_ops

lemma output_kinds [quiet_intros]: "StreamOutputReasoning \<noteq> StreamOutputToolCall" "StreamOutputResponse \<noteq> StreamOutputToolCall"
  by simp_all

lemma chat_tool_call_emits: "emits limit a [] (chat_tool_call a i j tool at)"
proof (rule emits_limit)
  assume lim: "a_limit a = limit"
  show ?thesis unfolding chat_tool_call_def Let_def lim
    by (cases "case tp_function tool of None \<Rightarrow> ([], []) | Some f \<Rightarrow> (fp_name f, fp_arguments f)")
      (simp only: prod.case, intro quiet_intros keeps_intros)
qed

lemma chat_tool_calls_emits: "emits limit a [] (chat_tool_calls a i j tools at)"
proof (induction tools arbitrary: a j)
  case (Cons tool tools)
  show ?case using emits_quiet_trans [OF chat_tool_call_emits Cons] by simp
qed (simp add: emits_refl)

lemmas chat_tools_quiet [quiet_intros] = chat_tool_calls_emits [THEN emits_quiet_trans [rotated]]

lemma chat_delta_emits: "emits limit a [] (chat_delta a i delta at)"
proof (rule emits_limit)
  assume lim: "a_limit a = limit"
  show ?thesis unfolding chat_delta_def Let_def lim
    by (cases "d_functionCall delta") (simp_all only: option.case, (intro quiet_intros keeps_intros)+)
qed

lemmas chat_delta_quiet [quiet_intros] = chat_delta_emits [THEN emits_quiet_trans [rotated]]

lemma observe_choice_emits: "emits_result limit a (observe_choice a i choice at fin)"
proof (rule emits_limit)
  assume lim: "a_limit a = limit"
  define k where "k = streamIndex (c_index choice) i"
  define b where "b = (let a1 = (case c_delta choice of None \<Rightarrow> a | Some delta \<Rightarrow> chat_delta a k delta at)
    in if c_text choice \<noteq> [] then mutate (chatState a1 StreamOutputResponse k) (\<lambda>s. append_content (c_text choice) limit (touch s at)) else a1)"
  have b: "emits limit a [] b" unfolding b_def Let_def
    by (cases "c_delta choice") (simp_all only: option.case, (intro quiet_intros keeps_intros)+)
  have "emits_result limit a (finishChoice b StreamSourceChat k at reason)"
    "emits limit a [] (setChoiceFinishReason b StreamSourceChat k reason)" for reason
    using b by (auto intro: emits_quiet_trans emit_intros)
  then show ?thesis using b unfolding observe_choice_def Let_def lim k_def [symmetric] b_def [unfolded Let_def, symmetric]
    by (auto simp: emits_refl split: option.split)
qed

lemma observe_choices_emits: "emits_result limit a (observe_choices a i choices at fin)"
proof (induction choices arbitrary: a i)
  case (Cons choice choices)
  from observe_choice_emits [of limit a i choice at fin] Cons show ?case
    by (auto split: prod.split intro: emits_trans) (metis emits_trans fst_conv snd_conv)
qed (simp add: emits_refl)

lemma observeNative_emits: "emits_result limit a (observeNative a event at fin)"
proof (rule emits_limit)
  assume lim: "a_limit a = limit"
  define b where "b = (let reasoning = (if e_reasoningContent event = [] then e_reasoning event else e_reasoningContent event);
        a1 = (if reasoning \<noteq> [] then mutate (nativeState a StreamOutputReasoning) (\<lambda>s. append_reasoning reasoning limit (touch s at)) else a);
        content = streamJSONString (e_content event)
    in if content \<noteq> [] then mutate (nativeState a1 StreamOutputResponse) (\<lambda>s. append_content content limit (touch s at)) else a1)"
  have b: "emits limit a [] b" unfolding b_def Let_def by (intro quiet_intros keeps_intros)
  have "emits_result limit a (finishChoice b StreamSourceNative 0 at reason)"
    "emits limit a [] (setChoiceFinishReason b StreamSourceNative 0 reason)" for reason
    using b by (auto intro: emits_quiet_trans emit_intros)
  then show ?thesis using b unfolding observeNative_def Let_def lim b_def [unfolded Let_def, symmetric]
    by (simp add: emits_refl)
qed

lemma append_handlers_emits:
  "emits limit a [] (appendResponseText a i j itemID content refusal at)"
  "emits limit a [] (appendResponseReasoning a i j itemID reasoning at)"
  "emits limit a [] (appendResponseSummary a i j itemID reasoning at)"
  "emits limit a [] (appendResponseTool a i itemID toolType name arguments input at)"
  by (rule emits_limit, simp only: appendResponseText_def appendResponseReasoning_def
      appendResponseSummary_def appendResponseTool_def, intro quiet_intros keeps_intros)+

lemma observeResponsePart_emits: "emits limit a [] (observeResponsePart a part i j itemID at auth)"
proof (rule emits_limit)
  assume lim: "a_limit a = limit"
  show ?thesis unfolding observeResponsePart_def Let_def lim by (intro quiet_intros keeps_intros)
qed

lemma observeResponseSummaryPart_emits: "emits limit a [] (observeResponseSummaryPart a part i j itemID at auth)"
proof (rule emits_limit)
  assume lim: "a_limit a = limit"
  show ?thesis unfolding observeResponseSummaryPart_def Let_def lim by (intro quiet_intros keeps_intros)
qed

lemma observe_parts_emits: "emits limit a [] (observe_parts a parts i j itemID at auth)"
proof (induction parts arbitrary: a j)
  case (Cons part parts)
  show ?case using emits_quiet_trans [OF observeResponsePart_emits Cons] by simp
qed (simp add: emits_refl)

lemma observe_summary_parts_emits: "emits limit a [] (observe_summary_parts a parts i j itemID at auth)"
proof (induction parts arbitrary: a j)
  case (Cons part parts)
  show ?case using emits_quiet_trans [OF observeResponseSummaryPart_emits Cons] by simp
qed (simp add: emits_refl)

lemmas parts_quiet [quiet_intros] =
  observe_parts_emits [THEN emits_quiet_trans [rotated]] observe_summary_parts_emits [THEN emits_quiet_trans [rotated]]

lemma observeResponseItem_emits: "emits limit a [] (observeResponseItem a item i at auth)"
proof (rule emits_limit)
  assume lim: "a_limit a = limit"
  show ?thesis unfolding observeResponseItem_def Let_def lim by (intro quiet_intros keeps_intros)
qed

lemmas item_quiet [quiet_intros] = observeResponseItem_emits [THEN emits_quiet_trans [rotated]]

lemma observe_items_emits: "emits limit a [] (observe_items a i items at)"
proof (induction items arbitrary: a i)
  case (Cons item items)
  have "emits limit a [] (markResponseOutputStatus (observeResponseItem a item i at True) i (it_status item) (it_error item))"
    by (intro quiet_intros)
  from emits_quiet_trans [OF this Cons] show ?case by simp
qed (simp add: emits_refl)

lemma observe_lifecycle_emits: "emits limit a [] (observe_lifecycle a event i)"
proof (rule emits_limit)
  assume lim: "a_limit a = limit"
  define g where "g s = (if st_failed s \<and> e_message event \<noteq> [] then s\<lparr>st_errorMessage := Truncate (e_message event)\<rparr> else s)" for s :: streamOutputState
  define f where "f toolType status s = applyStreamStatus (set_name (e_name event) limit (set_tool_type toolType limit
    (set_tool_item_id (e_itemID event) limit s))) status (e_error event)" for toolType status s
  have "keeps_state limit g" by (simp add: keeps_state_def texts_ok_message g_def)
  moreover have "keeps_state limit (f toolType status)" for toolType status
    unfolding f_def by (intro keeps_intros)
  ultimately have k: "keeps_state limit (\<lambda>s. g (f toolType status s))" for toolType status
    by (rule keeps_comp [rotated])
  show ?thesis
  proof (cases "streamToolLifecycle (e_type event)")
    case None
    then show ?thesis by (simp add: observe_lifecycle_def emits_refl)
  next
    case (Some ts)
    obtain toolType status where ts: "ts = (toolType, status)" by (cases ts)
    show ?thesis
    proof (cases "al_lookup (a_states a) (response_tool_key i)")
      case None
      then show ?thesis by (simp add: observe_lifecycle_def Some ts emits_refl)
    next
      case (Some s)
      then have "observe_lifecycle a event i = put_state a (response_tool_key i) (g (f toolType status s))"
        by (simp add: observe_lifecycle_def \<open>streamToolLifecycle (e_type event) = Some ts\<close> ts g_def f_def lim Let_def)
      with put_state_emits [OF Some k] show ?thesis by simp
    qed
  qed
qed

text \<open>A shell command event writes one command of the tool call, and may create it.\<close>

lemma put_command_emits:
  assumes s: "acc_inv limit a \<Longrightarrow> al_lookup (a_states a) k = Some s"
    and t: "\<And>part. text_ok limit part \<Longrightarrow> text_ok limit (write part)"
  shows "emits limit a [] (case al_lookup (st_shellCommands s) i of
       Some part \<Rightarrow> put_state a k (s\<lparr>st_shellCommands := al_put i (write part) (st_shellCommands s)\<rparr>)
     | None \<Rightarrow> if a_createdParts a \<ge> maxStreamOutputParts then a\<lparr>a_limited := True\<rparr>
         else put_state (a\<lparr>a_createdParts := a_createdParts a + 1\<rparr>) k
                (s\<lparr>st_shellCommands := al_put i (write empty_text) (st_shellCommands s)\<rparr>))"
proof (cases "acc_inv limit a")
  case inv: True
  then have core: "acc_core limit a" by (simp add: acc_inv_def)
  note lk = s [OF inv]
  have sk: "state_ok limit k s" by (rule acc_core_lookup(1) [OF core lk])
  have keys: "fst ` set (al_put k s' (a_states a)) = fst ` set (a_states a)" for s'
    using al_lookup_in [OF lk] by force
  have set_put: "set (al_put i v m) \<subseteq> insert (i, v) (set m)" for v and m :: "(int \<times> limitedStreamText) list"
    by (induction i v m rule: al_put.induct) auto
  have put: "state_ok limit k (s\<lparr>st_shellCommands := al_put i v (st_shellCommands s)\<rparr>)" if "text_ok limit v" for v
    using sk that set_put [of v "st_shellCommands s"] by (auto simp: state_ok_def texts_ok_def)
  have "key_group k \<notin> set (a_finishedGroups a)" using inv al_lookup_in [OF lk] by (force simp: acc_inv_def)
  then have res: "emits limit a [] (put_state (a\<lparr>a_createdParts := n\<rparr>) k s')"
    if "acc_core limit (put_state (a\<lparr>a_createdParts := n\<rparr>) k s')" for n s'
    using that inv by (simp add: emits_def acc_inv_def put_state_def keys)
  show ?thesis
  proof (cases "al_lookup (st_shellCommands s) i")
    case (Some part)
    then have p: "(i, part) \<in> set (st_shellCommands s)" by (rule al_lookup_in)
    then have "text_ok limit part" using sk by (auto simp: state_ok_def texts_ok_def)
    let ?s = "s\<lparr>st_shellCommands := al_put i (write part) (st_shellCommands s)\<rparr>"
    have "length (st_shellCommands ?s) = length (st_shellCommands s)"
      using p by (force simp: length_al_put)
    then have "acc_core limit (put_state (a\<lparr>a_createdParts := a_createdParts a\<rparr>) k ?s)"
      using core put [OF t [OF \<open>text_ok limit part\<close>]]
      by (intro put_state_core [OF core lk]) (simp_all add: put_state_weight [OF lk] acc_core_def)
    from res [OF this] Some show ?thesis by simp
  next
    case None
    let ?s = "s\<lparr>st_shellCommands := al_put i (write empty_text) (st_shellCommands s)\<rparr>"
    show ?thesis
    proof (cases "a_createdParts a \<ge> maxStreamOutputParts")
      case True
      with None show ?thesis by (simp add: emits_limited)
    next
      case False
      have "state_weight ?s = state_weight s + 1"
        using None by (simp add: state_weight_def length_al_put al_lookup_None)
      then have "live_weight (al_put k ?s (a_states a)) = live_weight (a_states a) + 1"
        using live_weight_put(1) [of k ?s "a_states a"] live_weight_put(2) [OF lk] lk by simp
      then have "acc_core limit (put_state (a\<lparr>a_createdParts := a_createdParts a + 1\<rparr>) k ?s)"
        using core False put [OF t [OF text_ok_empty]]
        by (intro put_state_core [OF core lk]) (simp_all add: acc_core_def)
      from res [OF this] None False show ?thesis by simp
    qed
  qed
qed (simp add: emits_def)

lemma observeResponseShellCommand_emits: "emits limit a [] (observeResponseShellCommand a i j itemID command at auth)"
proof (rule emits_limit)
  assume lim: "a_limit a = limit" and inv: "acc_inv limit a"
  define r where "r = mutate_ref (responseToolState a i itemID) (\<lambda>s. set_tool_type ''shell_call'' limit (touch s at))"
  have r: "emits_ref limit a r" unfolding r_def by (intro quiet_intros keeps_intros)
  obtain b x where bx: "r = (b, x)" by force
  with r have b: "emits limit a [] b" by (simp add: emits_ref_def)
  show ?thesis
  proof (cases x)
    case None
    with b bx show ?thesis unfolding observeResponseShellCommand_def lim r_def [symmetric] by simp
  next
    case (Some ks)
    obtain k s where ks: "ks = (k, s)" by force
    have lk: "al_lookup (a_states b) k = Some s" using r inv by (simp add: emits_ref_def bx Some ks)
    show ?thesis
      unfolding observeResponseShellCommand_def lim r_def [symmetric] bx Some ks prod.case option.case Let_def
      by (rule emits_quiet_trans [OF b put_command_emits [OF lk]]) simp
  qed
qed

lemma response_switch_emits: "emits_result limit a (response_switch a event i j at)"
proof (rule emits_limit)
  assume lim: "a_limit a = limit"
  have q: "emits_result limit a r" if "emits limit a [] (fst r)" "snd r = []" for r
    using that by simp
  have m: "emits limit a [] (mutate (responseToolState a i itemID) (\<lambda>s. set_arguments v limit (set_name n limit (set_tool_type t limit (touch s at)))))"
    "emits limit a [] (mutate (responseToolState a i itemID) (\<lambda>s. set_arguments v limit (set_tool_type t limit (touch s at))))"
    "emits limit a [] (mutate (responseTextState a kind i j itemID) (\<lambda>s. set_content v limit (touch s at)))"
    "emits limit a [] (mutate (responseTextState a kind i j itemID) (\<lambda>s. set_refusal v limit (touch s at)))"
    "emits limit a [] (mutate (responseTextState a kind i j itemID) (\<lambda>s. set_reasoning v limit (touch s at)))"
    "emits limit a [] (mutate (responseSummaryState a i l itemID) (\<lambda>s. set_reasoning v limit (touch s at)))"
    for itemID v n t kind l
    by (intro quiet_intros keeps_intros)+
  have fin: "emits_result limit a (finishResponseOutput a i at True False [])"
    by (rule finishResponseOutput_emits) simp_all
  have item: "emits_result limit a
      (let a1 = observeResponseItem a item i at True;
           a2 = markResponseOutputStatus a1 i (it_status item) (it_error item);
           (complete, failed, message) = streamStatus (it_status item) (it_error item)
       in finishResponseOutput a2 i at complete failed message)" for item
  proof -
    obtain c f m where st: "streamStatus (it_status item) (it_error item) = (c, f, m)"
      by (cases "streamStatus (it_status item) (it_error item)")
    then have cf: "\<not> (c \<and> f)" by (auto simp: streamStatus_def split: if_splits)
    have "emits limit a [] (markResponseOutputStatus (observeResponseItem a item i at True) i (it_status item) (it_error item))"
      by (intro quiet_intros)
    from emits_quiet_trans [OF this finishResponseOutput_emits [OF message_ok_status [OF st] cf]]
    show ?thesis by (simp add: st Let_def)
  qed
  note handlers = append_handlers_emits observeResponseShellCommand_emits m observeResponseItem_emits
    observeResponsePart_emits observeResponseSummaryPart_emits emits_refl
  show ?thesis
    unfolding response_switch_def Let_def lim
    using fin item [unfolded Let_def]
    by (cases "e_item event"; cases "e_part event") (simp_all add: handlers)
qed

lemma observeResponses_emits: "emits_result limit a (observeResponses a event at)"
proof (cases "e_type event = []")
  case True
  then show ?thesis by (simp add: observeResponses_def emits_refl)
next
  case False
  define i where "i = streamIndex (e_outputIndex event) 0"
  obtain b outs where b: "response_switch a event i (streamIndex (e_contentIndex event) 0) at = (b, outs)" by force
  with response_switch_emits have ab: "emits limit a outs b" by (metis fst_conv snd_conv)
  define c where "c = observe_lifecycle b event i"
  have ac: "emits limit a outs c" unfolding c_def by (rule emits_then [OF ab observe_lifecycle_emits])
  then have "emits limit a outs (observe_items c 0 items at)" for items
    by (rule emits_then) (rule observe_items_emits)
  with ac False show ?thesis
    by (simp add: observeResponses_def i_def [symmetric] b c_def [symmetric] split: option.split)
qed

subsection \<open>The accumulator's methods\<close>

text \<open>The same, for methods that may also close the accumulator.\<close>

definition reports :: "nat \<Rightarrow> StreamAccumulator \<Rightarrow> outputs \<Rightarrow> StreamAccumulator \<Rightarrow> bool" where
  "reports limit a outs b \<longleftrightarrow>
     emits limit a outs (b\<lparr>a_closed := a_closed a, a_terminalObserved := a_terminalObserved a\<rparr>)"

lemma acc_inv_flags [simp]:
  "acc_inv limit (a\<lparr>a_closed := c\<rparr>) = acc_inv limit a" "acc_inv limit (a\<lparr>a_terminalObserved := t\<rparr>) = acc_inv limit a"
  by (simp_all add: acc_inv_def acc_core_def)

lemma emits_shift: "emits limit a outs b \<Longrightarrow> emits limit (a\<lparr>a_closed := c, a_terminalObserved := t\<rparr>) outs (b\<lparr>a_closed := c, a_terminalObserved := t\<rparr>)"
  by (simp add: emits_def)

lemma reports_emits: "emits limit a outs b \<Longrightarrow> reports limit a outs b"
  by (simp add: reports_def emits_def)

lemma reports_trans: "reports limit a o1 b \<Longrightarrow> reports limit b o2 c \<Longrightarrow> reports limit a (o1 @ o2) c"
  unfolding reports_def
  using emits_trans [of limit a o1 "b\<lparr>a_closed := a_closed a, a_terminalObserved := a_terminalObserved a\<rparr>" o2]
    emits_shift [of limit b o2 "c\<lparr>a_closed := a_closed b, a_terminalObserved := a_terminalObserved b\<rparr>" "a_terminalObserved a" "a_closed a"]
  by simp

lemma reports_inv: "reports limit a outs b \<Longrightarrow> acc_inv limit a \<Longrightarrow> acc_inv limit b"
  by (simp add: reports_def emits_def)

lemma reports_close: "reports limit a [] (a\<lparr>a_closed := c, a_terminalObserved := t\<rparr>)" "reports limit a [] (a\<lparr>a_closed := c\<rparr>)"
  by (simp_all add: reports_def emits_refl)

lemma close_terminal_reports:
  assumes "message_ok m" "\<not> (c \<and> f)"
  shows "reports limit a (snd (close_terminal a at c f m)) (fst (close_terminal a at c f m))"
  using reports_trans [OF reports_close(1) reports_emits [OF finishAll_emits [OF assms]]]
  by (simp add: close_terminal_def)

lemma observe_undecodable_reports:
  "reports limit a (snd (observe_undecodable a payload at)) (fst (observe_undecodable a payload at))"
proof -
  define b where "b = (if json_valid payload then a\<lparr>a_decodeFailed := True, a_limited := True\<rparr> else a\<lparr>a_decodeFailed := True\<rparr>)"
  obtain t i f m where d: "decodeStreamTerminal payload = (t, i, f, m)" by (cases "decodeStreamTerminal payload")
  have b: "emits limit a [] b" unfolding b_def by (intro quiet_intros)
  have "emits limit a [] (b\<lparr>a_limited := True, a_terminalIncomplete := i\<rparr>)"
    unfolding b_def by (cases "json_valid payload") (simp_all, (intro quiet_intros)+)
  from reports_trans [OF reports_emits [OF this] close_terminal_reports [OF message_ok_terminal [OF d], of "\<not> i \<and> \<not> f" f]]
  show ?thesis using reports_emits [OF b] by (simp add: observe_undecodable_def d b_def Let_def)
qed

lemma observe_event_reports: "reports limit a (snd (observe_event a event at)) (fst (observe_event a event at))"
proof -
  define fin where "fin = (\<not> streamEventFailed event)"
  obtain a1 o1 where 1: "observeChat a event at fin = (a1, o1)" by force
  obtain a2 o2 where 2: "observeNative a1 event at fin = (a2, o2)" by force
  obtain a3 o3 where 3: "observeResponses a2 event at = (a3, o3)" by force
  have "emits limit a o1 a1" "emits limit a1 o2 a2" "emits limit a2 o3 a3"
    using observe_choices_emits [of limit a 0 "e_choices event" at fin] observeNative_emits [of limit a1 event at fin]
      observeResponses_emits [of limit a2 event at] 1 2 3 by (simp_all add: observeChat_def)
  then have "emits limit a (o1 @ o2 @ o3) a3" by (blast intro: emits_trans)
  then have a4: "reports limit a (o1 @ o2 @ o3) b" if "emits limit a3 [] b" for b
    using that by (blast intro: reports_emits emits_then)
  have lim: "emits limit a3 [] (a3\<lparr>a_limited := True\<rparr>)" "emits limit a3 [] (a3\<lparr>a_limited := True, a_terminalIncomplete := True\<rparr>)"
    "emits limit a3 [] (a3\<lparr>a_terminalIncomplete := True\<rparr>)"
    by (intro quiet_intros)+
  have close: "reports limit a (o1 @ o2 @ o3 @ snd (close_terminal b at c f m)) (fst (close_terminal b at c f m))"
    if "emits limit a3 [] b" "message_ok m" "\<not> (c \<and> f)" for b c f m
    using reports_trans [OF a4 [OF that(1)] close_terminal_reports [OF that(2,3)]] by simp
  note close_rules = close [OF lim(1)] close [OF lim(2)] close [OF lim(3)] close [OF emits_refl]
  show ?thesis
    unfolding observe_event_def Let_def fin_def [symmetric] 1 2 3 prod.case
    using close_rules a4 [OF lim(1)] a4 [OF emits_refl]
    by (auto simp: case_prod_beta)
qed

lemma Observe_reports: "reports limit a (snd (Observe a payload t at)) (fst (Observe a payload t at))"
proof -
  have "emits limit a [] (if a_decodeFailed a then a\<lparr>a_limited := True\<rparr> else a)" by (intro quiet_intros)
  from reports_trans [OF reports_emits [OF this] close_terminal_reports [OF message_ok_Nil, of True False]]
  show ?thesis
    by (auto simp: Observe_def observe_undecodable_reports observe_event_reports reports_emits emits_refl split: option.split)
qed

lemma finish_stream_reports: "reports limit a (snd (finish_stream a at)) (fst (finish_stream a at))"
  using reports_trans [OF reports_close(2) [of limit a True] reports_emits [OF finishAll_emits [OF message_ok_Nil, of False False]]]
  by (simp add: finish_stream_def reports_emits emits_refl)

end
