(* ===== verification/Stream_Contract.thy ===== *)
theory Stream_Contract
  imports Stream_Observe
begin

text \<open>
  The contract of the stream accumulator over a whole stream: \<open>finishAll\<close> in closed form, and
  the properties of any sequence of calls of its methods.
\<close>

subsection \<open>Finishing everything, in closed form\<close>

definition group_output :: "StreamAccumulator \<Rightarrow> go_time \<Rightarrow> bool \<Rightarrow> bool \<Rightarrow> bytes \<Rightarrow> int \<times> nat \<times> StreamOutputKind \<Rightarrow> outputs" where
  "group_output a at c f m g =
     (let ks = filter (has_output a) (response_keys a (fst g) (snd (snd g)))
      in if ks = [] then [] else [mergeResponseOutputs a (map (key_output a at c f m) ks) at])"

abbreviation group_keys :: "StreamAccumulator \<Rightarrow> int \<times> nat \<times> StreamOutputKind \<Rightarrow> streamOutputKey list" where
  "group_keys a g \<equiv> response_keys a (fst g) (snd (snd g))"

lemma merge_without [simp]: "mergeResponseOutputs (without_keys a ks) parts at = mergeResponseOutputs a parts at"
  by (simp add: mergeResponseOutputs_def)

lemma set_response_keys:
  "set (response_keys a i kind) =
     {k \<in> set (al_keys (a_states a)). key_source k = StreamSourceResponses \<and> key_outputIndex k = i \<and> key_kind k = kind}"
  by (auto simp: response_keys_def)

lemma lookup_without:
  "k \<notin> set ks \<Longrightarrow> al_lookup (a_states (without_keys a ks)) k = al_lookup (a_states a) k"
proof -
  have "k \<notin> set ks \<Longrightarrow> al_lookup (filter (\<lambda>e. fst e \<notin> set ks) m) k = al_lookup m k" for m :: "(streamOutputKey \<times> streamOutputState) list"
    by (induction m) auto
  then show "k \<notin> set ks \<Longrightarrow> al_lookup (a_states (without_keys a ks)) k = al_lookup (a_states a) k" by simp
qed

lemma without_other [simp]:
  assumes "k \<notin> set ks"
  shows "has_output (without_keys a ks) k = has_output a k" "key_output (without_keys a ks) at c f m k = key_output a at c f m k"
  using lookup_without [OF assms]
  by (simp_all add: has_output_def key_output_def live_state_def Let_def del: without_keys_frame(9))

lemma filter_keys: "filter P (al_keys (filter (\<lambda>e. fst e \<notin> K) m)) = filter P (al_keys m)" if "\<And>k. k \<in> K \<Longrightarrow> \<not> P k"
  using that by (induction m) auto

lemma response_keys_without:
  assumes "\<And>k. k \<in> set ks \<Longrightarrow> \<not> (key_source k = StreamSourceResponses \<and> key_outputIndex k = i \<and> key_kind k = kind)"
  shows "response_keys (without_keys a ks) i kind = response_keys a i kind"
  unfolding response_keys_def without_keys_frame using assms by (subst filter_keys) auto

lemma group_output_without:
  assumes "\<And>k. k \<in> set ks \<Longrightarrow> \<not> (key_source k = StreamSourceResponses \<and> key_outputIndex k = fst g \<and> key_kind k = snd (snd g))"
  shows "group_output (without_keys a ks) at c f m g = group_output a at c f m g"
proof -
  have k: "k \<notin> set ks" if "k \<in> set (group_keys a g)" for k
    using that assms by (auto simp: set_response_keys)
  have "filter (has_output (without_keys a ks)) (group_keys a g) = filter (has_output a) (group_keys a g)"
    by (rule filter_cong) (simp_all add: k)
  moreover have "map (key_output (without_keys a ks) at c f m) (filter (has_output a) (group_keys a g)) =
      map (key_output a at c f m) (filter (has_output a) (group_keys a g))"
    by (rule map_cong) (simp_all add: k)
  moreover have "group_keys (without_keys a ks) g = group_keys a g"
    by (rule response_keys_without) (use assms in blast)
  ultimately show ?thesis
    unfolding group_output_def Let_def merge_without by (simp only:)
qed

lemma without_keys_append:
  assumes "set ks \<inter> set ls = {}"
  shows "without_keys (without_keys a ks) ls = without_keys a (ks @ ls)"
proof -
  have "filter (has_output (without_keys a ks)) ls = filter (has_output a) ls"
    using assms by (intro filter_cong refl without_other(1)) auto
  then show ?thesis
    by (simp add: without_keys_def [of "without_keys a ks"]) (simp add: without_keys_def conj_commute)
qed

lemma finishResponseGroups_eq:
  assumes "distinct (al_keys (a_states a))" and "distinct (map (\<lambda>g. (fst g, snd (snd g))) gs)"
  shows "finishResponseGroups a gs at c f m =
     (without_keys a (concat (map (group_keys a) gs)), concat (map (group_output a at c f m) gs))"
  using assms
proof (induction gs arbitrary: a)
  case Nil
  then show ?case by (simp add: without_keys_def)
next
  case (Cons g gs)
  obtain i n kind where g: "g = (i, n, kind)" by (cases g)
  let ?ks = "response_keys a i kind" and ?b = "without_keys a (response_keys a i kind)"
  have db: "distinct (al_keys (a_states ?b))"
    using Cons.prems(1) by (simp add: distinct_map_filter)
  have other: "\<not> (key_source k = StreamSourceResponses \<and> key_outputIndex k = fst h \<and> key_kind k = snd (snd h))"
    if "h \<in> set gs" "k \<in> set ?ks" for h k
    using that Cons.prems(2) g by (force simp: set_response_keys)
  have keys: "map (group_keys ?b) gs = map (group_keys a) gs"
    using other by (intro map_cong response_keys_without) auto
  have outs: "map (group_output ?b at c f m) gs = map (group_output a at c f m) gs"
    using other by (intro map_cong group_output_without) auto
  have "set ?ks \<inter> set (concat (map (group_keys a) gs)) = {}"
  proof -
    have "k \<notin> set (group_keys a h)" if "k \<in> set ?ks" "h \<in> set gs" for k h
      using other [OF that(2,1)] by (simp add: set_response_keys)
    then show ?thesis by (auto simp del: split_paired_All)
  qed
  note app = without_keys_append [OF this]
  have "finishResponseGroups ?b gs at c f m =
      (without_keys ?b (concat (map (group_keys a) gs)), concat (map (group_output a at c f m) gs))"
    using Cons.IH [OF db] Cons.prems(2) keys outs by simp
  then show ?case
    by (simp add: g finishResponseOutputKind_eq [OF Cons.prems(1)] app group_output_def [of a at c f m "(i, n, kind)"] Let_def)
qed

definition other_keys :: "StreamAccumulator \<Rightarrow> streamOutputKey list" where
  "other_keys a = sort (filter (\<lambda>key. key_source key \<noteq> StreamSourceResponses) (al_keys (a_states a)))"

definition finish_order :: "StreamAccumulator \<Rightarrow> streamOutputKey list" where
  "finish_order a = concat (map (group_keys a) (response_groups a)) @ other_keys a"

lemma response_groups_distinct: "distinct (map (\<lambda>g. (fst g, snd (snd g))) (response_groups a))"
proof -
  have "inj_on (\<lambda>g. (fst g, snd (snd g))) (set (response_groups a))"
    by (auto simp: response_groups_def inj_on_def)
  then show ?thesis by (simp add: distinct_map response_groups_def)
qed

lemma set_response_groups:
  "set (response_groups a) = (\<lambda>k. (key_outputIndex k, kind_value (key_kind k), key_kind k)) `
     {k \<in> set (al_keys (a_states a)). key_source k = StreamSourceResponses}"
  by (auto simp: response_groups_def)

lemma finishAll_eq:
  assumes d: "distinct (al_keys (a_states a))"
  shows "finishAll a at c f m =
     (without_keys a (finish_order a),
      concat (map (group_output a at c f m) (response_groups a)) @
      map (key_output a at c f m) (filter (has_output a) (other_keys a)))"
proof -
  define rs where "rs = concat (map (group_keys a) (response_groups a))"
  have rs: "key_source k = StreamSourceResponses" if "k \<in> set rs" for k
    using that by (auto simp: rs_def set_response_keys)
  have "filter (\<lambda>key. key_source key \<noteq> StreamSourceResponses) (al_keys (a_states (without_keys a rs))) =
      filter (\<lambda>key. key_source key \<noteq> StreamSourceResponses) (al_keys (a_states a))"
    unfolding without_keys_frame using rs by (subst filter_keys) auto
  then have ok: "other_keys (without_keys a rs) = other_keys a" by (simp add: other_keys_def)
  have disj: "set rs \<inter> set (other_keys a) = {}" using rs by (auto simp: other_keys_def)
  have dk: "distinct (other_keys a)" using d by (simp add: other_keys_def)
  have "filter (has_output (without_keys a rs)) (other_keys a) = filter (has_output a) (other_keys a)"
    using disj by (intro filter_cong refl without_other(1)) auto
  moreover have "map (key_output (without_keys a rs) at c f m) (filter (has_output a) (other_keys a)) =
      map (key_output a at c f m) (filter (has_output a) (other_keys a))"
    using disj by (intro map_cong refl without_other(2)) auto
  ultimately have "finishMatching (without_keys a rs) (\<lambda>key. key_source key \<noteq> StreamSourceResponses) at c f m =
      (without_keys a (rs @ other_keys a), map (key_output a at c f m) (filter (has_output a) (other_keys a)))"
    unfolding finishMatching_def other_keys_def [symmetric] ok finishKeys_eq [OF dk] without_keys_append [OF disj]
    by (simp only:)
  then show ?thesis
    by (simp add: finishAll_def finishResponseGroups_eq [OF d response_groups_distinct] rs_def [symmetric] finish_order_def)
qed

lemma set_finish_order: "set (finish_order a) = set (al_keys (a_states a))"
proof
  show "set (finish_order a) \<subseteq> set (al_keys (a_states a))"
    by (auto simp: finish_order_def set_response_keys other_keys_def)
  show "set (al_keys (a_states a)) \<subseteq> set (finish_order a)"
    by (auto simp: finish_order_def set_response_keys set_response_groups other_keys_def image_iff)
qed

lemma finishAll_empties: "distinct (al_keys (a_states a)) \<Longrightarrow> a_states (fst (finishAll a at c f m)) = []"
  by (auto simp: finishAll_eq set_finish_order filter_empty_conv image_iff)

subsection \<open>Sequences of calls\<close>

datatype stream_op = StreamPayload bytes bool go_time | StreamLimited | StreamEnd go_time

fun stream_step :: "StreamAccumulator \<Rightarrow> stream_op \<Rightarrow> StreamAccumulator \<times> outputs" where
  "stream_step a (StreamPayload payload terminal at) = Observe a payload terminal at"
| "stream_step a StreamLimited = (MarkLimited a, [])"
| "stream_step a (StreamEnd at) = finish_stream a at"

fun run_stream :: "StreamAccumulator \<Rightarrow> stream_op list \<Rightarrow> StreamAccumulator \<times> outputs" where
  "run_stream a [] = (a, [])"
| "run_stream a (op # ops) =
     (let (b, o1) = stream_step a op; (c, o2) = run_stream b ops in (c, o1 @ o2))"

lemma run_stream_Cons:
  "fst (run_stream a (op # ops)) = fst (run_stream (fst (stream_step a op)) ops)"
  "snd (run_stream a (op # ops)) = snd (stream_step a op) @ snd (run_stream (fst (stream_step a op)) ops)"
  by (simp_all add: case_prod_beta Let_def)

lemma fst_run_stream: "fst (run_stream a ops) = foldl (\<lambda>a op. fst (stream_step a op)) a ops"
  by (induction ops arbitrary: a) (simp_all add: run_stream_Cons del: run_stream.simps(2))

lemma stream_step_reports: "reports limit a (snd (stream_step a op)) (fst (stream_step a op))"
  by (cases op) (simp_all add: Observe_reports finish_stream_reports MarkLimited_def reports_emits emits_limited)

lemma run_stream_reports: "reports limit a (snd (run_stream a ops)) (fst (run_stream a ops))"
proof (induction ops arbitrary: a)
  case (Cons op ops)
  show ?case unfolding run_stream_Cons by (rule reports_trans [OF stream_step_reports Cons])
qed (simp add: reports_emits emits_refl)

interpretation stream: invariant_machine "\<lambda>a op. fst (stream_step a op)" "acc_inv limit" for limit
  by unfold_locales (rule reports_inv [OF stream_step_reports])

lemma NewStreamAccumulator_inv: "acc_inv (a_limit (NewStreamAccumulator limit0)) (NewStreamAccumulator limit0)"
  by (simp add: acc_inv_def acc_core_def NewStreamAccumulator_def Let_def)

lemma run_stream_inv: "acc_inv (a_limit (NewStreamAccumulator limit0)) (fst (run_stream (NewStreamAccumulator limit0) ops))"
  unfolding fst_run_stream by (rule stream.inv_run [OF NewStreamAccumulator_inv])

lemma run_stream_emits:
  fixes limit0 ops
  defines "a \<equiv> NewStreamAccumulator limit0"
  shows "emits (a_limit a) a (snd (run_stream a ops))
     ((fst (run_stream a ops))\<lparr>a_closed := a_closed a, a_terminalObserved := a_terminalObserved a\<rparr>)"
  using run_stream_reports by (simp add: reports_def)

lemma new_reports_outputs:
  assumes "reports (a_limit (NewStreamAccumulator limit)) (NewStreamAccumulator limit) outs b"
  shows "distinct (map output_identity outs)" "length outs \<le> 64"
    "list_all (\<lambda>out. \<not> (so_complete out \<and> so_failed out)) outs"
    "list_all (output_texts_ok (a_limit (NewStreamAccumulator limit))) outs"
proof -
  define a where "a = NewStreamAccumulator limit"
  have inv: "acc_inv (a_limit a) a" unfolding a_def by (rule NewStreamAccumulator_inv)
  have inv': "acc_inv (a_limit a) b" by (rule reports_inv [OF assms [folded a_def] inv])
  have e: "distinct (map output_identity outs)" "\<forall>out \<in> set outs. output_ok (a_limit a) out"
    "output_identity ` set outs \<subseteq> group_identity ` set (a_finishedGroups b)"
    using assms inv by (auto simp: reports_def emits_def a_def)
  show "distinct (map output_identity outs)" by (rule e(1))
  have "length outs = card (output_identity ` set outs)"
    using distinct_card [OF e(1)] by simp
  also have "\<dots> \<le> card (set (a_finishedGroups b))"
    using card_mono [OF _ e(3)] card_image_le [of "set (a_finishedGroups b)" group_identity] by simp
  also have "\<dots> \<le> card (set (a_groups b))"
    using inv' by (intro card_mono) (auto simp: acc_inv_def acc_core_def)
  also have "\<dots> \<le> 64"
    using inv' card_length [of "a_groups b"] by (simp add: acc_inv_def acc_core_def maxStreamOutputStates_def)
  finally show "length outs \<le> 64" .
  show "list_all (\<lambda>out. \<not> (so_complete out \<and> so_failed out)) outs"
    "list_all (output_texts_ok (a_limit (NewStreamAccumulator limit))) outs"
    using e(2) by (auto simp: list_all_iff output_ok_def a_def)
qed

text \<open>
  C10: over any sequence of calls of the accumulator's methods, no output is handed out
  twice: the outputs have pairwise different identities (kind, choice, item, tool call), so
  a response yields at most 64 of them, and every one is consistent: never both complete
  and failed. All its texts are valid UTF-8 within their limits: reasoning, content, refusal and
  arguments within the limit of the accumulator, names, types, IDs and finish reasons within 4096
  bytes as well, error messages within 259.
\<close>

theorem stream_outputs_unique:
  "let outs = snd (run_stream (NewStreamAccumulator limit) ops)
   in distinct (map output_identity outs) \<and> length outs \<le> 64 \<and>
      list_all (\<lambda>out. \<not> (so_complete out \<and> so_failed out)) outs \<and>
      list_all (output_texts_ok (a_limit (NewStreamAccumulator limit))) outs"
  using new_reports_outputs [OF run_stream_reports] by (simp add: Let_def)

text \<open>
  C33: whatever payloads arrive, the accumulator keeps at most 128 states and shell commands
  together, in at most 64 groups, remembers at most 64 finished ones, and every text it keeps or
  hands out is valid UTF-8 within the limit (names, types, IDs and finish reasons within 4096 bytes
  as well, error messages within 259).
\<close>

theorem stream_memory_bounded:
  "let a0 = NewStreamAccumulator limit; (a, outs) = run_stream a0 ops
   in length (a_states a) + sum_list (map (\<lambda>e. length (st_shellCommands (snd e))) (a_states a)) \<le> 128 \<and>
      length (a_groups a) \<le> 64 \<and> length (a_finishedGroups a) \<le> 64 \<and> length (a_finished a) \<le> 128 \<and> length (a_finishedChoices a) \<le> 64 \<and>
      list_all (\<lambda>e. texts_ok (a_limit a0) (snd e)) (a_states a) \<and> list_all (output_texts_ok (a_limit a0)) outs"
proof -
  define a where "a = NewStreamAccumulator limit"
  let ?b = "fst (run_stream a ops)" and ?outs = "snd (run_stream a ops)"
  have inv: "acc_inv (a_limit a) a" "acc_inv (a_limit a) ?b"
    unfolding a_def by (rule NewStreamAccumulator_inv run_stream_inv)+
  have w: "live_weight m = length m + sum_list (map (\<lambda>e. length (st_shellCommands (snd e))) m)" for m
    by (induction m) (simp_all add: state_weight_def)
  have "length (a_finishedGroups ?b) \<le> 64"
    using inv(2) distinct_card [of "a_finishedGroups ?b"] card_mono [of "set (a_groups ?b)" "set (a_finishedGroups ?b)"]
      card_length [of "a_groups ?b"]
    by (simp add: acc_inv_def acc_core_def maxStreamOutputStates_def)
  moreover have "list_all (\<lambda>e. texts_ok (a_limit a) (snd e)) (a_states ?b)"
    using inv(2) by (auto simp: acc_inv_def acc_core_def state_ok_def list_all_iff)
  moreover have "list_all (output_texts_ok (a_limit a)) ?outs"
    using run_stream_emits [of limit ops] inv(1) by (auto simp: emits_def a_def output_ok_def list_all_iff)
  ultimately show ?thesis
    using inv(2) w [of "a_states ?b"]
    by (simp add: a_def [symmetric] Let_def case_prod_beta acc_inv_def acc_core_def maxStreamOutputStates_def maxStreamOutputParts_def)
qed

subsection \<open>Terminal events\<close>

lemma close_terminal_states:
  "acc_inv limit a \<Longrightarrow> a_states (fst (close_terminal a c at f m)) = []"
  by (simp add: close_terminal_def finishAll_empties acc_inv_def acc_core_def)

lemma emits_inv: "emits limit a outs b \<Longrightarrow> acc_inv limit a \<Longrightarrow> acc_inv limit b"
  by (simp add: emits_def)

lemma emits_closed: "emits limit a outs b \<Longrightarrow> acc_inv limit a \<Longrightarrow> a_closed b = a_closed a"
  by (simp add: emits_def)

lemma acc_inv_gaps [simp]:
  "acc_inv limit (a\<lparr>a_limited := l\<rparr>) = acc_inv limit a" "acc_inv limit (a\<lparr>a_decodeFailed := d\<rparr>) = acc_inv limit a"
  "acc_inv limit (a\<lparr>a_terminalIncomplete := i\<rparr>) = acc_inv limit a"
  by (simp_all add: acc_inv_def acc_core_def)

lemma Observe_closed:
  assumes inv: "acc_inv limit a" and "\<not> a_closed a" and "a_closed (fst (Observe a payload t at))"
  shows "a_states (fst (Observe a payload t at)) = []"
proof -
  have und: "a_closed (fst (observe_undecodable a payload at)) \<Longrightarrow> a_states (fst (observe_undecodable a payload at)) = []"
    using assms(2) inv by (auto simp: observe_undecodable_def Let_def close_terminal_states split: prod.splits if_splits)
  have ev: "a_states (fst (observe_event a event at)) = []" if cl: "a_closed (fst (observe_event a event at))" for event
  proof -
    define fin where "fin = (\<not> streamEventFailed event)"
    obtain a1 o1 where 1: "observeChat a event at fin = (a1, o1)" by force
    obtain a2 o2 where 2: "observeNative a1 event at fin = (a2, o2)" by force
    obtain a3 o3 where 3: "observeResponses a2 event at = (a3, o3)" by force
    have e: "emits limit a o1 a1" "emits limit a1 o2 a2" "emits limit a2 o3 a3"
      using observe_choices_emits [of limit a 0 "e_choices event" at fin] observeNative_emits [of limit a1 event at fin]
        observeResponses_emits [of limit a2 event at] 1 2 3 by (simp_all add: observeChat_def)
    then have inv3: "acc_inv limit a3" and "a_closed a3 = a_closed a"
      using inv by (auto dest: emits_inv emits_closed)
    with cl assms(2) inv3 show ?thesis
      unfolding observe_event_def Let_def fin_def [symmetric] 1 2 3 prod.case
      by (auto simp: case_prod_beta close_terminal_states split: if_splits)
  qed
  show ?thesis
    using assms und ev by (auto simp: Observe_def close_terminal_states split: option.splits if_splits)
qed

lemma closed_step:
  assumes inv: "acc_inv limit a" and c: "a_closed a \<Longrightarrow> a_states a = []" and b: "a_closed (fst (stream_step a op))"
  shows "a_states (fst (stream_step a op)) = []"
proof (cases op)
  case (StreamPayload payload t at)
  with assms show ?thesis using Observe_closed [OF inv, of payload t at] by (cases "a_closed a") (simp_all add: Observe_def)
next
  case StreamLimited
  with b c show ?thesis by (simp add: MarkLimited_def)
next
  case (StreamEnd at)
  with c show ?thesis
    using inv finishAll_empties [of "a\<lparr>a_closed := True\<rparr>" at False False "[]"]
    by (auto simp: finish_stream_def acc_inv_def acc_core_def)
qed

lemma closed_run:
  assumes "acc_inv limit a" and "a_closed a \<Longrightarrow> a_states a = []" and "a_closed (fst (run_stream a ops))"
  shows "a_states (fst (run_stream a ops)) = []"
  using assms
proof (induction ops arbitrary: a)
  case (Cons op ops)
  show ?case unfolding run_stream_Cons
    using Cons.prems reports_inv [OF stream_step_reports] closed_step
    by (intro Cons.IH) (auto simp: run_stream_Cons simp del: run_stream.simps)
qed simp

lemma closed_absorbing:
  "a_closed a \<Longrightarrow> snd (run_stream a ops) = [] \<and> a_closed (fst (run_stream a ops)) \<and> a_states (fst (run_stream a ops)) = a_states a"
proof (induction ops arbitrary: a)
  case (Cons op ops)
  have "a_closed (fst (stream_step a op)) \<and> snd (stream_step a op) = [] \<and> a_states (fst (stream_step a op)) = a_states a"
    using Cons.prems by (cases op) (simp_all add: Observe_def finish_stream_def MarkLimited_def)
  with Cons.IH [of "fst (stream_step a op)"] show ?case by (simp add: run_stream_Cons del: run_stream.simps)
qed simp

text \<open>
  Once a call has closed the accumulator (a terminal event, \<open>[DONE]\<close> or \<open>Finish\<close>), nothing
  is left in it, and no later call hands anything out or collects anything again.
\<close>

lemma closed_stream_is_final:
  assumes "a_closed (fst (run_stream (NewStreamAccumulator limit) ops))"
  shows "let a = fst (run_stream (NewStreamAccumulator limit) ops); (b, outs) = run_stream a ops'
    in a_states a = [] \<and> \<not> ContainsToken a \<and> outs = [] \<and> a_closed b \<and> a_states b = [] \<and> \<not> ContainsToken b"
proof -
  have "a_closed (NewStreamAccumulator limit) \<Longrightarrow> a_states (NewStreamAccumulator limit) = []"
    by (simp add: NewStreamAccumulator_def Let_def)
  from closed_run [OF NewStreamAccumulator_inv this assms] closed_absorbing [OF assms]
  show ?thesis by (simp add: Let_def case_prod_beta ContainsToken_def)
qed

lemma closed_stream_is_final_witness:
  "let a = fst (run_stream (NewStreamAccumulator 100) [StreamPayload [] True 5]);
       (b, outs) = run_stream a [StreamPayload ''x'' False 6, StreamEnd 7]
    in a_states a = [] \<and> \<not> ContainsToken a \<and> outs = [] \<and> a_closed b \<and> a_states b = [] \<and> \<not> ContainsToken b"
proof (rule closed_stream_is_final)
  show "a_closed (fst (run_stream (NewStreamAccumulator 100) [StreamPayload [] True 5]))"
    by code_simp
qed

end
