(* ===== verification/Stream_Results.thy ===== *)
theory Stream_Results
  imports Stream_Contract "HOL-Library.Multiset"
begin

text \<open>
  What the finished outputs contain: everything that was collected, in an order that does not
  depend on the order Go iterates over its maps in, marked when the observation has a gap,
  with the parts of a Responses item merged in order.
\<close>

subsection \<open>Everything collected is handed out\<close>

lemma group_output_identity:
  assumes inv: "acc_inv limit a" and m: "message_ok m" "\<not> (c \<and> f)"
  shows "output_identity ` set (group_output a at c f m g) =
     (\<lambda>k. group_identity (key_group k)) ` {k \<in> set (group_keys a g). has_output a k}"
proof -
  have core: "acc_core limit a" and lim: "a_limit a = limit" using inv by (simp_all add: acc_inv_def acc_core_def)
  let ?ks = "filter (has_output a) (group_keys a g)" and ?parts = "map (key_output a at c f m) (filter (has_output a) (group_keys a g))"
  have grp: "key_group k = StreamGroup StreamSourceResponses (snd (snd g)) (-1) (fst g) (-1)" if "k \<in> set (group_keys a g)" for k
    using that acc_inv_key_ok [OF inv, of k] response_group [of k] by (simp add: set_response_keys)
  show ?thesis
  proof (cases "?ks = []")
    case True
    then have none: "{k \<in> set (group_keys a g). has_output a k} = {}" by (auto simp: filter_empty_conv)
    show ?thesis unfolding none group_output_def Let_def using True by simp
  next
    case False
    have "message_ok (so_errorMessage part)" if "part \<in> set ?parts" for part
      using that key_output_ok(1) [OF core _ m] by (auto simp: output_ok_def output_texts_ok_def)
    note out = merge_output_ok(2) [of ?parts a limit at, OF ballI, OF this]
    obtain k where k: "k \<in> set (group_keys a g)" "has_output a k" "hd ?ks = k"
      using hd_in_set [OF False] by auto
    have "output_identity (mergeResponseOutputs a ?parts at) = group_identity (key_group k)"
      using out lim key_output_ok(2) [OF core k(2) m] k False by (simp add: hd_map)
    moreover have "(\<lambda>k. group_identity (key_group k)) ` {k \<in> set (group_keys a g). has_output a k} = {group_identity (key_group k)}"
      using k(1,2) grp by force
    ultimately show ?thesis unfolding group_output_def Let_def using False by simp
  qed
qed

lemma finishAll_identities:
  assumes inv: "acc_inv limit a" and m: "message_ok m" "\<not> (c \<and> f)"
  shows "output_identity ` set (snd (finishAll a at c f m)) = (\<lambda>k. group_identity (key_group k)) ` {k. has_output a k}"
proof -
  have core: "acc_core limit a" and d: "distinct (al_keys (a_states a))" using inv by (simp_all add: acc_inv_def acc_core_def)
  let ?G = "\<lambda>k. group_identity (key_group k)"
  have "output_identity ` set (concat (map (group_output a at c f m) (response_groups a))) =
      (\<Union>g \<in> set (response_groups a). output_identity ` set (group_output a at c f m g))"
    by (simp add: image_UN)
  also have "\<dots> = (\<Union>g \<in> set (response_groups a). ?G ` {k \<in> set (group_keys a g). has_output a k})"
    using group_output_identity [OF inv m] by (intro SUP_cong refl)
  also have "\<dots> = ?G ` {k. has_output a k \<and> key_source k = StreamSourceResponses}"
    unfolding image_UN [symmetric]
  proof (intro arg_cong [where f = "(`) ?G"] equalityI subsetI)
    fix k assume "k \<in> {k. has_output a k \<and> key_source k = StreamSourceResponses}"
    then have k: "has_output a k" "key_source k = StreamSourceResponses" "k \<in> set (al_keys (a_states a))"
      using has_output_key by auto
    then show "k \<in> (\<Union>g \<in> set (response_groups a). {k \<in> set (group_keys a g). has_output a k})"
      by (intro UN_I [of "(key_outputIndex k, kind_value (key_kind k), key_kind k)"])
        (simp_all only: set_response_groups set_response_keys mem_Collect_eq image_iff fst_conv snd_conv simp_thms, blast+)
  qed (auto simp: set_response_keys)
  finally have r: "output_identity ` set (concat (map (group_output a at c f m) (response_groups a))) =
      ?G ` {k. has_output a k \<and> key_source k = StreamSourceResponses}" .
  have "output_identity ` set (map (key_output a at c f m) (filter (has_output a) (other_keys a))) =
      ?G ` set (filter (has_output a) (other_keys a))"
    unfolding set_map image_image by (rule image_cong) (use key_output_ok(2) [OF core _ m] in simp_all)
  also have "set (filter (has_output a) (other_keys a)) = {k. has_output a k \<and> key_source k \<noteq> StreamSourceResponses}"
    using has_output_key by (auto simp: other_keys_def)
  finally have o: "output_identity ` set (map (key_output a at c f m) (filter (has_output a) (other_keys a))) =
      ?G ` {k. has_output a k \<and> key_source k \<noteq> StreamSourceResponses}" .
  show ?thesis
    unfolding finishAll_eq [OF d] snd_conv set_append image_Un r o by blast
qed

lemma has_output_iff:
  assumes "distinct (al_keys (a_states a))"
  shows "{k. has_output a k} = {k. \<exists>s. (k, s) \<in> set (a_states a) \<and> hasData s}"
  using assms by (auto simp: has_output_def al_lookup_iff [OF assms, symmetric] split: option.split)

text \<open>
  C11: when the stream ends without a terminal event, \<open>Finish\<close> hands out exactly the outputs
  that have collected anything, and leaves nothing behind.
\<close>

theorem finish_hands_out_everything:
  "let a = fst (run_stream (NewStreamAccumulator limit) ops); (b, outs) = finish_stream a at
   in set (map output_identity outs) =
        (\<lambda>(k, s). group_identity (key_group k)) ` set (filter (\<lambda>(k, s). hasData s) (a_states a)) \<and>
      a_states b = [] \<and> a_closed b"
proof -
  define a where "a = fst (run_stream (NewStreamAccumulator limit) ops)"
  define L where "L = a_limit (NewStreamAccumulator limit)"
  have inv: "acc_inv L a" unfolding a_def L_def by (rule run_stream_inv)
  then have d: "distinct (al_keys (a_states a))" by (simp add: acc_inv_def acc_core_def)
  have fin: "a_closed a \<Longrightarrow> a_states a = []"
    unfolding a_def by (rule closed_run [OF NewStreamAccumulator_inv]) (simp_all add: NewStreamAccumulator_def Let_def)
  let ?a = "a\<lparr>a_closed := True\<rparr>"
  have eq: "has_output ?a = has_output a" by (simp add: fun_eq_iff has_output_def)
  have "(\<lambda>(k, s). group_identity (key_group k)) ` set (filter (\<lambda>(k, s). hasData s) (a_states a)) =
      (\<lambda>k. group_identity (key_group k)) ` {k. has_output a k}"
    unfolding has_output_iff [OF d] by (force simp: image_iff)
  moreover have "a_closed (fst (finishAll ?a at False False []))"
    using emits_closed [OF finishAll_emits, of "[]" False False L ?a at] inv by simp
  moreover have "a_states (fst (finishAll ?a at False False [])) = []" using finishAll_empties [of ?a] d by simp
  moreover have "output_identity ` set (snd (finishAll ?a at False False [])) = (\<lambda>k. group_identity (key_group k)) ` {k. has_output a k}"
    using finishAll_identities [of L ?a "[]" False False at] inv by (simp add: eq)
  ultimately show ?thesis
    using fin by (auto simp: a_def [symmetric] Let_def case_prod_beta finish_stream_def)
qed

subsection \<open>Observation gaps\<close>

lemma reports_gap:
  assumes "reports limit a outs b" and "acc_inv limit a"
  shows "(a_limited a \<longrightarrow> a_limited b \<and> list_all so_observationLimited outs) \<and> (a_decodeFailed a \<longrightarrow> a_decodeFailed b)"
  using assms by (simp add: reports_def emits_def list_all_iff)

text \<open>
  An observation gap is never forgotten: once the accumulator is marked limited, every
  output it hands out later says so, and after a payload that could not be decoded
  \<open>ObservationGap\<close> stays true, whatever follows.
\<close>

lemma observation_gap_is_sticky:
  fixes limit ops
  defines "a \<equiv> fst (run_stream (NewStreamAccumulator limit) ops)"
  assumes bad: "unmarshal_event payload = None" and live: "\<not> a_closed a"
  shows "list_all so_observationLimited (snd (run_stream a (StreamLimited # ops'))) \<and>
      ObservationGap (fst (run_stream a (StreamLimited # ops'))) \<and>
      ObservationGap (fst (run_stream a (StreamPayload payload False at # ops')))"
proof -
  define L where "L = a_limit (NewStreamAccumulator limit)"
  have inv: "acc_inv L a" unfolding a_def L_def by (rule run_stream_inv)
  then have "acc_inv L (MarkLimited a)" by (simp add: MarkLimited_def)
  note lim = reports_gap [OF run_stream_reports this, of ops']
  have dec: "a_decodeFailed (fst (Observe a payload False at))"
  proof -
    have inv': "acc_inv L (a\<lparr>a_decodeFailed := True\<rparr>)" using inv by simp
    have "a_decodeFailed (fst (finishAll (b\<lparr>a_closed := True, a_terminalObserved := True\<rparr>) at c f m))"
      if "acc_inv L b" "a_decodeFailed b" "message_ok m" "\<not> (c \<and> f)" for b c f m
      using finishAll_emits [OF that(3,4), of L "b\<lparr>a_closed := True, a_terminalObserved := True\<rparr>" at] that(1,2)
      by (simp add: emits_def)
    with inv' bad live message_ok_terminal show ?thesis
      by (auto simp: Observe_def observe_undecodable_def close_terminal_def Let_def split: prod.split)
  qed
  moreover have "acc_inv L (fst (Observe a payload False at))" by (rule reports_inv [OF Observe_reports inv])
  note reports_gap [OF run_stream_reports this, of ops']
  ultimately show ?thesis
    using lim by (auto simp: run_stream_Cons ObservationGap_def MarkLimited_def simp del: run_stream.simps)
qed

lemma observation_gap_is_sticky_witness:
  "list_all so_observationLimited (snd (run_stream (NewStreamAccumulator 100) (StreamLimited # [StreamEnd 4]))) \<and>
   ObservationGap (fst (run_stream (NewStreamAccumulator 100) (StreamLimited # [StreamEnd 4]))) \<and>
   ObservationGap (fst (run_stream (NewStreamAccumulator 100) (StreamPayload ''{x'' False 3 # [StreamEnd 4])))"
proof -
  have "unmarshal_event ''{x'' = None" by code_simp
  moreover have "\<not> a_closed (fst (run_stream (NewStreamAccumulator 100) []))"
    by (simp add: NewStreamAccumulator_def Let_def)
  ultimately show ?thesis using observation_gap_is_sticky [of "''{x''" 100 "[]"] unfolding run_stream.simps(1) fst_conv by blast
qed


subsection \<open>The order of the outputs\<close>

lemma part_rank_inj: "int64_ok i \<Longrightarrow> int64_ok j \<Longrightarrow> part_rank i = part_rank j \<Longrightarrow> i = j"
  by (simp add: part_rank_def int64_ok_def wrap64_def split: if_splits)

lemma response_key_inj:
  assumes "key_ok k" "key_ok l" "key_source k = StreamSourceResponses" "key_source l = StreamSourceResponses"
    "key_kind k = key_kind l" "key_outputIndex k = key_outputIndex l" "key_contentIndex k = key_contentIndex l"
  shows "k = l"
proof -
  have "key_group k = key_group l" using assms response_group [of k] response_group [of l] by simp
  then have "key_choiceIndex k = key_choiceIndex l" "key_toolIndex k = key_toolIndex l"
    unfolding key_group_def by simp_all
  moreover have "key_itemID k = key_itemID l" using assms(1,2) unfolding key_ok_def by metis
  ultimately show ?thesis using assms by (intro streamOutputKey.expand conjI) simp_all
qed

lemma sort_key_perm:
  assumes "mset xs = mset ys" and "inj_on f (set ys)"
  shows "sort_key f xs = sort_key f ys"
  using assms mset_eq_setD [OF assms(1)] by (intro sort_key_inj_key_eq) simp_all

text \<open>
  The order Go iterates over its map of states in does not matter: finishing everything
  gives the same outputs, in the same order, and the same accumulator, for any order of the
  states.
\<close>

lemma finishAll_order_independent:
  assumes inv: "acc_inv limit a" and idx: "list_all (\<lambda>e. int64_ok (key_contentIndex (fst e))) (a_states a)"
    and perm: "mset ms = mset (a_states a)"
  shows "finishAll (a\<lparr>a_states := ms\<rparr>) at c f m = finishAll a at c f m"
proof -
  let ?b = "a\<lparr>a_states := ms\<rparr>"
  have keys: "mset (al_keys ms) = mset (al_keys (a_states a))" using perm by (metis mset_map)
  have da: "distinct (al_keys (a_states a))" using inv by (simp add: acc_inv_def acc_core_def)
  have db: "distinct (al_keys (a_states ?b))" using da mset_eq_imp_distinct_iff [OF keys] by simp
  have lk: "al_lookup ms k = al_lookup (a_states a) k" for k
  proof (rule option.expand)
    have "set ms = set (a_states a)" using perm by (rule mset_eq_setD)
    then have "al_lookup ms k = Some s \<longleftrightarrow> al_lookup (a_states a) k = Some s" for s
      using da db by (simp add: al_lookup_iff)
    then show "(al_lookup ms k = None) = (al_lookup (a_states a) k = None)"
      "al_lookup ms k \<noteq> None \<Longrightarrow> al_lookup (a_states a) k \<noteq> None \<Longrightarrow> the (al_lookup ms k) = the (al_lookup (a_states a) k)"
      by (metis not_None_eq option.sel)+
  qed
  have ho: "has_output ?b = has_output a" by (simp add: fun_eq_iff has_output_def lk)
  have ko: "key_output ?b at c f m = key_output a at c f m" by (simp add: fun_eq_iff key_output_def live_state_def lk)
  have fil: "mset (filter P (al_keys ms)) = mset (filter P (al_keys (a_states a)))" for P
    using keys by (simp only: mset_filter)
  have rk: "response_keys ?b i kind = response_keys a i kind" for i kind
  proof -
    have "k = l"
      if kl: "k \<in> set (response_keys a i kind)" "l \<in> set (response_keys a i kind)" "key_contentIndex k = key_contentIndex l" for k l
    proof (rule response_key_inj)
      show "key_ok k" "key_ok l" using kl acc_inv_key_ok [OF inv] by (auto simp: set_response_keys)
    qed (use kl in \<open>auto simp: set_response_keys\<close>)
    moreover have "int64_ok (key_contentIndex k)" if "k \<in> set (response_keys a i kind)" for k
      using that idx by (auto simp: set_response_keys list_all_iff)
    ultimately have "inj_on (\<lambda>k. part_rank (key_contentIndex k)) (set (response_keys a i kind))"
      by (intro inj_onI) (metis part_rank_inj)
    then have "inj_on (\<lambda>k. part_rank (key_contentIndex k)) (set (filter (\<lambda>key. key_source key = StreamSourceResponses \<and>
        key_outputIndex key = i \<and> key_kind key = kind) (al_keys (a_states a))))"
      by (simp add: response_keys_def)
    from sort_key_perm [OF fil this] show ?thesis by (simp add: response_keys_def)
  qed
  have "set (map (\<lambda>key. (key_outputIndex key, kind_value (key_kind key), key_kind key))
          (filter (\<lambda>key. key_source key = StreamSourceResponses) (al_keys ms))) =
     set (map (\<lambda>key. (key_outputIndex key, kind_value (key_kind key), key_kind key))
          (filter (\<lambda>key. key_source key = StreamSourceResponses) (al_keys (a_states a))))"
    using mset_eq_setD [OF fil] by simp
  then have "mset (remdups (map (\<lambda>key. (key_outputIndex key, kind_value (key_kind key), key_kind key))
          (filter (\<lambda>key. key_source key = StreamSourceResponses) (al_keys ms)))) =
     mset (remdups (map (\<lambda>key. (key_outputIndex key, kind_value (key_kind key), key_kind key))
          (filter (\<lambda>key. key_source key = StreamSourceResponses) (al_keys (a_states a)))))"
    by (simp only: set_eq_iff_mset_remdups_eq)
  then have rg: "response_groups ?b = response_groups a"
    unfolding response_groups_def by (subst sort_key_perm) (auto simp: inj_on_def)
  have ok: "other_keys ?b = other_keys a"
    using sort_key_perm [OF fil, of "\<lambda>k. k"] by (simp add: other_keys_def)
  have merge: "mergeResponseOutputs ?b parts at = mergeResponseOutputs a parts at" for parts
    by (simp add: mergeResponseOutputs_def)
  have go: "group_output ?b at c f m = group_output a at c f m"
    by (rule ext) (simp only: group_output_def rk ho ko merge)
  have fo: "finish_order ?b = finish_order a"
    by (simp only: finish_order_def rk rg ok)
  have "without_keys ?b (finish_order a) = without_keys a (finish_order a)"
  proof -
    have "set (al_keys ms) = set (al_keys (a_states a))"
      using set_finish_order [of a] set_finish_order [of ?b] fo by simp
    then have "filter (\<lambda>e. fst e \<notin> set (finish_order a)) ms = []"
      "filter (\<lambda>e. fst e \<notin> set (finish_order a)) (a_states a) = []"
      by (auto simp: set_finish_order filter_empty_conv)
    then show ?thesis by (simp add: without_keys_def ho)
  qed
  then show ?thesis
    unfolding finishAll_eq [OF da] finishAll_eq [OF db] fo rg ok ho ko go by simp
qed


text \<open>Two live states, in both orders.\<close>

definition example_states :: "(streamOutputKey \<times> streamOutputState) list" where
  "example_states =
     a_states (chat_delta (chat_delta (NewStreamAccumulator 100) 0 (no_streamDelta\<lparr>d_content := ''b''\<rparr>) 1)
       1 (no_streamDelta\<lparr>d_reasoning := ''r''\<rparr>) 2)"

lemma finishAll_order_independent_witness:
  "finishAll ((NewStreamAccumulator 100)\<lparr>a_groups := map key_group (map fst example_states), a_createdParts := 2,
      a_states := rev example_states\<rparr>) 9 True False [] =
   finishAll ((NewStreamAccumulator 100)\<lparr>a_groups := map key_group (map fst example_states), a_createdParts := 2,
      a_states := example_states\<rparr>) 9 True False []"
proof -
  let ?a = "(NewStreamAccumulator 100)\<lparr>a_groups := map key_group (map fst example_states), a_createdParts := 2,
      a_states := example_states\<rparr>"
  define a1 where "a1 = chat_delta (NewStreamAccumulator 100) 0 (no_streamDelta\<lparr>d_content := ''b''\<rparr>) 1"
  define a2 where "a2 = chat_delta a1 1 (no_streamDelta\<lparr>d_reasoning := ''r''\<rparr>) 2"
  have "acc_inv 100 (NewStreamAccumulator 100)"
    using NewStreamAccumulator_inv [of 100] by (simp add: NewStreamAccumulator_def Let_def)
  then have "acc_inv 100 a2"
    unfolding a1_def a2_def by (blast intro: emits_inv chat_delta_emits)
  moreover have "a2 = ?a"
    unfolding a1_def a2_def by code_simp
  ultimately have "acc_inv 100 ?a" by simp
  moreover have "list_all (\<lambda>e. int64_ok (key_contentIndex (fst e))) (a_states ?a)" by code_simp
  moreover have "mset (rev example_states) = mset (a_states ?a)" by simp
  ultimately have "finishAll (?a\<lparr>a_states := rev example_states\<rparr>) 9 True False [] = finishAll ?a 9 True False []"
    by (rule finishAll_order_independent)
  then show ?thesis by simp
qed

text \<open>
  The parts of a Responses item are merged with the text parts first, by content index,
  then the summary parts, by summary index: \<open>part_less\<close>, the comparison the code sorts with, is
  the lexicographic order of \<open>part_rank\<close>, and below the largest index a summary part is
  filed under a negative content index of its own.
\<close>

lemma part_order:
  assumes "int64_ok i" and "int64_ok j" and "0 \<le> s" and "s < 2 ^ 63 - 1"
  shows "(part_less i j \<longleftrightarrow> fst (part_rank i) < fst (part_rank j) \<or>
            fst (part_rank i) = fst (part_rank j) \<and> snd (part_rank i) < snd (part_rank j)) \<and>
         (part_rank i = part_rank j \<longleftrightarrow> i = j) \<and>
         summary_content_index s < 0 \<and> part_rank (summary_content_index s) = (True, s)"
  using assms part_rank_inj [of i j]
  by (auto simp: part_less_def part_rank_def summary_content_index_def int64_ok_def wrap64_def Let_def)

lemma part_order_witness:
  "(part_less 3 (-2) \<longleftrightarrow> fst (part_rank 3) < fst (part_rank (-2)) \<or>
            fst (part_rank 3) = fst (part_rank (-2)) \<and> snd (part_rank 3) < snd (part_rank (-2))) \<and>
   (part_rank 3 = part_rank (-2) \<longleftrightarrow> (3::int) = -2) \<and>
   summary_content_index 7 < 0 \<and> part_rank (summary_content_index 7) = (True, 7)"
  by (rule part_order) (simp_all add: int64_ok_def)

text \<open>
  The largest index is an exception: \<open>-2 - summaryIndex\<close> wraps around, so the summary part
  with index 2^63-1 is collected under the same key as the text part with that index.
\<close>

lemma summary_index_wraps:
  "response_text_key StreamOutputReasoning i (summary_content_index (2 ^ 63 - 1)) =
   response_text_key StreamOutputReasoning i (2 ^ 63 - 1)"
  by (simp add: summary_content_index_def wrap64_def)

end
