(* ===== verification/Stream_Texts.thy ===== *)
theory Stream_Texts
  imports Stream_Results
begin

text \<open>
  The texts of a Responses item that was finished: its parts are merged one after the other.
\<close>

subsection \<open>Merging\<close>

lemma merge_part_texts [simp]:
  "st_reasoning (merge_part limit s p) = text_append (st_reasoning s) (so_reasoning p) limit"
  "st_content (merge_part limit s p) = text_append (st_content s) (so_content p) limit"
  "st_refusal (merge_part limit s p) = text_append (st_refusal s) (so_refusal p) limit"
  "st_arguments (merge_part limit s p) = text_append (st_arguments s) (so_arguments p) limit"
  "so_start (st_output (merge_part limit s p)) = min (so_start (st_output s)) (so_start p)"
  "st_failed (merge_part limit s p) = st_failed s" "st_incomplete (merge_part limit s p) = st_incomplete s"
  "st_completed (merge_part limit s p) = st_completed s" "st_shellCommands (merge_part limit s p) = st_shellCommands s"
  by (simp_all add: Let_def min_def)

abbreviation join_texts :: "nat \<Rightarrow> bytes list \<Rightarrow> limitedStreamText" where
  "join_texts limit vs \<equiv> foldl (\<lambda>t v. text_append t v limit) empty_text vs"

lemma merge_parts_texts:
  fixes s parts limit
  defines "r \<equiv> foldl (merge_part limit) s parts"
  shows "st_reasoning r = foldl (\<lambda>t v. text_append t v limit) (st_reasoning s) (map so_reasoning parts)"
    "st_content r = foldl (\<lambda>t v. text_append t v limit) (st_content s) (map so_content parts)"
    "st_refusal r = foldl (\<lambda>t v. text_append t v limit) (st_refusal s) (map so_refusal parts)"
    "st_arguments r = foldl (\<lambda>t v. text_append t v limit) (st_arguments s) (map so_arguments parts)"
    "so_start (st_output r) = foldl min (so_start (st_output s)) (map so_start parts)"
    "st_failed r = st_failed s" "st_incomplete r = st_incomplete s" "st_completed r = st_completed s"
    "st_shellCommands r = st_shellCommands s"
  unfolding r_def by (induction parts arbitrary: s) (simp_all del: merge_part.simps)

lemma merge_statuses:
  "fst (foldl merge_status (c, f, m) parts) \<longleftrightarrow> c \<and> list_all (\<lambda>p. so_complete p \<and> \<not> so_failed p) parts"
  "fst (snd (foldl merge_status (c, f, m) parts)) \<longleftrightarrow> f \<or> list_ex so_failed parts"
  by (induction parts arbitrary: c f m) auto

lemma foldl_min: "foldl min (x::go_time) ys = Min (insert x (set ys))"
proof (induction ys arbitrary: x)
  case (Cons a ys)
  then show ?case by (cases "ys = []") (simp_all add: Min_insert min.assoc)
qed simp

text \<open>
  C34: an item merged from its parts is complete exactly when every part is, and failed exactly
  when some part is; its texts are the texts of the parts one after the other, within the
  limit, and it starts with the earliest part.
\<close>

theorem merge_correct:
  assumes "parts \<noteq> []"
  shows "let out = mergeResponseOutputs a parts at in
     (so_complete out \<longleftrightarrow> list_all (\<lambda>p. so_complete p \<and> \<not> so_failed p) parts) \<and>
     (so_failed out \<longleftrightarrow> list_ex so_failed parts) \<and>
     so_content out = lt_value (join_texts (a_limit a) (map so_content parts)) \<and>
     so_reasoning out = lt_value (join_texts (a_limit a) (map so_reasoning parts)) \<and>
     so_refusal out = lt_value (join_texts (a_limit a) (map so_refusal parts)) \<and>
     so_arguments out = lt_value (join_texts (a_limit a) (map so_arguments parts)) \<and>
     (list_ex so_truncated parts \<longrightarrow> so_truncated out) \<and>
     so_start out = Min (set (map so_start parts)) \<and> so_end out = at"
proof -
  define s0 where "s0 = (new_state (if length parts > 1 then (hd parts)\<lparr>so_hasContentIndex := False\<rparr> else hd parts))\<lparr>st_started := True\<rparr>"
  obtain c f m where st: "foldl merge_status (True, False, []) parts = (c, f, m)"
    by (cases "foldl merge_status (True, False, []) parts")
  have cf: "c = list_all (\<lambda>p. so_complete p \<and> \<not> so_failed p) parts" "f = list_ex so_failed parts"
    using merge_statuses [of True False "[]" parts] by (simp_all add: st)
  have start0: "so_start (st_output s0) = so_start (hd parts)" by (simp add: s0_def new_state_def)
  have start: "foldl min (so_start (hd parts)) (map so_start parts) = Min (set (map so_start parts))"
    using assms by (simp add: foldl_min insert_absorb)
  have s0: "st_failed s0 = False" "st_incomplete s0 = False" "st_completed s0 = False" "st_shellCommands s0 = []"
    "st_reasoning s0 = empty_text" "st_content s0 = empty_text" "st_refusal s0 = empty_text" "st_arguments s0 = empty_text"
    by (simp_all add: s0_def new_state_def)
  show ?thesis
    unfolding mergeResponseOutputs_def Let_def s0_def [symmetric] st prod.case
    by (simp add: finish_state_def Let_def merge_parts_texts s0 start0 start cf)
qed

definition example_part :: "bytes \<Rightarrow> go_time \<Rightarrow> bool \<Rightarrow> StreamOutput" where
  "example_part v t failed =
     (output_of_kind StreamOutputResponse)\<lparr>so_content := v, so_start := t, so_complete := \<not> failed, so_failed := failed\<rparr>"

theorem merge_correct_witness:
  "let parts = [example_part ''ab'' 7 False, example_part ''cd'' 3 True];
       a = NewStreamAccumulator 3; out = mergeResponseOutputs a parts 9 in
     (so_complete out \<longleftrightarrow> list_all (\<lambda>p. so_complete p \<and> \<not> so_failed p) parts) \<and>
     (so_failed out \<longleftrightarrow> list_ex so_failed parts) \<and>
     so_content out = lt_value (join_texts (a_limit a) (map so_content parts)) \<and>
     so_reasoning out = lt_value (join_texts (a_limit a) (map so_reasoning parts)) \<and>
     so_refusal out = lt_value (join_texts (a_limit a) (map so_refusal parts)) \<and>
     so_arguments out = lt_value (join_texts (a_limit a) (map so_arguments parts)) \<and>
     (list_ex so_truncated parts \<longrightarrow> so_truncated out) \<and>
     so_start out = Min (set (map so_start parts)) \<and> so_end out = 9"
  unfolding Let_def by (rule merge_correct [unfolded Let_def]) simp

end
