(* ===== verification/Go_Numbers.thy ===== *)
theory Go_Numbers
  imports Json
begin

text \<open>
  \<open>strconv\<close> as the source uses it: \<open>Atoi\<close>, \<open>Itoa\<close>, and \<open>ParseFloat\<close> of the number literals of
  JSON with the shortest decimal \<open>FormatFloat\<close> gives back. A \<open>float64\<close> that is read from a
  literal is kept as the literal; what the source observes of it is whether the literal is in
  range and whether the shortest decimal of the nearest \<open>float64\<close> has the literal's value.
  Everything is computed with integers.
\<close>

subsection \<open>Literals\<close>

text \<open>Sign, digits before and after the point, and exponent of a number literal.\<close>

record number_literal =
  nl_neg :: bool
  nl_mantissa :: int
  nl_exponent :: int

definition signed_digits :: "bytes \<Rightarrow> int" where
  "signed_digits s =
     (if take 1 s = ''-'' then - digits_value (drop 1 s)
      else if take 1 s = ''+'' then digits_value (drop 1 s) else digits_value s)"

definition number_literal :: "bytes \<Rightarrow> number_literal" where
  "number_literal raw =
     (let neg = (take 1 raw = ''-'');
          s = (if neg then drop 1 raw else raw);
          whole = takeWhile digit s;
          s1 = dropWhile digit s;
          frac = (if take 1 s1 = ''.'' then takeWhile digit (drop 1 s1) else []);
          s2 = (if take 1 s1 = ''.'' then dropWhile digit (drop 1 s1) else s1);
          ex = (if take 1 s2 = ''e'' \<or> take 1 s2 = ''E'' then signed_digits (drop 1 s2) else 0)
      in \<lparr>nl_neg = neg, nl_mantissa = digits_value (whole @ frac), nl_exponent = ex - int (length frac)\<rparr>)"

text \<open>A positive decimal as a fraction; \<open>ten_pow\<close> scales a fraction by a power of ten.\<close>

type_synonym fraction = "int \<times> int"

definition ten_pow :: "int \<Rightarrow> int \<Rightarrow> fraction" where
  "ten_pow m e = (if e \<ge> 0 then (m * 10 ^ nat e, 1) else (m, 10 ^ nat (- e)))"

definition fraction_eq :: "fraction \<Rightarrow> fraction \<Rightarrow> bool" where
  "fraction_eq a b \<longleftrightarrow> fst a * snd b = fst b * snd a"

subsection \<open>The nearest \<open>float64\<close>\<close>

function bit_length :: "int \<Rightarrow> int" where
  "bit_length n = (if n \<le> 0 then 0 else 1 + bit_length (n div 2))"
  by pat_completeness auto
termination
  by (relation "measure nat") auto

declare bit_length.simps [simp del]

definition two_pow :: "fraction \<Rightarrow> int \<Rightarrow> fraction" where
  "two_pow a k = (if k \<ge> 0 then (fst a * 2 ^ nat k, snd a) else (fst a, snd a * 2 ^ nat (- k)))"

definition round_even :: "fraction \<Rightarrow> int" where
  "round_even a =
     (let q = fst a div snd a; r = fst a mod snd a
      in if 2 * r > snd a \<or> (2 * r = snd a \<and> odd q) then q + 1 else q)"

definition floor_log2 :: "fraction \<Rightarrow> int" where
  "floor_log2 a =
     (let t = bit_length (fst a) - bit_length (snd a); b = two_pow a (- t)
      in if fst b \<ge> snd b then t else t - 1)"

text \<open>
  The float64 nearest to a positive fraction, as mantissa and binary exponent: 53 bits, or
  fewer at the exponent -1074; ties go to the even mantissa.
\<close>

definition nearest_float :: "fraction \<Rightarrow> int \<times> int" where
  "nearest_float a =
     (let k = max (floor_log2 a - 52) (-1074); n = round_even (two_pow a (- k))
      in if n = 2 ^ 53 then (2 ^ 52, k + 1) else (n, k))"

definition float_in_range :: "int \<times> int \<Rightarrow> bool" where
  "float_in_range f \<longleftrightarrow> snd f \<le> 971"

text \<open>\<open>strconv.ParseFloat(raw, 64)\<close> fails on a JSON literal only when it is out of range.\<close>

definition parse_float_ok :: "bytes \<Rightarrow> bool" where
  "parse_float_ok raw =
     (let l = number_literal raw
      in nl_mantissa l = 0 \<or> float_in_range (nearest_float (ten_pow (nl_mantissa l) (nl_exponent l))))"

subsection \<open>The shortest decimal\<close>

text \<open>The exponent \<open>x\<close> with \<open>10^x \<le> a < 10^(x+1)\<close> of a positive fraction.\<close>

function digit_count :: "int \<Rightarrow> int" where
  "digit_count n = (if n \<le> 0 then 0 else 1 + digit_count (n div 10))"
  by pat_completeness auto
termination
  by (relation "measure nat") auto

declare digit_count.simps [simp del]

definition decimal_exponent :: "fraction \<Rightarrow> int" where
  "decimal_exponent a =
     (if fst a \<ge> snd a then digit_count (fst a div snd a) - 1
      else - digit_count ((snd a - 1) div fst a))"

definition scale10 :: "fraction \<Rightarrow> int \<Rightarrow> fraction" where
  "scale10 a s = (if s \<ge> 0 then (fst a * 10 ^ nat s, snd a) else (fst a, snd a * 10 ^ nat (- s)))"

text \<open>
  With \<open>d\<close> digits: the decimals just below and above the value, whichever read back as the
  same float64; the nearer one when both do.
\<close>

definition round_digits :: "int \<times> int \<Rightarrow> fraction \<Rightarrow> int \<Rightarrow> (int \<times> int) option" where
  "round_digits f v d =
     (let s = decimal_exponent v - d + 1;
          w = scale10 v (- s);
          low = fst w div snd w;
          high = (if fst w mod snd w = 0 then low else low + 1);
          ok = (\<lambda>n. n > 0 \<and> nearest_float (ten_pow n s) = f)
      in if ok low \<and> ok high then Some (round_even w, s)
         else if ok low then Some (low, s)
         else if ok high then Some (high, s)
         else None)"

definition shortest_decimal :: "int \<times> int \<Rightarrow> int \<times> int" where
  "shortest_decimal f =
     (let v = two_pow (fst f, 1) (snd f)
      in case List.map_filter (round_digits f v) [1..17] of d # _ \<Rightarrow> d | [] \<Rightarrow> (0, 0))"

text \<open>
  The comparison of the literal with \<open>FormatFloat(number, 'g', -1, 64)\<close> as rationals: a literal
  other than zero that is rounded to zero differs from it.
\<close>

definition float_is_exact :: "bytes \<Rightarrow> bool" where
  "float_is_exact raw =
     (let l = number_literal raw; a = ten_pow (nl_mantissa l) (nl_exponent l); f = nearest_float a
      in nl_mantissa l = 0 \<or>
         (fst f \<noteq> 0 \<and> (let (n, s) = shortest_decimal f in fraction_eq a (ten_pow n s))))"

subsection \<open>Integers\<close>

function nat_digits :: "int \<Rightarrow> bytes" where
  "nat_digits n =
     (if n < 10 then [char_of (0x30 + nat n)] else nat_digits (n div 10) @ [char_of (0x30 + nat (n mod 10))])"
  by pat_completeness auto
termination
  by (relation "measure nat") auto

declare nat_digits.simps [simp del]

definition itoa :: "int \<Rightarrow> bytes" where
  "itoa i = (if i < 0 then CHR ''-'' # nat_digits (- i) else nat_digits i)"

text \<open>\<open>strconv.Atoi\<close> and \<open>strconv.ParseInt(s, 10, 64)\<close>: an optional sign and decimal digits, in range.\<close>

definition atoi :: "bytes \<Rightarrow> int option" where
  "atoi s = (if take 1 s = ''+'' then (if take 1 (drop 1 s) = ''-'' then None else parse_int64 (drop 1 s)) else parse_int64 s)"

text \<open>A pointer to a \<open>float64\<close> read from JSON; the value is its literal.\<close>

definition dec_float :: "bytes decoder" where
  "dec_float raw old =
     (if raw = json_null then Some old
      else if (take 1 raw = ''-'' \<or> (raw \<noteq> [] \<and> digit (hd raw))) \<and> parse_float_ok raw then Some raw else None)"

end
