(* ===== verification/Json_Values.thy ===== *)
theory Json_Values
  imports Go_Numbers
begin

text \<open>
  JSON texts written by a printer and read back: the scanner accepts a printed value, the
  members and elements split off it are the ones that were printed, and the decoders return
  the strings and numbers that were printed. \<open>json_value n v\<close> says what the proofs need of a
  value's text \<open>v\<close> that nests at most \<open>n\<close> deep; strings, numbers, \<open>null\<close>, arrays and objects
  have it. The strings are printed by the library's encoder (\<open>marshal_string\<close>), and the
  numbers by \<open>strconv.Itoa\<close>.
\<close>

subsection \<open>Splitting\<close>

text \<open>A text in front of what the rest of an input is split into.\<close>

fun in_front :: "bytes \<Rightarrow> bytes list \<Rightarrow> bytes list" where
  "in_front s [] = [s]"
| "in_front s (x # xs) = (s @ x) # xs"

lemma in_front_append [simp]: "in_front s (in_front t xs) = in_front (s @ t) xs"
  by (cases xs) simp_all

lemma in_front_case: "(case xs of [] \<Rightarrow> [[c]] | x # ys \<Rightarrow> (c # x) # ys) = in_front [c] xs"
  by (cases xs) simp_all

lemma split_top_ne [simp]: "split_top sep d inside esc s \<noteq> []"
  by (cases s) (auto split: list.splits)

lemma in_front_Nil [simp]: "xs \<noteq> [] \<Longrightarrow> in_front [] xs = xs"
  by (cases xs) simp_all

definition skipped :: "char \<Rightarrow> nat \<Rightarrow> bytes \<Rightarrow> bool" where
  "skipped sep d s \<longleftrightarrow>
     (\<forall>rest. split_top sep d False False (s @ rest) = in_front s (split_top sep d False False rest))"

lemma skippedD: "skipped sep d s \<Longrightarrow> split_top sep d False False (s @ rest) = in_front s (split_top sep d False False rest)"
  by (simp add: skipped_def)

lemma skipped_Nil [simp]: "skipped sep d []"
  by (simp add: skipped_def)

lemma skipped_append [intro]: "skipped sep d s \<Longrightarrow> skipped sep d t \<Longrightarrow> skipped sep d (s @ t)"
  by (simp add: skipped_def)

lemma skipped_char:
  "c \<notin> {quote, CHR ''{'', CHR ''['', CHR ''}'', CHR '']''} \<Longrightarrow> c \<noteq> sep \<or> d \<noteq> 0 \<Longrightarrow> skipped sep d [c]"
  by (auto simp: skipped_def in_front_case)

lemma skipped_bracket:
  assumes "skipped sep (Suc d) s" and "(a, b) \<in> {(CHR ''{'', CHR ''}''), (CHR ''['', CHR '']'')}" and "sep \<notin> {a, b}"
  shows "skipped sep d (a # s @ [b])"
  using assms by (auto simp: skipped_def in_front_case)

lemma split_top_sep: "split_top sep 0 False False (sep # s) = [] # split_top sep 0 False False s"
  by simp

subsection \<open>Strings\<close>

definition in_string :: "bytes \<Rightarrow> bool" where
  "in_string s \<longleftrightarrow>
     (\<forall>st. foldl scan_step (InString, st) s = (InString, st)) \<and>
     (\<forall>sep d rest. split_top sep d True False (s @ rest) = in_front s (split_top sep d True False rest))"

lemma in_string_Nil [simp]: "in_string []"
  by (simp add: in_string_def)

lemma in_string_append: "in_string s \<Longrightarrow> in_string t \<Longrightarrow> in_string (s @ t)"
  by (simp add: in_string_def)

lemma in_string_char:
  assumes "c \<noteq> quote" "c \<noteq> backslash" "0x20 \<le> byte c"
  shows "in_string [c]"
  using assms by (simp add: in_string_def in_front_case)

lemma in_string_high: "\<forall>c \<in> set s. 0x80 \<le> byte c \<Longrightarrow> in_string s"
proof (induction s)
  case (Cons c s)
  then have "in_string [c]" by (intro in_string_char) auto
  from in_string_append [OF this Cons.IH] Cons.prems show ?case by simp
qed simp

lemma in_string_escape:
  assumes "c \<in> {CHR ''b'', CHR ''f'', CHR ''n'', CHR ''r'', CHR ''t'', backslash, CHR ''/'', quote}"
  shows "in_string [backslash, c]"
  using assms by (auto simp: in_string_def in_front_case)

lemma in_string_unicode:
  assumes "hex_digit a" "hex_digit b" "hex_digit c" "hex_digit d"
  shows "in_string [backslash, CHR ''u'', a, b, c, d]"
proof -
  have "x \<noteq> quote \<and> x \<noteq> backslash" if "hex_digit x" for x
    using that by (auto simp: hex_digit_def digit_def)
  with assms show ?thesis by (simp add: in_string_def in_front_case)
qed

lemma hex_char [simp]:
  assumes "n < 16"
  shows "hex_digit (hex_char n)" "hex_value (hex_char n) = n"
  using assms by (cases "n < 10"; simp add: hex_char_def hex_digit_def hex_value_def digit_def)+

lemma byte_less_256: "byte c < 256"
  by (cases c) (simp add: of_char_def)

lemma in_string_ascii: "in_string (escape_ascii c)"
proof -
  have "byte c div 16 < 16" using byte_less_256 [of c] by (simp add: less_mult_imp_div_less)
  moreover have "0x20 \<le> byte c \<Longrightarrow> c \<noteq> quote \<Longrightarrow> c \<noteq> backslash \<Longrightarrow> in_string [c]" by (rule in_string_char)
  ultimately show ?thesis
    by (auto simp: escape_ascii_def intro!: in_string_escape in_string_unicode)
      (simp_all add: hex_digit_def digit_def)
qed

lemma rune_bytes_high:
  assumes "0 < rune_width (c # cs)" "0x80 \<le> byte c"
  shows "\<forall>x \<in> set (take (rune_width (c # cs)) (c # cs)). 0x80 \<le> byte x"
proof
  fix x assume "x \<in> set (take (rune_width (c # cs)) (c # cs))"
  then obtain i where i: "i < rune_width (c # cs)" "x = (c # cs) ! i" by (auto simp: in_set_conv_nth)
  with rune_width_pos_shape(2) [OF assms(1), of i] assms(2) show "0x80 \<le> byte x"
    by (cases i) (auto simp: cont_byte_def)
qed

text \<open>The ways \<open>quote_string\<close> continues.\<close>

lemma quote_cases:
  assumes "s \<noteq> []"
  obtains (ascii) c t where "s = c # t" "byte c < 0x80" "quote_string s = escape_ascii c @ quote_string t"
  | (invalid) c t where "s = c # t" "rune_width s = 0" "quote_string s = (backslash # ''ufffd'') @ quote_string t"
  | (separator) x t where "s = [CHR 0xE2, CHR 0x80, x] @ t" "x = CHR 0xA8 \<or> x = CHR 0xA9"
      "quote_string s = (backslash # ''u202'' @ [if x = CHR 0xA8 then CHR ''8'' else CHR ''9'']) @ quote_string t"
  | (rune) u t where "s = u @ t" "u \<noteq> []" "rune_width s = length u" "\<forall>x \<in> set u. 0x80 \<le> byte x"
      "quote_string s = u @ quote_string t"
proof -
  obtain c cs where s: "s = c # cs" using assms by (cases s) auto
  note q = quote_string.simps [of s, unfolded s list.case]
  have split: "take n s = u \<Longrightarrow> s = u @ drop n s" for n u by auto
  consider "byte c < 0x80" | "\<not> byte c < 0x80" "rune_width s = 0"
    | "\<not> byte c < 0x80" "rune_width s \<noteq> 0" "take 3 s = [CHR 0xE2, CHR 0x80, CHR 0xA8]"
    | "\<not> byte c < 0x80" "rune_width s \<noteq> 0" "take 3 s = [CHR 0xE2, CHR 0x80, CHR 0xA9]"
    | "\<not> byte c < 0x80" "rune_width s \<noteq> 0" "take 3 s \<noteq> [CHR 0xE2, CHR 0x80, CHR 0xA8]" "take 3 s \<noteq> [CHR 0xE2, CHR 0x80, CHR 0xA9]"
    by blast
  then show ?thesis
  proof cases
    case 1
    with s q show ?thesis by (intro ascii [of c cs]) simp_all
  next
    case 2
    with s q show ?thesis by (intro invalid [of c cs]) (simp_all del: rune_width.simps)
  next
    case 3
    then have "quote_string s = (backslash # ''u2028'') @ quote_string (drop 3 s)"
      unfolding s q by (simp only: if_False if_True) simp
    with 3 split [OF 3(3)] show ?thesis by (intro separator [of "CHR 0xA8" "drop 3 s"]) simp_all
  next
    case 4
    then have "quote_string s = (backslash # ''u2029'') @ quote_string (drop 3 s)"
      unfolding s q by (simp only: if_False if_True) simp
    with 4 split [OF 4(3)] show ?thesis by (intro separator [of "CHR 0xA9" "drop 3 s"]) simp_all
  next
    case 5
    then have "quote_string s = take (rune_width s) s @ quote_string (drop (rune_width s) s)"
      unfolding s q by (simp only: if_False)
    moreover have "\<forall>x \<in> set (take (rune_width s) s). 0x80 \<le> byte x"
      using rune_bytes_high [of c cs] 5 s by simp
    ultimately show ?thesis using 5 assms rune_width_le [of s]
      by (intro rune [of "take (rune_width s) s" "drop (rune_width s) s"]) simp_all
  qed
qed

lemma in_string_quoted: "in_string (quote_string s)"
proof (induction s rule: length_induct)
  case (1 s)
  show ?case
  proof (cases "s = []")
    case True
    then show ?thesis by (simp add: quote_string.simps)
  next
    case False
    have esc: "in_string (backslash # ''ufffd'')" "in_string (backslash # ''u202'' @ [if b then CHR ''8'' else CHR ''9''])" for b
      by (simp_all add: in_string_unicode hex_digit_def digit_def)
    from False show ?thesis
    proof (cases s rule: quote_cases)
      case (ascii c t)
      with 1 show ?thesis by (simp add: in_string_append in_string_ascii)
    next
      case (invalid c t)
      with 1 in_string_append [OF esc(1), of "quote_string t"] show ?thesis by simp
    next
      case (separator x t)
      with 1 in_string_append [OF esc(2) [of "x = CHR 0xA8"], of "quote_string t"] show ?thesis by simp
    next
      case (rune u t)
      with 1 show ?thesis by (simp add: in_string_append in_string_high)
    qed
  qed
qed

text \<open>What is printed is read back.\<close>

lemma unquote_plain: "c \<noteq> backslash \<Longrightarrow> byte c < 0x80 \<Longrightarrow> unquote (c # s) = c # unquote s"
  by (subst unquote.simps) simp

lemma unquote_simple: "c \<noteq> CHR ''u'' \<Longrightarrow> unquote (backslash # c # s) = simple_escape c @ unquote s"
  by (subst unquote.simps) (simp add: getu4_def)

lemma unquote_unicode:
  assumes "hex4 [a, b, c, d] = Some r" "r < 0xD800"
  shows "unquote (backslash # CHR ''u'' # a # b # c # d # s) = encode_rune r @ unquote s"
  using assms by (subst unquote.simps) (simp add: getu4_def split: if_splits)

lemma unquote_ascii:
  assumes "byte c < 0x80"
  shows "unquote (escape_ascii c @ s) = c # unquote s"
proof -
  have "hex4 [CHR ''0'', CHR ''0'', hex_char (byte c div 16), hex_char (byte c mod 16)] = Some (byte c)"
    using assms by (simp add: hex_digit_def [of "CHR ''0''"] hex_value_def [of "CHR ''0''"] digit_def [of "CHR ''0''"] less_mult_imp_div_less)
  from unquote_unicode [OF this, of s] assms have
    "unquote (backslash # CHR ''u'' # CHR ''0'' # CHR ''0'' # hex_char (byte c div 16) # hex_char (byte c mod 16) # s) = c # unquote s"
    by (simp add: encode_rune_def)
  then show ?thesis
    using assms by (simp add: escape_ascii_def unquote_plain unquote_simple simple_escape_def)
qed

lemma unquote_rune:
  assumes "rune_width (u @ t) = length u" "u \<noteq> []" "\<forall>x \<in> set u. 0x80 \<le> byte x"
  shows "unquote (u @ s) = u @ unquote s"
proof -
  obtain c cs where u: "u = c # cs" using assms by (cases u) auto
  have w: "rune_width u = length u"
    using assms by (auto simp: u Let_def split: list.splits if_splits)
  then have "rune_width (u @ s) = length u" using rune_width_append [of u s] assms by simp
  moreover have "c \<noteq> backslash" using assms u by auto
  ultimately show ?thesis
    using u by (subst unquote.simps) (simp del: rune_width.simps)
qed

lemma unquote_quote: "valid_utf8 s \<Longrightarrow> unquote (quote_string s) = s"
proof (induction s rule: length_induct)
  case (1 s)
  show ?case
  proof (cases "s = []")
    case True
    then show ?thesis by (simp add: quote_string.simps unquote.simps)
  next
    case False
    with "1.prems" have w: "rune_width s \<noteq> 0" and v: "valid_utf8 (drop (rune_width s) s)"
      by (subst (asm) valid_utf8.simps, auto split: if_splits)+
    from False show ?thesis
    proof (cases s rule: quote_cases)
      case (ascii c t)
      with v 1 show ?thesis by (simp add: unquote_ascii)
    next
      case (invalid c t)
      with w show ?thesis by simp
    next
      case (separator x t)
      then have "rune_width s = 3" by (auto simp: cont_byte_def second_ok_def)
      with v 1 separator have "unquote (quote_string t) = t" by simp
      moreover have "unquote ((backslash # ''u202'' @ [if x = CHR 0xA8 then CHR ''8'' else CHR ''9'']) @ quote_string t) =
          [CHR 0xE2, CHR 0x80, x] @ unquote (quote_string t)"
        using separator(2)
        by (auto simp: unquote_unicode [where r = "0x2028"] unquote_unicode [where r = "0x2029"] encode_rune_def
            hex_digit_def hex_value_def digit_def char_of_def bit_0)
      ultimately show ?thesis using separator by simp
    next
      case (rune u t)
      with v 1 have "unquote (quote_string t) = t" by simp
      with rune unquote_rune [of u t "quote_string t"] show ?thesis by simp
    qed
  qed
qed

subsection \<open>Values\<close>

text \<open>After a value the scanner expects what may follow one; a number ends with the next byte.\<close>

definition number_byte :: "char \<Rightarrow> bool" where
  "number_byte c \<longleftrightarrow> digit c \<or> c = CHR ''.'' \<or> c = CHR ''e'' \<or> c = CHR ''E''"

definition value_end :: "scanner \<Rightarrow> json_ctx list \<Rightarrow> bool" where
  "value_end q st \<longleftrightarrow> (\<forall>c. \<not> number_byte c \<longrightarrow> scan_step q c = end_value st c)"

lemma value_endI: "value_end (EndValue, st) st" "value_end (pop_ctx (x # st)) st" "value_end (Digits, st) st" "value_end (Zero, st) st"
  by (cases st; auto simp: value_end_def number_byte_def)+

definition json_value :: "nat \<Rightarrow> bytes \<Rightarrow> bool" where
  "json_value n v \<longleftrightarrow>
     v \<noteq> [] \<and> \<not> json_space (hd v) \<and> hd v \<noteq> CHR '']'' \<and> \<not> json_space (last v) \<and>
     (\<forall>st. length st + n \<le> maxNestingDepth \<longrightarrow> value_end (foldl scan_step (BeginValue, st) v) st) \<and>
     (\<forall>sep d. sep \<in> {CHR '','', CHR '':''} \<longrightarrow> skipped sep d v)"

lemma json_value_scan:
  "json_value n v \<Longrightarrow> length st + n \<le> maxNestingDepth \<Longrightarrow> \<not> number_byte c \<Longrightarrow>
     scan_step (foldl scan_step (BeginValue, st) v) c = end_value st c"
  by (simp add: json_value_def value_end_def)

lemma json_value_scan_or_empty:
  assumes "json_value n v"
  shows "foldl scan_step (BeginValueOrEmpty, st) v = foldl scan_step (BeginValue, st) v"
  using assms by (cases v) (simp_all add: json_value_def)

lemma json_value_skipped: "json_value n v \<Longrightarrow> sep = CHR '','' \<or> sep = CHR '':'' \<Longrightarrow> skipped sep d v"
  by (auto simp: json_value_def)

lemma json_value_mono: "json_value n v \<Longrightarrow> n \<le> m \<Longrightarrow> json_value m v"
  by (simp add: json_value_def)

lemma trim_json_id:
  assumes "v \<noteq> []" "\<not> json_space (hd v)" "\<not> json_space (last v)"
  shows "trim_json v = v"
proof -
  have "dropWhile json_space v = v" using assms by (cases v) simp_all
  moreover have "dropWhile json_space (rev v) = rev v"
    using assms by (cases v rule: rev_cases) simp_all
  ultimately show ?thesis by (simp add: trim_json_def)
qed

lemma json_value_trim [simp]: "json_value n v \<Longrightarrow> trim_json v = v"
  by (simp add: json_value_def trim_json_id)

lemma json_value_valid: "json_value n v \<Longrightarrow> n \<le> maxNestingDepth \<Longrightarrow> json_valid v"
  using json_value_scan [of n v "[]" "CHR '' ''"]
  by (simp add: json_valid_def number_byte_def digit_def json_space_def)

lemma unmarshal_value: "json_value n v \<Longrightarrow> n \<le> maxNestingDepth \<Longrightarrow> unmarshal d v old = d v old"
  by (simp add: unmarshal_def json_value_valid)

subsubsection \<open>Strings, numbers and \<open>null\<close>\<close>

lemma marshal_string_skipped:
  assumes "sep \<noteq> quote"
  shows "skipped sep d (marshal_string s)"
proof -
  have "split_top sep d True False (quote_string s @ [quote] @ rest) =
      in_front (quote_string s) (in_front [quote] (split_top sep d False False rest))" for rest
    using in_string_quoted [of s] by (simp add: in_string_def in_front_case)
  then show ?thesis using assms by (simp add: skipped_def marshal_string_def in_front_case)
qed

lemma string_value: "json_value n (marshal_string s)"
proof -
  have "foldl scan_step (InString, st) (quote_string s) = (InString, st)" for st
    using in_string_quoted [of s] by (simp add: in_string_def)
  then have "foldl scan_step (BeginValue, st) (marshal_string s) = (EndValue, st)" for st
    by (simp add: marshal_string_def begin_value_def json_space_def)
  then show ?thesis
    by (auto simp: json_value_def value_endI marshal_string_skipped) (simp_all add: marshal_string_def json_space_def)
qed

lemma null_value: "json_value n json_null"
proof -
  have "skipped sep d json_null" if "sep \<in> {CHR '','', CHR '':''}" for sep d
    using that by (auto simp: skipped_def in_front_case)
  moreover have "foldl scan_step (BeginValue, st) json_null = (EndValue, st)" for st
    by (simp add: begin_value_def json_space_def)
  ultimately show ?thesis
    by (auto simp: json_value_def value_endI json_space_def)
qed

lemma digit_char: "k < 10 \<Longrightarrow> digit (char_of (0x30 + k))" "k < 10 \<Longrightarrow> byte (char_of (0x30 + k)) = 0x30 + k"
  by (simp_all add: digit_def)

lemma nat_digits_digits: "0 \<le> n \<Longrightarrow> \<forall>c \<in> set (nat_digits n). digit c"
  by (induction n rule: nat_digits.induct) (subst nat_digits.simps, auto simp: digit_char nat_less_iff)

lemma nat_digits_ne [simp]: "nat_digits n \<noteq> []"
  by (subst nat_digits.simps) simp

lemma nat_digits_hd: "0 < n \<Longrightarrow> hd (nat_digits n) \<noteq> CHR ''0''"
proof (induction n rule: nat_digits.induct)
  case (1 n)
  show ?case
  proof (cases "n < 10")
    case True
    have "char_of (0x30 + nat n) \<noteq> CHR ''0''"
    proof
      assume "char_of (0x30 + nat n) = CHR ''0''"
      then have "byte (char_of (0x30 + nat n)) = byte CHR ''0''" by simp
      with digit_char(2) [of "nat n"] True "1.prems" show False by simp
    qed
    with True show ?thesis by (subst nat_digits.simps) simp
  next
    case False
    with 1 show ?thesis by (subst nat_digits.simps) simp
  qed
qed

lemma digits_value_nat: "0 \<le> n \<Longrightarrow> digits_value (nat_digits n) = n"
proof (induction n rule: nat_digits.induct)
  case (1 n)
  then show ?case
    by (subst nat_digits.simps) (auto simp: digits_value_def digit_char nat_less_iff)
qed

lemma number_value:
  assumes "0 \<le> i"
  shows "json_value n (itoa i)"
proof -
  have it: "itoa i = nat_digits i" using assms by (simp add: itoa_def)
  have dg: "\<forall>c \<in> set (nat_digits i). digit c" using assms by (rule nat_digits_digits)
  have digits: "foldl scan_step (Digits, st) s = (Digits, st)" if "\<forall>c \<in> set s. digit c" for s st
    using that by (induction s) auto
  have nospace: "digit c \<Longrightarrow> \<not> json_space c" for c by (auto simp: json_space_def digit_def)
  have scan: "value_end (foldl scan_step (BeginValue, st) (nat_digits i)) st" for st
  proof (cases "i = 0")
    case True
    have "nat_digits 0 = ''0''" by (subst nat_digits.simps) (simp add: char_of_def bit_0)
    then show ?thesis by (simp add: True begin_value_def json_space_def value_endI)
  next
    case False
    then obtain c cs where c: "nat_digits i = c # cs" "c \<noteq> CHR ''0''"
      using nat_digits_hd [of i] assms by (cases "nat_digits i") auto
    then have "digit c" "\<forall>x \<in> set cs. digit x" using dg by auto
    have "x \<notin> {CHR ''{'', CHR ''['', quote, CHR ''-'', CHR ''t'', CHR ''f'', CHR ''n''}" if "digit x" for x
      using that by (auto simp: digit_def)
    with c \<open>digit c\<close> have "begin_value st c = (Digits, st)" by (simp add: begin_value_def nospace)
    with c digits [of cs] \<open>\<forall>x \<in> set cs. digit x\<close> show ?thesis by (simp add: value_endI)
  qed
  have "skipped sep d s" if "\<forall>c \<in> set s. digit c" "\<not> digit sep" for sep d s
    using that(1)
  proof (induction s)
    case (Cons c s)
    have "skipped sep d [c]" using Cons.prems that(2) by (intro skipped_char) (auto simp: digit_def)
    with Cons skipped_append [of sep d "[c]" s] show ?case by simp
  qed simp
  with dg have "skipped sep d (nat_digits i)" if "sep \<in> {CHR '','', CHR '':''}" for sep d
    using that by (auto simp: digit_def)
  moreover have "digit (hd (nat_digits i))" "digit (last (nat_digits i))" using dg by auto
  moreover have "digit c \<Longrightarrow> c \<noteq> CHR '']''" for c by (auto simp: digit_def)
  ultimately show ?thesis unfolding json_value_def it using scan nospace by simp
qed

subsubsection \<open>Arrays and objects\<close>

definition json_array :: "bytes list \<Rightarrow> bytes" where
  "json_array vs = ''['' @ join_with '','' vs @ '']''"

fun json_field :: "bytes \<times> bytes \<Rightarrow> bytes" where
  "json_field (k, v) = marshal_string k @ '':'' @ v"

definition json_object :: "(bytes \<times> bytes) list \<Rightarrow> bytes" where
  "json_object ms = ''{'' @ join_with '','' (map json_field ms) @ ''}''"

lemma join_with_Cons: "join_with sep (v # vs) = (if vs = [] then v else v @ sep @ join_with sep vs)"
  by (cases vs) simp_all

text \<open>What separates the parts, and where the parts are found again.\<close>

lemma join_skipped:
  assumes "\<forall>v \<in> set vs. skipped sep d v" "d \<noteq> 0 \<or> sep \<noteq> CHR '',''"
  shows "skipped sep d (join_with '','' vs)"
  using assms
proof (induction vs)
  case (Cons v vs)
  have "skipped sep d '',''" using Cons.prems(2) by (intro skipped_char) auto
  with Cons show ?case by (auto simp: join_with_Cons intro!: skipped_append skipped_append [of sep d "'',''", simplified])
qed simp

lemma split_top_join:
  assumes "\<forall>v \<in> set vs. skipped (CHR '','') 0 v" "vs \<noteq> []"
  shows "split_top (CHR '','') 0 False False (join_with '','' vs) = vs"
  using assms
proof (induction vs)
  case (Cons v vs)
  show ?case
  proof (cases "vs = []")
    case True
    with Cons.prems skippedD [of "CHR '',''" 0 v "[]"] show ?thesis by (simp add: join_with_Cons)
  next
    case False
    with Cons skippedD [of "CHR '',''" 0 v "CHR '','' # join_with '','' vs"] show ?thesis
      by (simp add: join_with_Cons)
  qed
qed simp

definition json_part :: "bytes \<Rightarrow> bool" where
  "json_part v \<longleftrightarrow> v \<noteq> [] \<and> \<not> json_space (hd v) \<and> \<not> json_space (last v) \<and> (\<forall>d. skipped (CHR '','') d v)"

lemma json_elements_join:
  assumes "\<forall>v \<in> set vs. json_part v"
  shows "json_elements (a # join_with '','' vs @ [b]) = vs"
proof (cases "vs = []")
  case True
  then show ?thesis by (simp add: json_elements_def json_inner_def trim_json_def)
next
  case False
  have "hd (join_with '','' vs) = hd (hd vs) \<and> join_with '','' vs \<noteq> []"
    using assms False by (cases vs) (auto simp: join_with_Cons json_part_def)
  moreover have "json_part (hd vs)" using assms False by simp
  ultimately have "trim_json (join_with '','' vs) \<noteq> []"
    by (cases "join_with '','' vs") (auto simp: trim_json_def json_part_def)
  moreover have "map trim_json vs = vs"
    using assms by (auto simp: json_part_def trim_json_id intro: map_idI)
  moreover have "split_top (CHR '','') 0 False False (join_with '','' vs) = vs"
    using assms False by (intro split_top_join) (auto simp: json_part_def)
  ultimately show ?thesis by (simp add: json_elements_def json_inner_def)
qed

lemma value_part: "json_value n v \<Longrightarrow> json_part v"
  by (auto simp: json_part_def json_value_def)

lemma field_skipped:
  assumes "json_value n v" "sep = CHR '','' \<or> sep = CHR '':'' \<and> d \<noteq> 0"
  shows "skipped sep d (json_field (k, v))"
proof -
  have "skipped sep d '':''" using assms by (intro skipped_char) auto
  moreover have "skipped sep d (marshal_string k)" using assms by (intro marshal_string_skipped) auto
  moreover have "skipped sep d v" using assms by (intro json_value_skipped) auto
  ultimately show ?thesis unfolding json_field.simps by (intro skipped_append)
qed

lemma field_part:
  assumes "json_value n v"
  shows "json_part (json_field (k, v))"
proof -
  have "skipped (CHR '','') d (json_field (k, v))" for d using assms by (intro field_skipped) simp_all
  moreover have "v \<noteq> []" using assms by (simp add: json_value_def)
  ultimately show ?thesis using assms by (simp add: json_part_def json_value_def marshal_string_def json_space_def)
qed

lemma json_member_field:
  assumes "json_value n v"
  shows "json_member (json_field (k, v)) = (marshal_string k, v)"
proof -
  have "skipped (CHR '':'') 0 (marshal_string k)" by (rule marshal_string_skipped) simp
  from skippedD [OF this] have "split_top (CHR '':'') 0 False False (json_field (k, v)) =
      in_front (marshal_string k) ([] # split_top (CHR '':'') 0 False False v)"
    by simp
  also have "split_top (CHR '':'') 0 False False v = [v]"
    using skippedD [OF json_value_skipped [OF assms], of "CHR '':''" 0 "[]"] by simp
  finally show ?thesis using assms string_value [of 0 k] by (simp add: json_member_def)
qed

lemma array_elements:
  assumes "\<forall>v \<in> set vs. json_value n v"
  shows "json_elements (json_array vs) = vs"
proof -
  have "\<forall>v \<in> set vs. json_part v" using assms by (blast intro: value_part)
  then show ?thesis using json_elements_join [of vs "CHR ''[''" "CHR '']''"] by (simp add: json_array_def)
qed

lemma object_members:
  assumes "\<forall>(k, v) \<in> set ms. json_value n v"
  shows "map json_member (json_elements (json_object ms)) = map (\<lambda>(k, v). (marshal_string k, v)) ms"
proof -
  have "json_elements (json_object ms) = map json_field ms"
    using json_elements_join [of "map json_field ms" "CHR ''{''" "CHR ''}''"] assms field_part
    by (force simp: json_object_def)
  then show ?thesis using assms json_member_field by (auto simp del: json_field.simps)
qed

text \<open>The scanner on the parts of an array and of an object.\<close>

lemma scan_elements:
  assumes "\<forall>v \<in> set vs. json_value n v" "vs \<noteq> []" "Suc (length st) + n \<le> maxNestingDepth"
  shows "foldl scan_step (BeginValue, ArrayValue # st) (join_with '','' vs @ '']'') = pop_ctx (ArrayValue # st)"
  using assms
proof (induction vs)
  case (Cons v vs)
  then have "scan_step (foldl scan_step (BeginValue, ArrayValue # st) v) c = end_value (ArrayValue # st) c"
    if "c = CHR '','' \<or> c = CHR '']''" for c
    using that by (intro json_value_scan) (auto simp: number_byte_def digit_def)
  with Cons show ?case by (auto simp: join_with_Cons json_space_def)
qed simp

lemma scan_name:
  "foldl scan_step (InString, ObjectKey # st) (quote_string k @ [quote] @ '':'') = (BeginValue, ObjectValue # st)"
  using in_string_quoted [of k] by (simp add: in_string_def json_space_def)

lemma scan_field:
  assumes "json_value n v" "Suc (length st) + n \<le> maxNestingDepth" "\<not> number_byte c"
  shows "scan_step (foldl scan_step (BeginString, ObjectKey # st) (json_field (k, v))) c = end_value (ObjectValue # st) c"
proof -
  have "foldl scan_step (BeginString, ObjectKey # st) (json_field (k, v)) = foldl scan_step (BeginValue, ObjectValue # st) v"
    using scan_name [of st k] by (simp add: marshal_string_def begin_string_def json_space_def)
  with json_value_scan [OF assms(1), of "ObjectValue # st"] assms show ?thesis by simp
qed

lemma scan_members:
  assumes "\<forall>(k, v) \<in> set ms. json_value n v" "ms \<noteq> []" "Suc (length st) + n \<le> maxNestingDepth"
  shows "foldl scan_step (BeginString, ObjectKey # st) (join_with '','' (map json_field ms) @ ''}'') = pop_ctx (ObjectValue # st)"
  using assms
proof (induction ms)
  case (Cons m ms)
  obtain k v where m: "m = (k, v)" by (cases m)
  with Cons.prems have "scan_step (foldl scan_step (BeginString, ObjectKey # st) (json_field m)) c = end_value (ObjectValue # st) c"
    if "c = CHR '','' \<or> c = CHR ''}''" for c
    using that scan_field [of n v st c k] by (auto simp: number_byte_def digit_def)
  with Cons show ?case by (auto simp: join_with_Cons json_space_def simp del: json_field.simps)
qed simp

lemma array_value:
  assumes "\<forall>v \<in> set vs. json_value n v"
  shows "json_value (Suc n) (json_array vs)"
proof -
  have "value_end (foldl scan_step (BeginValue, st) (json_array vs)) st" if len: "length st + Suc n \<le> maxNestingDepth" for st
  proof (cases "vs = []")
    case True
    with len value_endI(2) [of ArrayValue st] show ?thesis
      by (simp add: json_array_def begin_value_def json_space_def push_ctx_def)
  next
    case False
    then obtain v ws where v: "vs = v # ws" by (cases vs) auto
    have "foldl scan_step (BeginValueOrEmpty, ArrayValue # st) (join_with '','' vs) = foldl scan_step (BeginValue, ArrayValue # st) (join_with '','' vs)"
      using assms by (simp add: v join_with_Cons json_value_scan_or_empty [of n v])
    with scan_elements [of vs n st] assms False len value_endI(2) [of ArrayValue st] show ?thesis
      by (simp add: json_array_def begin_value_def json_space_def push_ctx_def)
  qed
  moreover have "skipped sep d (json_array vs)" if "sep \<in> {CHR '','', CHR '':''}" for sep d
  proof -
    have "skipped sep (Suc d) (join_with '','' vs)"
      using assms that by (intro join_skipped) (auto intro: json_value_skipped)
    with that show ?thesis
      using skipped_bracket [of sep d "join_with '','' vs" "CHR ''[''" "CHR '']''"] by (auto simp: json_array_def)
  qed
  ultimately show ?thesis by (simp add: json_value_def) (simp add: json_array_def json_space_def)
qed

lemma object_value:
  assumes "\<forall>(k, v) \<in> set ms. json_value n v"
  shows "json_value (Suc n) (json_object ms)"
proof -
  have "value_end (foldl scan_step (BeginValue, st) (json_object ms)) st" if len: "length st + Suc n \<le> maxNestingDepth" for st
  proof (cases "ms = []")
    case True
    with len value_endI(2) [of ObjectValue st] show ?thesis
      by (simp add: json_object_def begin_value_def json_space_def push_ctx_def)
  next
    case False
    then obtain k v ws where v: "ms = (k, v) # ws" by (cases ms) auto
    have "foldl scan_step (BeginStringOrEmpty, ObjectKey # st) (join_with '','' (map json_field ms)) =
        foldl scan_step (BeginString, ObjectKey # st) (join_with '','' (map json_field ms))"
      by (simp add: v join_with_Cons marshal_string_def json_space_def)
    with scan_members [of ms n st] assms False len value_endI(2) [of ObjectValue st] show ?thesis
      by (simp add: json_object_def begin_value_def json_space_def push_ctx_def)
  qed
  moreover have "skipped sep d (json_object ms)" if sep: "sep \<in> {CHR '','', CHR '':''}" for sep d
  proof -
    have "skipped sep (Suc d) (json_field m)" if "m \<in> set ms" for m
      using assms sep that by (cases m) (auto simp del: json_field.simps intro: field_skipped)
    then have "skipped sep (Suc d) (join_with '','' (map json_field ms))" by (intro join_skipped) simp_all
    then show ?thesis
      using sep skipped_bracket [of sep d "join_with '','' (map json_field ms)" "CHR ''{''" "CHR ''}''"]
      by (auto simp: json_object_def)
  qed
  ultimately show ?thesis by (simp add: json_value_def) (simp add: json_object_def json_space_def)
qed

subsection \<open>Decoding what was printed\<close>

lemma hd_marshal [simp]: "take (Suc 0) (marshal_string s) = [quote]" "marshal_string s \<noteq> json_null"
  by (simp_all add: marshal_string_def)

lemma inner_marshal [simp]: "json_inner (marshal_string s) = quote_string s"
  by (simp add: json_inner_def marshal_string_def)

lemma dec_string_marshal: "valid_utf8 s \<Longrightarrow> dec_string (marshal_string s) old = Some s"
  by (simp add: dec_string_def unquote_quote)

lemma itoa_shape:
  assumes "0 \<le> i"
  shows "itoa i \<noteq> json_null" "take (Suc 0) (itoa i) \<noteq> ''-''" "\<forall>c \<in> set (itoa i). digit c" "itoa i \<noteq> []" "digits_value (itoa i) = i"
proof -
  show dg: "\<forall>c \<in> set (itoa i). digit c" using assms nat_digits_digits by (simp add: itoa_def)
  show ne: "itoa i \<noteq> []" by (simp add: itoa_def)
  show "digits_value (itoa i) = i" using assms by (simp add: itoa_def digits_value_nat)
  have "digit (hd (itoa i))" using dg ne by simp
  then have h: "hd (itoa i) \<noteq> CHR ''n''" "hd (itoa i) \<noteq> CHR ''-''" by (auto simp: digit_def)
  from h(1) show "itoa i \<noteq> json_null" by force
  from h(2) ne show "take (Suc 0) (itoa i) \<noteq> ''-''" by (cases "itoa i") auto
qed

lemma dec_int_itoa: "0 \<le> i \<Longrightarrow> int64_ok i \<Longrightarrow> dec_int (itoa i) old = Some i"
  using itoa_shape [of i] by (simp add: dec_int_def parse_int64_def Let_def)

lemma dec_ptr_null: "dec_ptr d zero json_null old = Some None"
  by (simp add: dec_ptr_def)

lemma dec_ptr_value: "v \<noteq> json_null \<Longrightarrow> dec_ptr d zero v None = map_option Some (d v zero)"
  by (simp add: dec_ptr_def)

lemma object_not_null [simp]: "json_object ms \<noteq> json_null"
  by (simp add: json_object_def)

fun dec_named :: "(bytes \<times> 'a decoder) list \<Rightarrow> (bytes \<times> bytes) list \<Rightarrow> 'a \<Rightarrow> 'a option" where
  "dec_named fs [] x = Some x"
| "dec_named fs ((k, v) # ms) x =
     (case find_field fs k of
        None \<Rightarrow> dec_named fs ms x
      | Some d \<Rightarrow> (case d v x of None \<Rightarrow> None | Some x' \<Rightarrow> dec_named fs ms x'))"

lemma dec_members_named:
  assumes "\<forall>(k, v) \<in> set ms. valid_utf8 k"
  shows "dec_members fs (map (\<lambda>(k, v). (marshal_string k, v)) ms) x = dec_named fs ms x"
  using assms by (induction fs ms x rule: dec_named.induct) (auto simp: unquote_quote split: option.split)

lemma dec_struct_object:
  assumes "\<forall>(k, v) \<in> set ms. valid_utf8 k \<and> json_value n v"
  shows "dec_struct fs (json_object ms) x = dec_named fs ms x"
proof -
  have "map json_member (json_elements (json_object ms)) = map (\<lambda>(k, v). (marshal_string k, v)) ms"
    using assms by (intro object_members [of ms n]) auto
  moreover have "take 1 (json_object ms) = ''{''" by (simp add: json_object_def)
  ultimately show ?thesis using assms dec_members_named [of ms fs x] by (auto simp: dec_struct_def)
qed

lemma dec_list_array:
  assumes "\<forall>v \<in> set vs. json_value n v"
  shows "dec_list d zero (json_array vs) old = dec_elements d zero vs old"
  using array_elements [OF assms] by (simp add: dec_list_def json_array_def)

text \<open>A member that names no field is skipped.\<close>

definition no_field :: "bytes list \<Rightarrow> bytes \<Rightarrow> bool" where
  "no_field names k \<longleftrightarrow> list_all (\<lambda>n. n \<noteq> k \<and> fold_name n \<noteq> fold_name k) names"

lemma find_no_field:
  assumes "no_field (map fst fs) k"
  shows "find_field fs k = None"
proof -
  have "al_lookup fs k = None" using assms by (auto simp: al_lookup_None no_field_def list_all_iff)
  moreover have "find (\<lambda>(n, f). fold_name n = fold_name k) fs = None"
    using assms by (auto simp: find_None_iff no_field_def list_all_iff)
  ultimately show ?thesis by (simp add: find_field_def)
qed

lemma dec_named_skip: "no_field (map fst fs) k \<Longrightarrow> dec_named fs ((k, v) # ms) x = dec_named fs ms x"
  by (simp add: find_no_field)

lemma dec_named_field:
  "al_lookup fs k = Some d \<Longrightarrow> dec_named fs ((k, v) # ms) x = (case d v x of None \<Rightarrow> None | Some x' \<Rightarrow> dec_named fs ms x')"
  by (simp add: find_field_def)

end
