(* ===== verification/Chat_Stream.thy ===== *)
theory Chat_Stream
  imports Stream_Results Json_Values
begin

text \<open>
  A chat completion stream, from the bytes of its chunks to the outputs \<open>Observe\<close> hands out.
  The chunks are printed as an OpenAI-compatible server prints them; the choices may be
  interleaved in any way. The accumulator is followed by a small machine that keeps, for each
  choice, the text collected and the time of its first piece; what the machine hands out for a
  choice depends on the chunks of that choice only.
\<close>

subsection \<open>The chunks of a stream\<close>

datatype chat_chunk = RoleChunk nat | ContentChunk nat bytes | FinishChunk nat bytes

fun chunk_index :: "chat_chunk \<Rightarrow> nat" where
  "chunk_index (RoleChunk i) = i"
| "chunk_index (ContentChunk i piece) = i"
| "chunk_index (FinishChunk i reason) = i"

fun chunk_delta :: "chat_chunk \<Rightarrow> bytes" where
  "chunk_delta (RoleChunk i) = json_object [(''role'', marshal_string ''assistant''), (''content'', json_null)]"
| "chunk_delta (ContentChunk i piece) = json_object [(''content'', marshal_string piece)]"
| "chunk_delta (FinishChunk i reason) = json_object []"

fun chunk_reason :: "chat_chunk \<Rightarrow> bytes" where
  "chunk_reason (FinishChunk i reason) = marshal_string reason"
| "chunk_reason chunk = json_null"

definition chunk_choice :: "chat_chunk \<Rightarrow> bytes" where
  "chunk_choice chunk = json_object
     [(''finish_reason'', chunk_reason chunk), (''index'', itoa (int (chunk_index chunk))), (''delta'', chunk_delta chunk)]"

record chunk_head =
  ch_created :: nat
  ch_id :: bytes
  ch_model :: bytes

definition chunk_payload :: "chunk_head \<Rightarrow> chat_chunk \<Rightarrow> bytes" where
  "chunk_payload h chunk = json_object
     [(''choices'', json_array [chunk_choice chunk]), (''created'', itoa (int (ch_created h))),
      (''id'', marshal_string (ch_id h)), (''model'', marshal_string (ch_model h)),
      (''object'', marshal_string ''chat.completion.chunk'')]"

subsection \<open>Decoding a chunk\<close>

fun delta_of :: "chat_chunk \<Rightarrow> streamDelta" where
  "delta_of (ContentChunk i piece) = no_streamDelta\<lparr>d_content := piece\<rparr>"
| "delta_of chunk = no_streamDelta"

fun reason_of :: "chat_chunk \<Rightarrow> bytes option" where
  "reason_of (FinishChunk i reason) = Some reason"
| "reason_of chunk = None"

fun piece_of :: "chat_chunk \<Rightarrow> bytes" where
  "piece_of (ContentChunk i piece) = piece"
| "piece_of chunk = []"

definition chunk_event :: "chat_chunk \<Rightarrow> streamEventPayload" where
  "chunk_event chunk = no_event\<lparr>e_choices := [no_streamChoice\<lparr>c_index := Some (int (chunk_index chunk)),
     c_finishReason := reason_of chunk, c_delta := Some (delta_of chunk)\<rparr>]\<rparr>"

fun chunk_ok :: "chat_chunk \<Rightarrow> bool" where
  "chunk_ok (RoleChunk i) \<longleftrightarrow> i < 2 ^ 63"
| "chunk_ok (ContentChunk i piece) \<longleftrightarrow> i < 2 ^ 63 \<and> valid_utf8 piece"
| "chunk_ok (FinishChunk i reason) \<longleftrightarrow> i < 2 ^ 63 \<and> valid_utf8 reason"

lemma ascii_valid: "list_all (\<lambda>c. byte c < 0x80) s \<Longrightarrow> valid_utf8 s"
  by (induction s) (simp_all add: valid_utf8.simps)

lemma names_valid:
  "valid_utf8 ''role''" "valid_utf8 ''content''" "valid_utf8 ''finish_reason''" "valid_utf8 ''index''" "valid_utf8 ''delta''"
  "valid_utf8 ''choices''" "valid_utf8 ''created''" "valid_utf8 ''id''" "valid_utf8 ''model''" "valid_utf8 ''object''"
  by (rule ascii_valid, simp)+

lemma chunk_delta_value: "json_value 1 (chunk_delta chunk)"
  using object_value [of _ 0] by (cases chunk) (simp_all add: string_value null_value)

lemma chunk_reason_value: "json_value n (chunk_reason chunk)"
  by (cases chunk) (simp_all add: string_value null_value)

lemma chunk_choice_value: "json_value 2 (chunk_choice chunk)"
  unfolding chunk_choice_def numeral_2_eq_2
  by (rule object_value) (simp add: chunk_reason_value number_value chunk_delta_value [unfolded One_nat_def])

lemma chunk_choices_value: "json_value 3 (json_array [chunk_choice chunk])"
  using array_value [of "[chunk_choice chunk]" 2] by (simp add: chunk_choice_value)

lemma chunk_payload_value: "json_value 4 (chunk_payload h chunk)"
proof -
  have "json_value (Suc 3) (chunk_payload h chunk)"
    unfolding chunk_payload_def
    by (rule object_value) (simp add: chunk_choices_value number_value string_value)
  then show ?thesis by simp
qed

text \<open>The fields the members of a chunk name.\<close>

lemma delta_fields:
  obtains fs where "dec_streamDelta = dec_struct fs" "no_field (map fst fs) ''role''"
    "al_lookup fs ''content'' = Some (\<lambda>raw x. map_option (\<lambda>v. x\<lparr>d_content := v\<rparr>) (dec_string raw (d_content x)))"
  by (rule that [OF dec_streamDelta_def]) (simp_all add: fld_def no_field_def ascii_upper_def)

lemma choice_fields:
  obtains fs where "dec_streamChoice = dec_struct fs"
    "al_lookup fs ''index'' = Some (\<lambda>raw x. map_option (\<lambda>v. x\<lparr>c_index := v\<rparr>) (dec_ptr dec_int 0 raw (c_index x)))"
    "al_lookup fs ''finish_reason'' = Some (\<lambda>raw x. map_option (\<lambda>v. x\<lparr>c_finishReason := v\<rparr>) (dec_ptr dec_string [] raw (c_finishReason x)))"
    "al_lookup fs ''delta'' = Some (\<lambda>raw x. map_option (\<lambda>v. x\<lparr>c_delta := v\<rparr>) (dec_ptr dec_streamDelta no_streamDelta raw (c_delta x)))"
  by (rule that [OF dec_streamChoice_def]) (simp_all add: fld_def)

lemma event_fields:
  obtains fs where "dec_event = dec_struct fs"
    "al_lookup fs ''choices'' = Some (\<lambda>raw x. map_option (\<lambda>v. x\<lparr>e_choices := v\<rparr>) (dec_list dec_streamChoice no_streamChoice raw (e_choices x)))"
    "no_field (map fst fs) ''created''" "no_field (map fst fs) ''id''" "no_field (map fst fs) ''model''" "no_field (map fst fs) ''object''"
  by (rule that [OF dec_event_def]) (simp_all add: fld_def no_field_def ascii_upper_def)

lemma dec_delta:
  assumes "chunk_ok chunk"
  shows "dec_streamDelta (chunk_delta chunk) no_streamDelta = Some (delta_of chunk)"
proof -
  obtain fs where fs: "dec_streamDelta = dec_struct fs" "no_field (map fst fs) ''role''"
    "al_lookup fs ''content'' = Some (\<lambda>raw x. map_option (\<lambda>v. x\<lparr>d_content := v\<rparr>) (dec_string raw (d_content x)))"
    by (rule delta_fields)
  have "dec_string json_null old = Some old" for old by (simp add: dec_string_def)
  with assms show ?thesis
    unfolding fs(1) by (cases chunk)
      (simp_all add: fs(2-) dec_struct_object [of _ 0] string_value null_value names_valid dec_named_skip dec_named_field
        dec_string_marshal no_streamDelta_def del: dec_named.simps(2))
qed

lemma chunk_delta_not_null [simp]: "chunk_delta chunk \<noteq> json_null"
  by (cases chunk) simp_all

lemma dec_choice:
  assumes "chunk_ok chunk"
  shows "dec_streamChoice (chunk_choice chunk) no_streamChoice = Some (no_streamChoice\<lparr>c_index := Some (int (chunk_index chunk)),
     c_finishReason := reason_of chunk, c_delta := Some (delta_of chunk)\<rparr>)"
proof -
  obtain fs where fs: "dec_streamChoice = dec_struct fs"
    "al_lookup fs ''index'' = Some (\<lambda>raw x. map_option (\<lambda>v. x\<lparr>c_index := v\<rparr>) (dec_ptr dec_int 0 raw (c_index x)))"
    "al_lookup fs ''finish_reason'' = Some (\<lambda>raw x. map_option (\<lambda>v. x\<lparr>c_finishReason := v\<rparr>) (dec_ptr dec_string [] raw (c_finishReason x)))"
    "al_lookup fs ''delta'' = Some (\<lambda>raw x. map_option (\<lambda>v. x\<lparr>c_delta := v\<rparr>) (dec_ptr dec_streamDelta no_streamDelta raw (c_delta x)))"
    by (rule choice_fields)
  have "dec_ptr dec_string [] (chunk_reason chunk) None = Some (reason_of chunk)"
    using assms by (cases chunk) (simp_all add: dec_ptr_null dec_ptr_value dec_string_marshal)
  moreover have "dec_ptr dec_int 0 (itoa (int (chunk_index chunk))) None = Some (Some (int (chunk_index chunk)))"
    using assms itoa_shape(1) [of "int (chunk_index chunk)"]
    by (cases chunk) (simp_all add: dec_ptr_value dec_int_itoa int64_ok_def)
  moreover have "dec_ptr dec_streamDelta no_streamDelta (chunk_delta chunk) None = Some (Some (delta_of chunk))"
    using dec_delta [OF assms] by (simp add: dec_ptr_value)
  ultimately show ?thesis
    unfolding chunk_choice_def fs(1)
    by (simp add: dec_struct_object [of _ "Suc 0"] fs(2-) chunk_reason_value number_value chunk_delta_value [unfolded One_nat_def] names_valid
        dec_named_field no_streamChoice_def del: dec_named.simps(2))
qed

lemma chunk_decodes:
  assumes "chunk_ok chunk"
  shows "unmarshal_event (chunk_payload h chunk) = Some (chunk_event chunk)"
proof -
  obtain fs where fs: "dec_event = dec_struct fs"
    "al_lookup fs ''choices'' = Some (\<lambda>raw x. map_option (\<lambda>v. x\<lparr>e_choices := v\<rparr>) (dec_list dec_streamChoice no_streamChoice raw (e_choices x)))"
    "no_field (map fst fs) ''created''" "no_field (map fst fs) ''id''" "no_field (map fst fs) ''model''" "no_field (map fst fs) ''object''"
    by (rule event_fields)
  have "unmarshal_event (chunk_payload h chunk) = dec_event (chunk_payload h chunk) no_event"
    unfolding unmarshal_event_def by (rule unmarshal_value [OF chunk_payload_value]) (simp add: maxNestingDepth_def)
  also have "\<dots> = Some (chunk_event chunk)"
    unfolding chunk_payload_def fs(1)
    by (simp add: dec_struct_object [of _ 3] fs(2-) chunk_choices_value number_value string_value names_valid
        dec_named_field dec_named_skip dec_list_array [of _ 2] chunk_choice_value dec_choice [OF assms] chunk_event_def no_event_def
        del: dec_named.simps(2))
  finally show ?thesis .
qed

subsection \<open>The machine the accumulator follows\<close>

text \<open>
  The choices with a text so far, with the text and the time of its first piece; the choices
  that ever had a text; those that were handed out; and those with a finish reason.
\<close>

record chat_state =
  cs_live :: "(nat \<times> bytes \<times> go_time) list"
  cs_seen :: "nat list"
  cs_ended :: "nat list"
  cs_closed :: "nat list"

definition no_chat :: chat_state where
  "no_chat = \<lparr>cs_live = [], cs_seen = [], cs_ended = [], cs_closed = []\<rparr>"

definition choice_out :: "nat \<Rightarrow> StreamOutput" where
  "choice_out i = (output_of_kind StreamOutputResponse)\<lparr>so_choiceIndex := int i, so_hasChoiceIndex := True\<rparr>"

definition chat_output :: "nat \<Rightarrow> bytes \<Rightarrow> go_time \<Rightarrow> bytes \<Rightarrow> go_time \<Rightarrow> StreamOutput" where
  "chat_output i v t0 reason t1 = (choice_out i)\<lparr>so_content := v, so_start := t0, so_finishReason := reason,
     so_end := t1, so_complete := True\<rparr>"

fun chat_step :: "chat_state \<Rightarrow> chat_chunk \<Rightarrow> go_time \<Rightarrow> chat_state \<times> outputs" where
  "chat_step s (RoleChunk i) at = (s, [])"
| "chat_step s (ContentChunk i piece) at =
     (if i \<in> set (cs_closed s) \<or> piece = [] then (s, [])
      else case al_lookup (cs_live s) i of
        None \<Rightarrow> (s\<lparr>cs_live := al_put i (piece, at) (cs_live s), cs_seen := cs_seen s @ [i]\<rparr>, [])
      | Some (v, t0) \<Rightarrow> (s\<lparr>cs_live := al_put i (v @ piece, t0) (cs_live s)\<rparr>, []))"
| "chat_step s (FinishChunk i reason) at =
     (if i \<in> set (cs_closed s) then (s, [])
      else case al_lookup (cs_live s) i of
        None \<Rightarrow> (s\<lparr>cs_closed := cs_closed s @ [i]\<rparr>, [])
      | Some (v, t0) \<Rightarrow>
          (s\<lparr>cs_live := al_delete i (cs_live s), cs_ended := cs_ended s @ [i], cs_closed := cs_closed s @ [i]\<rparr>,
           [chat_output i v t0 reason at]))"

definition chat_wf :: "chat_state \<Rightarrow> bool" where
  "chat_wf s \<longleftrightarrow>
     distinct (al_keys (cs_live s)) \<and> distinct (cs_seen s) \<and> distinct (cs_closed s) \<and>
     set (cs_seen s) = fst ` set (cs_live s) \<union> set (cs_ended s) \<and> set (cs_ended s) \<subseteq> set (cs_closed s) \<and>
     fst ` set (cs_live s) \<inter> set (cs_closed s) = {} \<and> (\<forall>(i, v, t) \<in> set (cs_live s). v \<noteq> [])"

lemma chat_step_wf: "chat_wf s \<Longrightarrow> chat_wf (fst (chat_step s chunk at))"
proof (induction s chunk at rule: chat_step.induct)
  case (2 s i piece at)
  show ?case
  proof (cases "i \<in> set (cs_closed s) \<or> piece = []")
    case False
    have texts: "\<forall>(j, v, t) \<in> set (al_put i (w, u) (cs_live s)). v \<noteq> []" if "w \<noteq> []" for w u
      using 2 that set_al_put [of "cs_live s" i "(w, u)"] by (auto simp: chat_wf_def)
    show ?thesis
    proof (cases "al_lookup (cs_live s) i")
      case None
      then have "i \<notin> fst ` set (cs_live s)" by (simp add: al_lookup_None)
      then show ?thesis using 2 False None texts [of piece at] by (auto simp: chat_wf_def)
    next
      case (Some x)
      obtain v t where x: "x = (v, t)" by (cases x)
      have "i \<in> fst ` set (cs_live s)" using al_lookup_in [OF Some] by force
      then show ?thesis using 2 False Some x texts [of "v @ piece" t] by (simp add: chat_wf_def insert_absorb)
    qed
  qed (use 2 in auto)
next
  case (3 s i reason at)
  show ?case
  proof (cases "i \<in> set (cs_closed s)")
    case False
    show ?thesis
    proof (cases "al_lookup (cs_live s) i")
      case None
      then have "i \<notin> fst ` set (cs_live s)" by (simp add: al_lookup_None)
      with 3 False None show ?thesis by (auto simp: chat_wf_def)
    next
      case (Some x)
      obtain v t where x: "x = (v, t)" by (cases x)
      have "i \<in> fst ` set (cs_live s)" using al_lookup_in [OF Some] by force
      moreover have "\<forall>(j, v, t) \<in> set (al_delete i (cs_live s)). v \<noteq> []" using 3 by (auto simp: chat_wf_def set_al_delete)
      ultimately show ?thesis using 3 False Some x by (simp add: chat_wf_def) blast
    qed
  qed (use 3 in simp)
qed simp

definition chat_key :: "nat \<Rightarrow> streamOutputKey" where
  "chat_key i = StreamKey StreamSourceChat StreamOutputResponse (int i) (-1) (-1) (-1) []"

definition choice_state :: "nat \<Rightarrow> bytes \<times> go_time \<Rightarrow> streamOutputState" where
  "choice_state i x = (new_state ((choice_out i)\<lparr>so_start := snd x\<rparr>))\<lparr>
     st_content := \<lparr>lt_value = fst x, lt_truncated = False\<rparr>, st_started := True\<rparr>"

definition chat_states :: "(nat \<times> bytes \<times> go_time) list \<Rightarrow> (streamOutputKey \<times> streamOutputState) list" where
  "chat_states live = map (\<lambda>(i, x). (chat_key i, choice_state i x)) live"

definition chat_acc :: "nat \<Rightarrow> chat_state \<Rightarrow> StreamAccumulator" where
  "chat_acc limit s = (NewStreamAccumulator (int limit))\<lparr>
     a_states := chat_states (cs_live s), a_finished := map chat_key (cs_ended s),
     a_groups := map (\<lambda>i. key_group (chat_key i)) (cs_seen s),
     a_finishedGroups := map (\<lambda>i. key_group (chat_key i)) (cs_ended s),
     a_finishedChoices := map (\<lambda>i. (StreamSourceChat, int i)) (cs_closed s), a_createdParts := length (cs_seen s)\<rparr>"

lemma chat_key_inj [simp]: "chat_key i = chat_key j \<longleftrightarrow> i = j" "key_group (chat_key i) = key_group (chat_key j) \<longleftrightarrow> i = j"
  by (simp_all add: chat_key_def key_group_def)

lemma chat_states_lookup: "al_lookup (chat_states live) (chat_key i) = map_option (choice_state i) (al_lookup live i)"
  by (induction live) (auto simp: chat_states_def)

lemma chat_states_put: "al_put (chat_key i) (choice_state i x) (chat_states live) = chat_states (al_put i x live)"
  by (induction live) (auto simp: chat_states_def)

lemma chat_states_delete: "al_delete (chat_key i) (chat_states live) = chat_states (al_delete i live)"
  by (induction live) (auto simp: chat_states_def al_delete_def)

subsection \<open>\<open>Observe\<close> on one chunk\<close>

lemma New_limit [simp]: "a_limit (NewStreamAccumulator (int n)) = max 1 n"
  by (auto simp: NewStreamAccumulator_def Let_def)

lemma text_append_Nil [simp]: "text_append t [] limit = t"
  by (simp add: text_append_def)

lemma text_append_fits:
  assumes "valid_utf8 v" and "length u + length v \<le> limit" and "v \<noteq> []"
  shows "text_append \<lparr>lt_value = u, lt_truncated = b\<rparr> v limit = \<lparr>lt_value = u @ v, lt_truncated = b\<rparr>"
  using assms by (cases v) (auto simp: text_append_def Let_def)

lemma set_metadata_fits:
  assumes "valid_utf8 v" and "length v \<le> limit" and "length v \<le> maxStreamMetadataSize"
  shows "setStreamMetadata empty_text v limit = \<lparr>lt_value = v, lt_truncated = False\<rparr>"
  using assms text_append_fits [of v "[]" "min limit maxStreamMetadataSize" False]
  by (auto simp: setStreamMetadata_def text_set_def empty_text_def min_def split: if_splits)

lemma observe_chunk:
  assumes "chunk_ok chunk" "\<not> a_closed a"
  shows "Observe a (chunk_payload h chunk) False at =
    (if (StreamSourceChat, int (chunk_index chunk)) \<in> set (a_finishedChoices a) then (a, [])
     else let b = chat_delta a (int (chunk_index chunk)) (delta_of chunk) at
          in case reason_of chunk of None \<Rightarrow> (b, []) | Some reason \<Rightarrow> finishChoice b StreamSourceChat (int (chunk_index chunk)) at reason)"
proof -
  have "observe_event a (chunk_event chunk) at = observe_choice a 0 (hd (e_choices (chunk_event chunk))) at True"
    by (simp add: observe_event_def chunk_event_def no_event_def streamEventFailed_def raw_present_def observeChat_def
        observeNative_def observeResponses_def case_prod_beta)
  then show ?thesis
    using assms
    by (simp add: Observe_def chunk_decodes observe_choice_def streamIndex_def chunk_event_def no_streamChoice_def Let_def
        split: option.split)
qed

lemma delta_nothing: "chat_delta a i no_streamDelta at = a"
  by (simp add: chat_delta_def no_streamDelta_def)

lemma delta_content:
  "p \<noteq> [] \<Longrightarrow> chat_delta a i (no_streamDelta\<lparr>d_content := p\<rparr>) at =
     mutate (chatState a StreamOutputResponse i) (\<lambda>s. append_content p (a_limit a) (touch s at))"
  by (simp add: chat_delta_def no_streamDelta_def append_refusal_def)

lemma touch_state: "touch (choice_state i x) at = choice_state i x"
  by (simp add: touch_def choice_state_def)

lemma append_state:
  assumes "valid_utf8 p" "p \<noteq> []" "length v + length p \<le> limit"
  shows "append_content p limit (choice_state i (v, t)) = choice_state i (v @ p, t)"
  using assms by (simp add: append_content_def choice_state_def text_append_fits)

lemma first_state:
  assumes "valid_utf8 p" "p \<noteq> []" "length p \<le> limit"
  shows "append_content p limit (touch (new_state (choice_out i)) at) = choice_state i (p, at)"
  using assms text_append_fits [of p "[]" limit False]
  by (simp add: append_content_def touch_def choice_state_def new_state_def empty_text_def)

lemma acc_fields [simp]:
  "a_limit (chat_acc limit s) = max 1 limit" "a_closed (chat_acc limit s) = False" "a_finished (chat_acc limit s) = map chat_key (cs_ended s)"
  "a_states (chat_acc limit s) = chat_states (cs_live s)" "a_groups (chat_acc limit s) = map (\<lambda>i. key_group (chat_key i)) (cs_seen s)"
  "a_finishedGroups (chat_acc limit s) = map (\<lambda>i. key_group (chat_key i)) (cs_ended s)"
  "a_finishedChoices (chat_acc limit s) = map (\<lambda>i. (StreamSourceChat, int i)) (cs_closed s)"
  "a_createdParts (chat_acc limit s) = length (cs_seen s)" "a_limited (chat_acc limit s) = False"
  "a_decodeFailed (chat_acc limit s) = False" "a_terminalIncomplete (chat_acc limit s) = False"
  by (auto simp: chat_acc_def NewStreamAccumulator_def Let_def)

lemma chatState_chat:
  "chatState a StreamOutputResponse (int i) = acc_state a (chat_key i) (choice_out i)"
  by (simp add: chatState_def chat_key_def choice_out_def)

lemma key_notin: "i \<notin> set xs \<Longrightarrow> chat_key i \<notin> chat_key ` set xs \<and> key_group (chat_key i) \<notin> (\<lambda>i. key_group (chat_key i)) ` set xs"
  by auto

lemma al_put_twice: "al_put k v (al_put k w m) = al_put k v m"
  by (induction k w m rule: al_put.induct) auto

lemma content_step:
  assumes wf: "chat_wf s" and i: "i \<notin> set (cs_closed s)" and p: "valid_utf8 p" "p \<noteq> []"
    and fits: "length (case al_lookup (cs_live s) i of None \<Rightarrow> [] | Some (v, t) \<Rightarrow> v) + length p \<le> limit"
    and room: "i \<in> set (cs_seen s) \<or> length (cs_seen s) < maxStreamOutputStates"
  shows "mutate (chatState (chat_acc limit s) StreamOutputResponse (int i)) (\<lambda>st. append_content p limit (touch st at)) =
     chat_acc limit (fst (chat_step s (ContentChunk i p) at))"
proof -
  have ended: "i \<notin> set (cs_ended s)" using wf i by (auto simp: chat_wf_def)
  note [simp] = key_notin [OF ended, THEN conjunct1] key_notin [OF ended, THEN conjunct2]
  show ?thesis
  proof (cases "al_lookup (cs_live s) i")
    case (Some x)
    obtain v t where x: "x = (v, t)" by (cases x)
    with Some fits p have "append_content p limit (touch (choice_state i x) at) = choice_state i (v @ p, t)"
      by (simp add: touch_state append_state)
    then show ?thesis
      using Some x i p
      by (simp add: chatState_chat acc_state_def chat_states_lookup put_state_def chat_states_put) (simp add: chat_acc_def)
  next
    case None
    then have "i \<notin> set (cs_seen s)" using wf ended by (simp add: chat_wf_def al_lookup_None)
    note seen = key_notin [OF this, THEN conjunct2] this
    have "length (cs_seen s) < maxStreamOutputParts" using room seen by (auto simp: maxStreamOutputParts_def maxStreamOutputStates_def)
    moreover have "append_content p limit (touch (new_state (choice_out i)) at) = choice_state i (p, at)"
      using p fits None by (intro first_state) simp_all
    ultimately show ?thesis
      using None room seen i p
      by (simp add: chatState_chat acc_state_def chat_states_lookup put_state_def chat_states_put set_add_def Let_def al_put_twice)
        (simp add: chat_acc_def)
  qed
qed

text \<open>The finish reason is written to the states of the choice, which are then handed out.\<close>

definition with_reason :: "nat \<Rightarrow> bytes \<Rightarrow> nat \<Rightarrow> (streamOutputKey \<times> streamOutputState) list \<Rightarrow> (streamOutputKey \<times> streamOutputState) list" where
  "with_reason i reason limit m = map (\<lambda>(key, s).
     if key_source key = StreamSourceChat \<and> key_choiceIndex key = int i
     then (key, s\<lparr>st_finishReason := setStreamMetadata (st_finishReason s) reason limit\<rparr>) else (key, s)) m"

lemma set_reason:
  "setChoiceFinishReason a StreamSourceChat (int i) reason = a\<lparr>a_states := with_reason i reason (a_limit a) (a_states a)\<rparr>"
  by (simp add: setChoiceFinishReason_def with_reason_def)

lemma with_reason_chat:
  "al_keys (with_reason i reason limit (chat_states live)) = map chat_key (al_keys live)"
  "al_lookup (with_reason i reason limit (chat_states live)) (chat_key i) =
     map_option (\<lambda>x. (choice_state i x)\<lparr>st_finishReason := setStreamMetadata empty_text reason limit\<rparr>) (al_lookup live i)"
  "al_delete (chat_key i) (with_reason i reason limit (chat_states live)) = chat_states (al_delete i live)"
  "i \<notin> fst ` set live \<Longrightarrow> with_reason i reason limit (chat_states live) = chat_states live"
proof -
  have k: "key_source (chat_key j) = StreamSourceChat" "key_choiceIndex (chat_key j) = int j" for j by (simp_all add: chat_key_def)
  have r: "st_finishReason (choice_state j x) = empty_text" for j x by (simp add: choice_state_def new_state_def)
  show "al_keys (with_reason i reason limit (chat_states live)) = map chat_key (al_keys live)"
    by (induction live) (auto simp: with_reason_def chat_states_def)
  show "al_lookup (with_reason i reason limit (chat_states live)) (chat_key i) =
     map_option (\<lambda>x. (choice_state i x)\<lparr>st_finishReason := setStreamMetadata empty_text reason limit\<rparr>) (al_lookup live i)"
    by (induction live) (auto simp: with_reason_def chat_states_def k r)
  show "al_delete (chat_key i) (with_reason i reason limit (chat_states live)) = chat_states (al_delete i live)"
    by (induction live) (auto simp: with_reason_def chat_states_def al_delete_def k)
  show "i \<notin> fst ` set live \<Longrightarrow> with_reason i reason limit (chat_states live) = chat_states live"
    by (induction live) (auto simp: with_reason_def chat_states_def k)
qed

lemma choice_finish:
  assumes "v \<noteq> []"
  shows "hasData ((choice_state i (v, t))\<lparr>st_finishReason := f\<rparr>)"
    "finish_state ((choice_state i (v, t))\<lparr>st_finishReason := \<lparr>lt_value = r, lt_truncated = False\<rparr>\<rparr>) at True False [] limit = chat_output i v t r at"
  using assms
  by (simp_all add: hasData_def finish_state_def choice_state_def new_state_def choice_out_def output_of_kind_def empty_text_def chat_output_def Let_def)

lemma filter_chat_key:
  assumes "distinct ks"
  shows "filter (\<lambda>key. key_source key = StreamSourceChat \<and> key_choiceIndex key = int i) (map chat_key ks) =
     (if i \<in> set ks then [chat_key i] else [])"
  using assms by (induction ks) (auto simp: chat_key_def)

lemma finish_step:
  assumes wf: "chat_wf s" and i: "i \<notin> set (cs_closed s)" and r: "valid_utf8 reason" "length reason \<le> min limit maxStreamMetadataSize"
    and limit: "0 < limit" and room: "length (cs_closed s) < maxStreamOutputStates"
  shows "finishChoice (chat_acc limit s) StreamSourceChat (int i) at reason =
     (chat_acc limit (fst (chat_step s (FinishChunk i reason) at)), snd (chat_step s (FinishChunk i reason) at))"
proof -
  let ?b = "(chat_acc limit s)\<lparr>a_finishedChoices := map (\<lambda>i. (StreamSourceChat, int i)) (cs_closed s @ [i]),
     a_states := with_reason i reason limit (chat_states (cs_live s))\<rparr>"
  have closed: "(StreamSourceChat, int i) \<notin> (\<lambda>i. (StreamSourceChat, int i)) ` set (cs_closed s)" using i by auto
  have "finishChoice (chat_acc limit s) StreamSourceChat (int i) at reason =
      finishMatching ?b (\<lambda>key. key_source key = StreamSourceChat \<and> key_choiceIndex key = int i) at True False []"
    using closed room limit
    by (simp add: finishChoice_def set_reason set_add_def Let_def max_def)
  also have "\<dots> = finishKeys ?b (if i \<in> fst ` set (cs_live s) then [chat_key i] else []) at True False []"
  proof -
    have "filter (\<lambda>key. key_source key = StreamSourceChat \<and> key_choiceIndex key = int i) (al_keys (a_states ?b)) =
        (if i \<in> fst ` set (cs_live s) then [chat_key i] else [])"
      using wf filter_chat_key [of "al_keys (cs_live s)" i] by (simp add: with_reason_chat(1) chat_wf_def del: map_map)
    then show ?thesis unfolding finishMatching_def by (simp del: map_map)
  qed
  also have "\<dots> = (chat_acc limit (fst (chat_step s (FinishChunk i reason) at)), snd (chat_step s (FinishChunk i reason) at))"
  proof (cases "al_lookup (cs_live s) i")
    case None
    then have "i \<notin> fst ` set (cs_live s)" by (simp add: al_lookup_None)
    with None i show ?thesis by (simp add: with_reason_chat(4)) (simp add: chat_acc_def)
  next
    case (Some x)
    obtain v t where x: "x = (v, t)" by (cases x)
    have mem: "(i, v, t) \<in> set (cs_live s)" using al_lookup_in [OF Some] x by simp
    then have v: "v \<noteq> []" using wf by (auto simp: chat_wf_def)
    have key: "i \<in> fst ` set (cs_live s)" using mem by force
    have "i \<notin> set (cs_ended s)" using wf i by (auto simp: chat_wf_def)
    note ended = key_notin [OF this]
    have reason: "setStreamMetadata empty_text reason limit = \<lparr>lt_value = reason, lt_truncated = False\<rparr>"
      using r by (intro set_metadata_fits) simp_all
    have "finishKey ?b (chat_key i) at True False [] =
        (chat_acc limit (fst (chat_step s (FinishChunk i reason) at)), Some (chat_output i v t reason at))"
      using Some x v key i ended limit
      by (simp add: finishKey_def with_reason_chat reason choice_finish set_add_def Let_def max_def)
        (simp add: chat_acc_def chat_output_def choice_out_def output_of_kind_def)
    with Some x key i show ?thesis by simp
  qed
  finally show ?thesis .
qed

text \<open>A chunk fits when the text of its choice stays within the limit.\<close>

fun chunk_fits :: "nat \<Rightarrow> chat_state \<Rightarrow> chat_chunk \<Rightarrow> bool" where
  "chunk_fits limit s (ContentChunk i piece) \<longleftrightarrow>
     length (case al_lookup (cs_live s) i of None \<Rightarrow> [] | Some (v, t) \<Rightarrow> v) + length piece \<le> limit"
| "chunk_fits limit s (FinishChunk i reason) \<longleftrightarrow> length reason \<le> min limit maxStreamMetadataSize"
| "chunk_fits limit s (RoleChunk i) \<longleftrightarrow> True"

lemma observe_step:
  assumes "chat_wf s" "chunk_ok chunk" "0 < limit" "chunk_index chunk \<in> set (cs_closed s) \<or> chunk_fits limit s chunk"
    and "chunk_index chunk \<in> set (cs_seen s) \<or> length (cs_seen s) < maxStreamOutputStates"
    and "chunk_index chunk \<in> set (cs_closed s) \<or> length (cs_closed s) < maxStreamOutputStates"
  shows "Observe (chat_acc limit s) (chunk_payload h chunk) False at =
     (chat_acc limit (fst (chat_step s chunk at)), snd (chat_step s chunk at))"
proof -
  have closed: "(StreamSourceChat, int i) \<in> (\<lambda>i. (StreamSourceChat, int i)) ` set (cs_closed s) \<longleftrightarrow> i \<in> set (cs_closed s)" for i by auto
  have lim: "max 1 limit = limit" using assms(3) by simp
  show ?thesis
  proof (cases chunk)
    case (RoleChunk i)
    then show ?thesis using assms(2) by (simp add: observe_chunk delta_nothing)
  next
    case (ContentChunk i piece)
    have o: "snd (chat_step s chunk at) = []" by (simp add: ContentChunk split: option.split)
    show ?thesis
    proof (cases "piece = [] \<or> i \<in> set (cs_closed s)")
      case True
      then have "chat_delta a k (delta_of chunk) at = a \<or> i \<in> set (cs_closed s)" for a k
        using delta_nothing by (auto simp: ContentChunk no_streamDelta_def)
      with True ContentChunk assms(2) show ?thesis by (auto simp: observe_chunk closed)
    next
      case False
      then have "chat_delta (chat_acc limit s) (int i) (delta_of chunk) at = chat_acc limit (fst (chat_step s chunk at))"
        using assms ContentChunk content_step [of s i piece limit at] by (simp add: delta_content lim del: chat_step.simps)
      with False ContentChunk assms(2) o show ?thesis by (simp add: observe_chunk closed del: chat_step.simps)
    qed
  next
    case (FinishChunk i reason)
    then show ?thesis
      using assms finish_step [of s i reason limit at]
      by (cases "i \<in> set (cs_closed s)") (simp_all add: observe_chunk closed delta_nothing del: chat_step.simps, simp_all)
  qed
qed

subsection \<open>A whole stream\<close>

type_synonym chat_stream = "(chat_chunk \<times> go_time) list"

fun observe_payloads :: "StreamAccumulator \<Rightarrow> (bytes \<times> go_time) list \<Rightarrow> StreamAccumulator \<times> outputs" where
  "observe_payloads a [] = (a, [])"
| "observe_payloads a ((payload, at) # rest) =
     (let (b, o1) = Observe a payload False at; (c, o2) = observe_payloads b rest in (c, o1 @ o2))"

fun chat_run :: "chat_state \<Rightarrow> chat_stream \<Rightarrow> chat_state \<times> outputs" where
  "chat_run s [] = (s, [])"
| "chat_run s ((chunk, at) # rest) =
     (let (s1, o1) = chat_step s chunk at; (s2, o2) = chat_run s1 rest in (s2, o1 @ o2))"

definition stream_payloads :: "chunk_head \<Rightarrow> chat_stream \<Rightarrow> (bytes \<times> go_time) list" where
  "stream_payloads h chunks = map (\<lambda>(chunk, at). (chunk_payload h chunk, at)) chunks"

definition stream_choices :: "chat_stream \<Rightarrow> nat list" where
  "stream_choices chunks = remdups (map (\<lambda>(chunk, at). chunk_index chunk) chunks)"

lemma set_stream_choices [simp]: "set (stream_choices chunks) = (\<lambda>(chunk, at). chunk_index chunk) ` set chunks"
  by (simp add: stream_choices_def)

text \<open>The chunks of one choice, and all the text they bring.\<close>

definition chunks_of :: "nat \<Rightarrow> chat_stream \<Rightarrow> chat_stream" where
  "chunks_of i chunks = filter (\<lambda>(chunk, at). chunk_index chunk = i) chunks"

definition choice_text :: "nat \<Rightarrow> chat_stream \<Rightarrow> bytes" where
  "choice_text i chunks = concat (map (\<lambda>(chunk, at). piece_of chunk) (chunks_of i chunks))"

definition reason_fits :: "nat \<Rightarrow> chat_chunk \<Rightarrow> bool" where
  "reason_fits limit chunk \<longleftrightarrow> length (case reason_of chunk of None \<Rightarrow> [] | Some reason \<Rightarrow> reason) \<le> min limit maxStreamMetadataSize"

definition live_text :: "chat_state \<Rightarrow> nat \<Rightarrow> bytes" where
  "live_text s i = (case al_lookup (cs_live s) i of None \<Rightarrow> [] | Some (v, t) \<Rightarrow> v)"

lemma live_text_step:
  "length (live_text (fst (chat_step s chunk at)) i) \<le>
     length (live_text s i) + (if chunk_index chunk = i then length (piece_of chunk) else 0)"
  by (cases chunk) (auto simp: live_text_def split: option.splits)

lemma chat_step_sets:
  "set (cs_seen (fst (chat_step s chunk at))) \<subseteq> insert (chunk_index chunk) (set (cs_seen s))"
  "set (cs_closed (fst (chat_step s chunk at))) \<subseteq> insert (chunk_index chunk) (set (cs_closed s))"
  by (cases chunk; auto split: option.splits)+

lemma room:
  assumes "distinct xs" "set xs \<subseteq> J" "finite J" "card J \<le> n" "i \<in> J"
  shows "i \<in> set xs \<or> length xs < n"
proof (cases "i \<in> set xs")
  case False
  then have "set xs \<subset> J" using assms by blast
  with assms have "card (set xs) < card J" by (intro psubset_card_mono)
  with assms show ?thesis by (simp add: distinct_card)
qed simp

lemma observe_run:
  assumes "chat_wf s" "0 < limit" "\<forall>(chunk, at) \<in> set chunks. chunk_ok chunk \<and> reason_fits limit chunk"
    and "\<forall>i. length (live_text s i) + length (choice_text i chunks) \<le> limit"
    and "finite J" "card J \<le> maxStreamOutputStates" "set (cs_seen s) \<union> set (cs_closed s) \<union> set (stream_choices chunks) \<subseteq> J"
  shows "observe_payloads (chat_acc limit s) (stream_payloads h chunks) = (chat_acc limit (fst (chat_run s chunks)), snd (chat_run s chunks))"
  using assms
proof (induction chunks arbitrary: s)
  case Nil
  then show ?case by (simp add: stream_payloads_def)
next
  case (Cons x chunks)
  obtain chunk at where x: "x = (chunk, at)" by (cases x)
  obtain s' o' where st: "chat_step s chunk at = (s', o')" by force
  have texts: "choice_text i (x # chunks) = (if chunk_index chunk = i then piece_of chunk else []) @ choice_text i chunks" for i
    by (simp add: choice_text_def chunks_of_def x)
  have sets: "chunk_index chunk \<in> J" "set (stream_choices chunks) \<subseteq> J" "set (cs_seen s) \<subseteq> J" "set (cs_closed s) \<subseteq> J"
    using Cons.prems(7) by (auto simp: x)
  have len: "length (live_text s i) + (length (if chunk_index chunk = i then piece_of chunk else []) + length (choice_text i chunks)) \<le> limit" for i
    using Cons.prems(4) [rule_format, of i] unfolding texts by simp
  have "chunk_fits limit s chunk"
    using Cons.prems(3) len [of "chunk_index chunk"]
    by (cases chunk) (auto simp: x reason_fits_def live_text_def)
  moreover have "chunk_index chunk \<in> set (cs_seen s) \<or> length (cs_seen s) < maxStreamOutputStates"
    "chunk_index chunk \<in> set (cs_closed s) \<or> length (cs_closed s) < maxStreamOutputStates"
    using room [OF _ _ Cons.prems(5,6) sets(1)] sets Cons.prems(1) unfolding chat_wf_def by blast+
  ultimately have step: "Observe (chat_acc limit s) (chunk_payload h chunk) False at = (chat_acc limit s', o')"
    using observe_step [of s chunk limit h at] Cons.prems(1-3) by (simp add: x st)
  have "observe_payloads (chat_acc limit s') (stream_payloads h chunks) = (chat_acc limit (fst (chat_run s' chunks)), snd (chat_run s' chunks))"
  proof (rule Cons.IH)
    show "chat_wf s'" using chat_step_wf [OF Cons.prems(1), of chunk at] st by simp
    show "\<forall>i. length (live_text s' i) + length (choice_text i chunks) \<le> limit"
    proof
      fix i
      show "length (live_text s' i) + length (choice_text i chunks) \<le> limit"
        using live_text_step [of s chunk at i] len [of i] by (auto simp: st split: if_splits)
    qed
    show "set (cs_seen s') \<union> set (cs_closed s') \<union> set (stream_choices chunks) \<subseteq> J"
      using chat_step_sets [of s chunk at] sets by (auto simp: st)
  qed (use Cons.prems in auto)
  with step show ?case by (simp add: stream_payloads_def x st case_prod_beta)
qed

subsection \<open>What a choice hands out\<close>

text \<open>
  The output of a choice, from its chunks alone: up to the first finish reason the pieces that
  are not empty are put together; a choice without text or without finish reason gives none.
\<close>

definition choice_outputs :: "nat \<Rightarrow> chat_stream \<Rightarrow> outputs" where
  "choice_outputs i chunks =
     (let running = (\<lambda>(chunk, at). reason_of chunk = None);
          pieces = filter (\<lambda>(piece, at). piece \<noteq> []) (map (\<lambda>(chunk, at). (piece_of chunk, at)) (takeWhile running (chunks_of i chunks)))
      in case (pieces, dropWhile running (chunks_of i chunks)) of
           ((piece, t0) # _, (chunk, t1) # _) \<Rightarrow> [chat_output i (concat (map fst pieces)) t0 (the (reason_of chunk)) t1]
         | _ \<Rightarrow> [])"

text \<open>The same with the text and the start time carried along, as the machine has them.\<close>

fun collect :: "(bytes \<times> go_time) option \<Rightarrow> (bytes \<times> go_time) list \<Rightarrow> (bytes \<times> go_time) option" where
  "collect x [] = x"
| "collect None ((piece, at) # rest) = collect (Some (piece, at)) rest"
| "collect (Some (v, t0)) ((piece, at) # rest) = collect (Some (v @ piece, t0)) rest"

lemma collect_Some: "collect (Some (v, t0)) ps = Some (v @ concat (map fst ps), t0)"
  by (induction "Some (v, t0)" ps arbitrary: v rule: collect.induct) simp_all

fun choice_run :: "nat \<Rightarrow> (bytes \<times> go_time) option \<Rightarrow> chat_stream \<Rightarrow> outputs" where
  "choice_run i x [] = []"
| "choice_run i x ((RoleChunk j, at) # rest) = choice_run i x rest"
| "choice_run i x ((ContentChunk j piece, at) # rest) =
     choice_run i (if piece = [] then x else collect x [(piece, at)]) rest"
| "choice_run i x ((FinishChunk j reason, at) # rest) =
     (case x of None \<Rightarrow> [] | Some (v, t0) \<Rightarrow> [chat_output i v t0 reason at])"

lemma choice_run_collect:
  "choice_run i x chunks =
     (case dropWhile (\<lambda>(chunk, at). reason_of chunk = None) chunks of
        [] \<Rightarrow> []
      | (chunk, t1) # _ \<Rightarrow>
          (case collect x (filter (\<lambda>(piece, at). piece \<noteq> []) (map (\<lambda>(chunk, at). (piece_of chunk, at))
                  (takeWhile (\<lambda>(chunk, at). reason_of chunk = None) chunks))) of
             None \<Rightarrow> [] | Some (v, t0) \<Rightarrow> [chat_output i v t0 (the (reason_of chunk)) t1]))"
proof (induction i x chunks rule: choice_run.induct)
  case (2 i x j at rest)
  then show ?case
    by (cases "dropWhile (\<lambda>(chunk, at). reason_of chunk = None) rest") (auto simp del: dropWhile_eq_Nil_conv)
next
  case (3 i x j piece at rest)
  then show ?case
    by (cases x; cases "dropWhile (\<lambda>(chunk, at). reason_of chunk = None) rest")
      (auto simp del: dropWhile_eq_Nil_conv)
qed (auto split: option.split)

lemma choice_outputs_run: "choice_outputs i chunks = choice_run i None (chunks_of i chunks)"
proof -
  have "(case (ps, ds) of ((piece, t0) # _, (chunk, t1) # _) \<Rightarrow> [chat_output i (concat (map fst ps)) t0 (the (reason_of chunk)) t1] | _ \<Rightarrow> []) =
      (case ds of [] \<Rightarrow> [] | (chunk, t1) # _ \<Rightarrow> (case collect None ps of None \<Rightarrow> [] | Some (v, t0) \<Rightarrow> [chat_output i v t0 (the (reason_of chunk)) t1]))"
    for ps :: "(bytes \<times> go_time) list" and ds :: chat_stream
    by (cases ps; cases ds) (auto simp: collect_Some)
  then show ?thesis unfolding choice_outputs_def choice_run_collect Let_def .
qed

lemma run_outputs:
  "filter (\<lambda>out. so_choiceIndex out = int i) (snd (chat_run s chunks)) =
     (if i \<in> set (cs_closed s) then [] else choice_run i (al_lookup (cs_live s) i) (chunks_of i chunks))"
proof (induction s chunks rule: chat_run.induct)
  case (2 s chunk at rest)
  obtain s' o' where st: "chat_step s chunk at = (s', o')" by force
  have out: "so_choiceIndex (chat_output j v t0 r t1) = int j" for j v t0 r t1 by (simp add: chat_output_def choice_out_def)
  from 2 [OF st [symmetric] refl] st show ?case
    by (cases chunk) (auto simp: st chunks_of_def case_prod_beta out split: option.splits if_splits)
qed (simp add: chunks_of_def)

lemma run_choices: "so_choiceIndex ` set (snd (chat_run s chunks)) \<subseteq> int ` set (stream_choices chunks)"
proof (induction s chunks rule: chat_run.induct)
  case (2 s chunk at rest)
  obtain s' o' where st: "chat_step s chunk at = (s', o')" by force
  have "so_choiceIndex ` set o' \<subseteq> {int (chunk_index chunk)}"
    using st by (cases chunk) (auto simp: chat_output_def choice_out_def split: option.splits if_splits)
  with 2 [OF st [symmetric] refl] show ?case
    by (auto simp: st case_prod_beta)
qed simp

text \<open>
  C17: the text of a chat completion is observed as it was sent. A server's chunks may bring
  the texts of up to 64 choices in any pieces, empty ones too, and in any order between the
  choices. When \<open>Observe\<close> has been given the bytes of all chunks, each choice with a text and
  a finish reason has given exactly one output, that holds the pieces before the finish reason
  one after the other, starts with the first of them, ends with the finish reason and is
  complete; no other output was handed out, and nothing was cut or missed. The texts are valid
  UTF-8 with any characters a JSON string has to escape, and fit the configured limit.
\<close>

theorem chat_content_preserved:
  assumes "list_all (\<lambda>(chunk, at). chunk_ok chunk \<and> reason_fits limit chunk) chunks" and "0 < limit"
    and "length (stream_choices chunks) \<le> maxStreamOutputStates"
    and "list_all (\<lambda>i. length (choice_text i chunks) \<le> limit) (stream_choices chunks)"
  shows "\<exists>b outs. observe_payloads (NewStreamAccumulator (int limit)) (stream_payloads h chunks) = (b, outs) \<and>
     (\<forall>i. filter (\<lambda>out. so_choiceIndex out = int i) outs = choice_outputs i chunks) \<and>
     so_choiceIndex ` set outs \<subseteq> int ` set (stream_choices chunks) \<and> \<not> ObservationGap b"
proof -
  have start: "NewStreamAccumulator (int limit) = chat_acc limit no_chat"
    by (simp add: chat_acc_def no_chat_def NewStreamAccumulator_def chat_states_def)
  have "length (choice_text i chunks) \<le> limit" for i
  proof (cases "i \<in> set (stream_choices chunks)")
    case False
    then have "chunks_of i chunks = []" by (force simp: chunks_of_def filter_empty_conv)
    then show ?thesis by (simp add: choice_text_def)
  qed (use assms(4) in \<open>auto simp: list_all_iff\<close>)
  then have "observe_payloads (chat_acc limit no_chat) (stream_payloads h chunks) =
      (chat_acc limit (fst (chat_run no_chat chunks)), snd (chat_run no_chat chunks))"
    using assms by (intro observe_run [where J = "set (stream_choices chunks)"])
      (auto simp: chat_wf_def no_chat_def live_text_def list_all_iff stream_choices_def length_remdups_card_conv)
  moreover have "filter (\<lambda>out. so_choiceIndex out = int i) (snd (chat_run no_chat chunks)) = choice_outputs i chunks" for i
    by (simp add: run_outputs choice_outputs_run) (simp add: no_chat_def)
  ultimately show ?thesis
    unfolding start using run_choices [of no_chat chunks] by (auto simp: ObservationGap_def)
qed

definition example_chat :: chat_stream where
  "example_chat = [(RoleChunk 0, 1), (RoleChunk 1, 2), (ContentChunk 1 [CHR 0xC3, CHR 0xA9, CHR 0x0A], 3), (ContentChunk 0 ''Hel'', 4),
     (ContentChunk 1 [], 5), (ContentChunk 0 [CHR ''l'', quote, CHR ''o''], 6), (FinishChunk 0 ''stop'', 7), (FinishChunk 1 ''length'', 8)]"

theorem chat_content_preserved_witness:
  "choice_outputs 0 example_chat = [chat_output 0 [CHR ''H'', CHR ''e'', CHR ''l'', CHR ''l'', quote, CHR ''o''] 4 ''stop'' 7] \<and>
   (\<exists>b outs. observe_payloads (NewStreamAccumulator (int 64))
        (stream_payloads \<lparr>ch_created = 1700000000, ch_id = ''chatcmpl-1'', ch_model = ''m''\<rparr> example_chat) = (b, outs) \<and>
     (\<forall>i. filter (\<lambda>out. so_choiceIndex out = int i) outs = choice_outputs i example_chat) \<and>
     so_choiceIndex ` set outs \<subseteq> int ` set (stream_choices example_chat) \<and> \<not> ObservationGap b)"
proof
  show "choice_outputs 0 example_chat = [chat_output 0 [CHR ''H'', CHR ''e'', CHR ''l'', CHR ''l'', quote, CHR ''o''] 4 ''stop'' 7]"
    by (simp add: choice_outputs_def example_chat_def chunks_of_def)
  show "\<exists>b outs. observe_payloads (NewStreamAccumulator (int 64))
        (stream_payloads \<lparr>ch_created = 1700000000, ch_id = ''chatcmpl-1'', ch_model = ''m''\<rparr> example_chat) = (b, outs) \<and>
     (\<forall>i. filter (\<lambda>out. so_choiceIndex out = int i) outs = choice_outputs i example_chat) \<and>
     so_choiceIndex ` set outs \<subseteq> int ` set (stream_choices example_chat) \<and> \<not> ObservationGap b"
    by (rule chat_content_preserved)
      (simp_all add: example_chat_def stream_choices_def choice_text_def chunks_of_def reason_fits_def valid_utf8.simps
        maxStreamMetadataSize_def maxStreamOutputStates_def cont_byte_def)
qed

end
