(* ===== verification/Telemetry.thy ===== *)
theory Telemetry
  imports Go_Prelude
begin

text \<open>
  The part of the OpenTelemetry API the proxy writes to. The tracer is the list of the calls
  made to it and to the spans it created, in order; a span is the number of spans started
  before it. The SDK behind these calls is not modelled. A \<open>float64\<close> attribute is the decimal
  literal it was read from.
\<close>

text \<open>
  A Go error is its text with the sentinel errors it wraps, so \<open>errors.Is\<close> is membership.
\<close>

datatype err_kind = ErrEOF | ErrCanceled | ErrDeadlineExceeded | ErrForcedClose | ErrAbortHandler

datatype go_error = GoError (err_kinds: "err_kind list") (err_text: bytes)

definition errors_Is :: "go_error option \<Rightarrow> err_kind \<Rightarrow> bool" where
  "errors_Is e k \<longleftrightarrow> (case e of None \<Rightarrow> False | Some err \<Rightarrow> k \<in> set (err_kinds err))"

datatype attr_value = BoolVal bool | IntVal int | FloatVal bytes | StrVal bytes | StrsVal "bytes list"

type_synonym attribute = "bytes \<times> attr_value"

datatype span_parent = NewRoot bytes | ChildOf nat | RemoteParent bytes

datatype span_call =
    StartSpan nat bytes span_parent go_time "attribute list"
  | SetAttributes nat "attribute list"
  | SetStatusError nat bytes
  | RecordError nat bytes
  | EndSpan nat "go_time option"

record tracer =
  tr_next :: nat
  tr_calls :: "span_call list"

definition new_tracer :: tracer where
  "new_tracer = \<lparr>tr_next = 0, tr_calls = []\<rparr>"

definition trace_call :: "tracer \<Rightarrow> span_call \<Rightarrow> tracer" where
  "trace_call t c = t\<lparr>tr_calls := tr_calls t @ [c]\<rparr>"

definition start_span :: "tracer \<Rightarrow> bytes \<Rightarrow> span_parent \<Rightarrow> go_time \<Rightarrow> attribute list \<Rightarrow> tracer \<times> nat" where
  "start_span t name parent start attrs =
     ((trace_call t (StartSpan (tr_next t) name parent start attrs))\<lparr>tr_next := tr_next t + 1\<rparr>, tr_next t)"

fun started :: "span_call \<Rightarrow> nat option" where
  "started (StartSpan i name parent start attrs) = Some i"
| "started c = None"

fun ended :: "span_call \<Rightarrow> nat option" where
  "ended (EndSpan i at) = Some i"
| "ended c = None"

definition started_spans :: "tracer \<Rightarrow> nat list" where
  "started_spans t = List.map_filter started (tr_calls t)"

definition ended_spans :: "tracer \<Rightarrow> nat list" where
  "ended_spans t = List.map_filter ended (tr_calls t)"

lemma trace_call_simps [simp]:
  "tr_calls (trace_call t c) = tr_calls t @ [c]" "tr_next (trace_call t c) = tr_next t"
  by (simp_all add: trace_call_def)

lemma map_filter_append: "List.map_filter f (xs @ ys) = List.map_filter f xs @ List.map_filter f ys"
  by (simp add: map_filter_def)

lemma spans_trace_call [simp]:
  "started_spans (trace_call t c) = started_spans t @ (case started c of None \<Rightarrow> [] | Some i \<Rightarrow> [i])"
  "ended_spans (trace_call t c) = ended_spans t @ (case ended c of None \<Rightarrow> [] | Some i \<Rightarrow> [i])"
  by (simp_all add: started_spans_def ended_spans_def map_filter_append map_filter_def split: option.split)

lemma spans_next [simp]:
  "started_spans (t\<lparr>tr_next := n\<rparr>) = started_spans t" "ended_spans (t\<lparr>tr_next := n\<rparr>) = ended_spans t"
  by (simp_all add: started_spans_def ended_spans_def)

text \<open>The spans a tracer has started are numbered in order.\<close>

definition tracer_ok :: "tracer \<Rightarrow> bool" where
  "tracer_ok t \<longleftrightarrow> started_spans t = [0..<tr_next t]"

lemma tracer_ok_new [simp]: "tracer_ok new_tracer" "ended_spans new_tracer = []"
  by (simp_all add: tracer_ok_def new_tracer_def started_spans_def ended_spans_def map_filter_def)

lemma tracer_ok_start: "tracer_ok t \<Longrightarrow> tracer_ok (fst (start_span t name parent start attrs))"
  by (simp add: tracer_ok_def start_span_def)

lemma tracer_ok_call: "tracer_ok t \<Longrightarrow> started c = None \<Longrightarrow> tracer_ok (trace_call t c)"
  by (simp add: tracer_ok_def)

end
