(* ===== verification/Sessions.thy ===== *)
theory Sessions
  imports Telemetry
begin

text \<open>
  The session registry of \<open>internal/proxy/session.go\<close>: one span per session ID, kept while
  requests refer to it and for the idle time after the last one, with at most 1024 idle
  sessions, ended once.

  The map \<open>sessions\<close> is a list without repeated keys. A timer is the duration it was armed
  with; its callback \<open>expire\<close> is an operation that may run at any time, also for a session
  whose timer was stopped too late. The closure that \<open>acquire\<close> returns is the operation
  \<open>release\<close>. The registry's mutex makes each operation one step.
\<close>

definition SpanSession :: bytes where "SpanSession = ''session''"
definition defaultSessionIdleTimeout :: go_time where "defaultSessionIdleTimeout = 5 * 60 * 1000000000"
definition maxTrackedSessions :: nat where "maxTrackedSessions = 1024"
definition maxSessionModels :: nat where "maxSessionModels = 32"

definition SessionEndIdle :: bytes where "SessionEndIdle = ''idle''"
definition SessionEndEvicted :: bytes where "SessionEndEvicted = ''evicted''"
definition SessionEndShutdown :: bytes where "SessionEndShutdown = ''shutdown''"

record sessionState =
  ss_id :: bytes
  ss_span :: nat
  ss_refs :: int
  ss_requests :: int
  ss_last :: go_time
  ss_models :: "bytes list"
  ss_userAgent :: bytes
  ss_timer :: "go_time option"

record sessionRegistry =
  rg_tracer :: tracer
  rg_idle :: go_time
  rg_sessions :: "(bytes \<times> sessionState) list"
  rg_closed :: bool

definition newSessionRegistry :: "tracer \<Rightarrow> go_time \<Rightarrow> sessionRegistry" where
  "newSessionRegistry t idle0 =
     \<lparr>rg_tracer = t, rg_idle = (if idle0 \<le> 0 then defaultSessionIdleTimeout else idle0),
      rg_sessions = [], rg_closed = False\<rparr>"

definition observeModel :: "sessionState \<Rightarrow> bytes \<Rightarrow> sessionState" where
  "observeModel s model =
     (if model = [] \<or> length (ss_models s) \<ge> maxSessionModels \<or> model \<in> set (ss_models s) then s
      else s\<lparr>ss_models := ss_models s @ [model]\<rparr>)"

definition put_session :: "sessionRegistry \<Rightarrow> sessionState \<Rightarrow> sessionRegistry" where
  "put_session r s = r\<lparr>rg_sessions := al_put (ss_id s) s (rg_sessions r)\<rparr>"

definition session_end_attrs :: "sessionState \<Rightarrow> bytes \<Rightarrow> attribute list" where
  "session_end_attrs s reason =
     [(''llamaproxy.session.request_count'', IntVal (ss_requests s)),
      (''llamaproxy.session.end_reason'', StrVal reason)] @
     (if length (ss_models s) > 0 then [(''llamaproxy.session.models'', StrsVal (ss_models s))] else []) @
     (if ss_userAgent s \<noteq> [] then [(''user_agent.original'', StrVal (ss_userAgent s))] else [])"

text \<open>The timer the code stops here belongs to the state it drops.\<close>

definition finishLocked :: "sessionRegistry \<Rightarrow> sessionState \<Rightarrow> bytes \<Rightarrow> sessionRegistry" where
  "finishLocked r s reason =
     (let r1 = r\<lparr>rg_sessions := al_delete (ss_id s) (rg_sessions r)\<rparr>;
          t1 = trace_call (rg_tracer r1) (SetAttributes (ss_span s) (session_end_attrs s reason))
      in r1\<lparr>rg_tracer := trace_call t1 (EndSpan (ss_span s) (Some (ss_last s)))\<rparr>)"

text \<open>The loop over the map that looks for the idle session used least recently.\<close>

fun oldest_idle :: "sessionState option \<Rightarrow> (bytes \<times> sessionState) list \<Rightarrow> sessionState option" where
  "oldest_idle oldest [] = oldest"
| "oldest_idle oldest ((_, s) # rest) =
     (if ss_refs s > 0 then oldest_idle oldest rest
      else case oldest of
        None \<Rightarrow> oldest_idle (Some s) rest
      | Some old \<Rightarrow> if ss_last s < ss_last old then oldest_idle (Some s) rest else oldest_idle oldest rest)"

text \<open>
  The outer loop of \<open>evictLocked\<close>. Every round removes a session, so as many rounds as there
  are sessions are enough (\<open>evict_done\<close>).
\<close>

fun evict_rounds :: "nat \<Rightarrow> sessionRegistry \<Rightarrow> sessionRegistry" where
  "evict_rounds 0 r = r"
| "evict_rounds (Suc n) r =
     (if length (rg_sessions r) \<ge> maxTrackedSessions then
        (case oldest_idle None (rg_sessions r) of
           None \<Rightarrow> r
         | Some oldest \<Rightarrow> evict_rounds n (finishLocked r oldest SessionEndEvicted))
      else r)"

definition evictLocked :: "sessionRegistry \<Rightarrow> sessionRegistry" where
  "evictLocked r = evict_rounds (length (rg_sessions r)) r"

definition session_attrs :: "bytes \<Rightarrow> attribute list" where
  "session_attrs sid =
     [(''session.id'', StrVal sid), (''gen_ai.conversation.id'', StrVal sid),
      (''gen_ai.provider.name'', StrVal ''llama.cpp'')]"

text \<open>A live session, or a new one with its span started.\<close>

definition live_or_new :: "sessionRegistry \<Rightarrow> bytes \<Rightarrow> bytes \<Rightarrow> go_time \<Rightarrow> sessionRegistry \<times> sessionState" where
  "live_or_new r sid traceID start =
     (case al_lookup (rg_sessions r) sid of
        Some s \<Rightarrow> (r, s)
      | None \<Rightarrow>
          let r1 = evictLocked r;
              (t, span) = start_span (rg_tracer r1) SpanSession (NewRoot traceID) start (session_attrs sid);
              s = \<lparr>ss_id = sid, ss_span = span, ss_refs = 0, ss_requests = 0, ss_last = start,
                   ss_models = [], ss_userAgent = [], ss_timer = None\<rparr>
          in (put_session (r1\<lparr>rg_tracer := t\<rparr>) s, s))"

text \<open>The span of the session, or none when the registry is closed.\<close>

definition acquire ::
    "sessionRegistry \<Rightarrow> bytes \<Rightarrow> bytes \<Rightarrow> go_time \<Rightarrow> bytes \<Rightarrow> bytes \<Rightarrow> sessionRegistry \<times> nat option" where
  "acquire r sid traceID start model userAgent =
     (if rg_closed r then (r, None)
      else
        let (r1, s0) = live_or_new r sid traceID start;
            s1 = s0\<lparr>ss_refs := ss_refs s0 + 1, ss_requests := ss_requests s0 + 1\<rparr>;
            s2 = (if start > ss_last s1 then s1\<lparr>ss_last := start\<rparr> else s1);
            s3 = observeModel s2 model;
            s4 = (if ss_userAgent s3 = [] then s3\<lparr>ss_userAgent := userAgent\<rparr> else s3);
            s5 = s4\<lparr>ss_timer := None\<rparr>
        in (put_session r1 s5, Some (ss_span s5)))"

definition armLocked :: "sessionState \<Rightarrow> go_time \<Rightarrow> sessionState" where
  "armLocked s after = s\<lparr>ss_timer := Some after\<rparr>"

definition release :: "sessionRegistry \<Rightarrow> bytes \<Rightarrow> go_time \<Rightarrow> sessionRegistry" where
  "release r sid at =
     (case al_lookup (rg_sessions r) sid of
        None \<Rightarrow> r
      | Some s0 \<Rightarrow>
          let s1 = s0\<lparr>ss_refs := ss_refs s0 - 1\<rparr>;
              s2 = (if at > ss_last s1 then s1\<lparr>ss_last := at\<rparr> else s1)
          in if ss_refs s2 > 0 \<or> rg_closed r then put_session r s2
             else put_session r (armLocked s2 (rg_idle r)))"

definition expire :: "sessionRegistry \<Rightarrow> bytes \<Rightarrow> go_time \<Rightarrow> sessionRegistry" where
  "expire r sid now =
     (case al_lookup (rg_sessions r) sid of
        None \<Rightarrow> r
      | Some s \<Rightarrow>
          if ss_refs s > 0 then r
          else
            let remaining = rg_idle r - (now - ss_last s)
            in if remaining > 0 then put_session r (armLocked s remaining)
               else finishLocked r s SessionEndIdle)"

definition closeAll :: "sessionRegistry \<Rightarrow> sessionRegistry" where
  "closeAll r =
     foldl (\<lambda>r s. finishLocked r s SessionEndShutdown) (r\<lparr>rg_closed := True\<rparr>) (map snd (rg_sessions r))"

end
