(* ===== verification/Session_Safety.thy ===== *)
theory Session_Safety
  imports Sessions "HOL-Library.Multiset"
begin

text \<open>
  The session registry as a transition system: the operations of requests, timers and
  shutdown in any order. \<open>w_open\<close> lists the acquisitions not released yet, \<open>w_acquired\<close> counts
  all that were granted.
\<close>

subsection \<open>Association lists as multisets\<close>

lemma mset_put_new: "k \<notin> fst ` set m \<Longrightarrow> mset (al_put k v m) = add_mset (k, v) (mset m)"
  by (induction k v m rule: al_put.induct) auto

lemma mset_put_old: "al_lookup m k = Some v \<Longrightarrow> add_mset (k, v) (mset (al_put k w m)) = add_mset (k, w) (mset m)"
  by (induction m) (auto split: if_splits)

lemma mset_delete:
  assumes "distinct (al_keys m)" and "al_lookup m k = Some v"
  shows "add_mset (k, v) (mset (al_delete k m)) = mset m"
  using assms
proof (induction m)
  case (Cons e m)
  obtain j w where e: "e = (j, w)" by force
  show ?case
  proof (cases "j = k")
    case True
    with Cons.prems e have "al_delete k m = m" by (intro al_delete_notin) simp
    with True Cons.prems e show ?thesis by (simp add: al_delete_def)
  next
    case False
    with Cons e show ?thesis by (auto simp: al_delete_def add_mset_commute)
  qed
qed simp

lemma al_put_put [simp]: "al_put k v (al_put k w m) = al_put k v m"
  by (induction m) auto

subsection \<open>The invariant\<close>

text \<open>The requests that ended sessions reported.\<close>

fun reported_requests :: "span_call \<Rightarrow> int" where
  "reported_requests (SetAttributes i attrs) =
     (case map_of attrs ''llamaproxy.session.request_count'' of Some (IntVal n) \<Rightarrow> n | _ \<Rightarrow> 0)"
| "reported_requests c = 0"

definition counted_requests :: "sessionRegistry \<Rightarrow> int" where
  "counted_requests r =
     sum_list (map reported_requests (tr_calls (rg_tracer r))) + (\<Sum>e \<in># mset (rg_sessions r). ss_requests (snd e))"

text \<open>
  Every span started is either ended once, or belongs to exactly one live session, or is one of
  \<open>others\<close>, the open spans that are not the registry's.
\<close>

definition session_spans :: "sessionRegistry \<Rightarrow> nat multiset" where
  "session_spans r = image_mset (\<lambda>e. ss_span (snd e)) (mset (rg_sessions r))"

definition spans_once :: "nat multiset \<Rightarrow> sessionRegistry \<Rightarrow> bool" where
  "spans_once others r \<longleftrightarrow>
     tracer_ok (rg_tracer r) \<and>
     mset (ended_spans (rg_tracer r)) + session_spans r + others = mset [0..<tr_next (rg_tracer r)]"

definition span_begin :: "tracer \<Rightarrow> nat \<Rightarrow> go_time \<Rightarrow> bool" where
  "span_begin t i limit \<longleftrightarrow>
     list_ex (\<lambda>c. case c of StartSpan j name parent start attrs \<Rightarrow> j = i \<and> start \<le> limit | _ \<Rightarrow> False) (tr_calls t)"

definition session_ok :: "tracer \<Rightarrow> bytes \<Rightarrow> sessionState \<Rightarrow> bool" where
  "session_ok t k s \<longleftrightarrow>
     ss_id s = k \<and> 0 \<le> ss_refs s \<and> (ss_refs s = 0 \<longleftrightarrow> ss_timer s \<noteq> None) \<and>
     length (ss_models s) \<le> maxSessionModels \<and> distinct (ss_models s) \<and> [] \<notin> set (ss_models s) \<and>
     span_begin t (ss_span s) (ss_last s)"

definition ends_ok :: "tracer \<Rightarrow> bool" where
  "ends_ok t \<longleftrightarrow> list_all (\<lambda>c. case c of EndSpan i (Some at) \<Rightarrow> span_begin t i at | _ \<Rightarrow> True) (tr_calls t)"

text \<open>
  The invariant of a registry whose tracer others may write to as well. When they do, the times
  at which their spans end are theirs, so \<open>timed\<close> says whether \<open>ends_ok\<close> is part of it.
\<close>

definition registry_inv_among :: "nat multiset \<Rightarrow> bool \<Rightarrow> sessionRegistry \<Rightarrow> bool" where
  "registry_inv_among others timed r \<longleftrightarrow>
     distinct (al_keys (rg_sessions r)) \<and> (\<forall>(k, s) \<in> set (rg_sessions r). session_ok (rg_tracer r) k s) \<and>
     spans_once others r \<and> (timed \<longrightarrow> ends_ok (rg_tracer r)) \<and> (rg_closed r \<longrightarrow> rg_sessions r = [])"

abbreviation registry_inv :: "sessionRegistry \<Rightarrow> bool" where
  "registry_inv \<equiv> registry_inv_among {#} True"

lemma span_begin_call [simp]: "span_begin t i at \<Longrightarrow> span_begin (trace_call t c) i at"
  by (simp add: span_begin_def)

lemma span_begin_next [simp]: "span_begin (t\<lparr>tr_next := n\<rparr>) = span_begin t"
  by (simp add: fun_eq_iff span_begin_def)

lemma span_begin_later: "span_begin t i at \<Longrightarrow> at \<le> at' \<Longrightarrow> span_begin t i at'"
  by (auto simp: span_begin_def list_ex_iff split: span_call.splits) (metis order_trans)

lemma session_ok_call: "session_ok t k s \<Longrightarrow> session_ok (trace_call t c) k s"
  by (simp add: session_ok_def)

lemma ends_ok_call:
  assumes "ends_ok t" and "\<And>i at. c = EndSpan i (Some at) \<Longrightarrow> span_begin t i at"
  shows "ends_ok (trace_call t c)"
proof -
  have "list_all (\<lambda>c. case c of EndSpan i (Some at) \<Rightarrow> span_begin (trace_call t d) i at | _ \<Rightarrow> True) cs"
    if "list_all (\<lambda>c. case c of EndSpan i (Some at) \<Rightarrow> span_begin t i at | _ \<Rightarrow> True) cs" for cs d
    using that by (induction cs) (auto split: span_call.splits option.splits)
  with assms show ?thesis by (auto simp: ends_ok_def split: span_call.splits option.splits)
qed

lemma registry_lookup:
  assumes "registry_inv_among others timed r" and "al_lookup (rg_sessions r) k = Some s"
  shows "session_ok (rg_tracer r) k s"
  using assms al_lookup_in [OF assms(2)] by (auto simp: registry_inv_among_def)

subsection \<open>Ending a session\<close>

lemma finishLocked_eq:
  "finishLocked r s reason =
     r\<lparr>rg_sessions := al_delete (ss_id s) (rg_sessions r),
       rg_tracer := trace_call (trace_call (rg_tracer r) (SetAttributes (ss_span s) (session_end_attrs s reason)))
         (EndSpan (ss_span s) (Some (ss_last s)))\<rparr>"
  by (simp add: finishLocked_def Let_def)

lemma finishLocked_frame [simp]:
  "rg_closed (finishLocked r s reason) = rg_closed r" "rg_idle (finishLocked r s reason) = rg_idle r"
  "rg_sessions (finishLocked r s reason) = al_delete (ss_id s) (rg_sessions r)"
  by (simp_all add: finishLocked_eq)

lemma reported_end [simp]:
  "map_of (session_end_attrs s reason) ''llamaproxy.session.request_count'' = Some (IntVal (ss_requests s))"
  by (simp add: session_end_attrs_def)

lemma finishLocked_inv:
  assumes inv: "registry_inv_among others timed r" and s: "al_lookup (rg_sessions r) k = Some s"
  shows "registry_inv_among others timed (finishLocked r s reason)" "counted_requests (finishLocked r s reason) = counted_requests r"
proof -
  have ok: "session_ok (rg_tracer r) k s" by (rule registry_lookup [OF inv s])
  then have k: "ss_id s = k" by (simp add: session_ok_def)
  have d: "distinct (al_keys (rg_sessions r))" using inv by (simp add: registry_inv_among_def)
  have m: "mset (rg_sessions r) = add_mset (k, s) (mset (al_delete k (rg_sessions r)))"
    using mset_delete [OF d s] by simp
  have "spans_once others (finishLocked r s reason)"
    using inv m k by (simp add: registry_inv_among_def spans_once_def session_spans_def finishLocked_eq tracer_ok_call)
  moreover have "\<forall>(j, t) \<in> set (al_delete k (rg_sessions r)). session_ok (rg_tracer (finishLocked r s reason)) j t"
    using inv by (auto simp: registry_inv_among_def finishLocked_eq set_al_delete session_ok_call)
  moreover have "ends_ok (rg_tracer (finishLocked r s reason))" if timed
    using that inv ok by (auto simp: registry_inv_among_def finishLocked_eq session_ok_def intro!: ends_ok_call)
  ultimately show "registry_inv_among others timed (finishLocked r s reason)"
    using inv distinct_keys_delete [OF d] k by (auto simp: registry_inv_among_def) (simp_all add: al_delete_def)
  show "counted_requests (finishLocked r s reason) = counted_requests r"
    using m k by (simp add: counted_requests_def finishLocked_eq)
qed

subsection \<open>Updating a session\<close>

lemma put_session_frame [simp]:
  "rg_closed (put_session r s) = rg_closed r" "rg_idle (put_session r s) = rg_idle r"
  "rg_tracer (put_session r s) = rg_tracer r"
  "rg_sessions (put_session r s) = al_put (ss_id s) s (rg_sessions r)"
  by (simp_all add: put_session_def)

lemma put_session_inv:
  assumes inv: "registry_inv_among others timed r" and s: "al_lookup (rg_sessions r) k = Some s"
    and s': "session_ok (rg_tracer r) k s'" "ss_span s' = ss_span s"
  shows "registry_inv_among others timed (put_session r s')"
    and "counted_requests (put_session r s') = counted_requests r + (ss_requests s' - ss_requests s)"
proof -
  have k: "ss_id s' = k" using s'(1) by (simp add: session_ok_def)
  have d: "distinct (al_keys (rg_sessions r))" using inv by (simp add: registry_inv_among_def)
  obtain M where M: "mset (rg_sessions r) = add_mset (k, s) M"
    using al_lookup_in [OF s] by (metis in_multiset_in_set multi_member_split)
  then have M': "mset (al_put k s' (rg_sessions r)) = add_mset (k, s') M"
    using mset_put_old [OF s, of s'] by simp
  have "rg_sessions r \<noteq> []" using s by auto
  then have "\<not> rg_closed r" using inv by (auto simp: registry_inv_among_def)
  moreover have "spans_once others (put_session r s')"
    using inv s' k M M' by (simp add: registry_inv_among_def spans_once_def session_spans_def)
  ultimately show "registry_inv_among others timed (put_session r s')"
    using inv d s' k by (auto simp: registry_inv_among_def set_al_put)
  show "counted_requests (put_session r s') = counted_requests r + (ss_requests s' - ss_requests s)"
    using k M M' by (simp add: counted_requests_def)
qed

text \<open>Starting a session and putting its first state.\<close>

lemma new_session_inv:
  assumes inv: "registry_inv_among others timed r" and fresh: "al_lookup (rg_sessions r) k = None" and open_: "\<not> rg_closed r"
    and st: "start_span (rg_tracer r) SpanSession (NewRoot tid) start attrs = (t, i)"
    and s: "ss_id s = k" "ss_span s = i" "start \<le> ss_last s"
    and ok: "0 \<le> ss_refs s" "ss_refs s = 0 \<longleftrightarrow> ss_timer s \<noteq> None" "length (ss_models s) \<le> maxSessionModels"
      "distinct (ss_models s)" "[] \<notin> set (ss_models s)"
  shows "registry_inv_among others timed (put_session (r\<lparr>rg_tracer := t\<rparr>) s)"
    and "counted_requests (put_session (r\<lparr>rg_tracer := t\<rparr>) s) = counted_requests r + ss_requests s"
proof -
  have d: "distinct (al_keys (rg_sessions r))" using inv by (simp add: registry_inv_among_def)
  have t: "t = (trace_call (rg_tracer r) (StartSpan i SpanSession (NewRoot tid) start attrs))\<lparr>tr_next := i + 1\<rparr>"
    and i: "i = tr_next (rg_tracer r)" using st by (auto simp: start_span_def)
  have kn: "k \<notin> fst ` set (rg_sessions r)" using fresh by (simp add: al_lookup_None)
  have sb: "span_begin t i at" if "start \<le> at" for at
    using that by (auto simp: t span_begin_def)
  have old: "span_begin (rg_tracer r) j at \<Longrightarrow> span_begin t j at" for j at
    by (simp add: t span_begin_def)
  have "session_ok t k s" using s ok sb by (simp add: session_ok_def)
  moreover have "session_ok t j u" if "(j, u) \<in> set (rg_sessions r)" for j u
    using inv that old by (auto simp: registry_inv_among_def session_ok_def)
  moreover have "spans_once others (put_session (r\<lparr>rg_tracer := t\<rparr>) s)"
    using inv s mset_put_new [OF kn] by (simp add: registry_inv_among_def spans_once_def session_spans_def t i tracer_ok_def)
  moreover have "ends_ok t" if timed
  proof -
    have "ends_ok (trace_call (rg_tracer r) (StartSpan i SpanSession (NewRoot tid) start attrs))"
      using inv that by (intro ends_ok_call) (simp_all add: registry_inv_among_def)
    then show ?thesis unfolding t ends_ok_def span_begin_next by simp
  qed
  ultimately show "registry_inv_among others timed (put_session (r\<lparr>rg_tracer := t\<rparr>) s)"
    using inv d s open_ by (auto simp: registry_inv_among_def set_al_put)
  show "counted_requests (put_session (r\<lparr>rg_tracer := t\<rparr>) s) = counted_requests r + ss_requests s"
    using s mset_put_new [OF kn] by (simp add: counted_requests_def t)
qed

subsection \<open>Eviction\<close>

lemma oldest_idle_None: "oldest_idle None m = None \<longleftrightarrow> (\<forall>(k, s) \<in> set m. ss_refs s > 0)"
proof -
  have some: "(oldest_idle (Some s) m = None) = False" for s m
    by (induction "Some s" m arbitrary: s rule: oldest_idle.induct) auto
  show ?thesis by (induction m) (auto simp: some split: if_splits)
qed

text \<open>The session found is idle and no idle session was used before it.\<close>

lemma oldest_idle_Some:
  assumes "oldest_idle x m = Some s"
  shows "x = Some s \<or> (\<exists>k. (k, s) \<in> set m \<and> ss_refs s \<le> 0)"
    and "\<forall>(k, u) \<in> set m. ss_refs u \<le> 0 \<longrightarrow> ss_last s \<le> ss_last u"
    and "\<And>v. x = Some v \<Longrightarrow> ss_last s \<le> ss_last v"
proof -
  have "(x = Some s \<or> (\<exists>k. (k, s) \<in> set m \<and> ss_refs s \<le> 0)) \<and>
      (\<forall>(k, u) \<in> set m. ss_refs u \<le> 0 \<longrightarrow> ss_last s \<le> ss_last u) \<and> (\<forall>v. x = Some v \<longrightarrow> ss_last s \<le> ss_last v)"
    using assms
  proof (induction x m rule: oldest_idle.induct)
    case (2 oldest k u rest)
    show ?case
    proof (cases "ss_refs u > 0")
      case True
      with 2 show ?thesis by auto
    next
      case False
      with 2 show ?thesis
        by (cases oldest; cases "ss_last u < ss_last (the oldest)") (auto intro: order_trans less_imp_le)
    qed
  qed simp
  then show "x = Some s \<or> (\<exists>k. (k, s) \<in> set m \<and> ss_refs s \<le> 0)"
    "\<forall>(k, u) \<in> set m. ss_refs u \<le> 0 \<longrightarrow> ss_last s \<le> ss_last u"
    "\<And>v. x = Some v \<Longrightarrow> ss_last s \<le> ss_last v" by auto
qed

lemma oldest_idle_live:
  assumes inv: "registry_inv_among others timed r" and s: "oldest_idle None (rg_sessions r) = Some s"
  shows "al_lookup (rg_sessions r) (ss_id s) = Some s" "ss_refs s = 0"
proof -
  obtain k where k: "(k, s) \<in> set (rg_sessions r)" "ss_refs s \<le> 0" using oldest_idle_Some(1) [OF s] by auto
  with inv have "session_ok (rg_tracer r) k s" by (auto simp: registry_inv_among_def)
  with k show "al_lookup (rg_sessions r) (ss_id s) = Some s" "ss_refs s = 0"
    using inv by (auto simp: session_ok_def registry_inv_among_def al_lookup_iff)
qed

text \<open>
  What eviction keeps: the invariant, the count of requests, every session that is referenced,
  and nothing new.
\<close>

definition evicts :: "nat multiset \<Rightarrow> bool \<Rightarrow> sessionRegistry \<Rightarrow> sessionRegistry \<Rightarrow> bool" where
  "evicts others timed r r' \<longleftrightarrow>
     registry_inv_among others timed r' \<and> counted_requests r' = counted_requests r \<and> rg_closed r' = rg_closed r \<and> rg_idle r' = rg_idle r \<and>
     set (rg_sessions r') \<subseteq> set (rg_sessions r) \<and>
     (\<forall>e \<in> set (rg_sessions r). ss_refs (snd e) > 0 \<longrightarrow> e \<in> set (rg_sessions r'))"

lemma evict_rounds_evicts: "registry_inv_among others timed r \<Longrightarrow> evicts others timed r (evict_rounds n r)"
proof (induction n r rule: evict_rounds.induct)
  case (2 n r)
  show ?case
  proof (cases "length (rg_sessions r) \<ge> maxTrackedSessions \<and> oldest_idle None (rg_sessions r) \<noteq> None")
    case True
    then obtain s where s: "oldest_idle None (rg_sessions r) = Some s" by auto
    note live = oldest_idle_live [OF "2.prems" s]
    note fin = finishLocked_inv [OF "2.prems" live(1), of SessionEndEvicted]
    have IH: "evicts others timed (finishLocked r s SessionEndEvicted) (evict_rounds n (finishLocked r s SessionEndEvicted))"
      using "2.IH" [OF _ s fin(1)] True by blast
    have keep: "e \<in> set (al_delete (ss_id s) (rg_sessions r))" if e: "e \<in> set (rg_sessions r)" "ss_refs (snd e) > 0" for e
    proof -
      have "fst e \<noteq> ss_id s"
      proof
        assume "fst e = ss_id s"
        with e(1) have "(ss_id s, snd e) \<in> set (rg_sessions r)" by (metis prod.collapse)
        with "2.prems" live(1) have "snd e = s" by (auto simp: registry_inv_among_def al_lookup_iff [symmetric])
        with live(2) e(2) show False by simp
      qed
      with e(1) show ?thesis by (simp add: set_al_delete)
    qed
    from IH fin keep have "evicts others timed r (evict_rounds n (finishLocked r s SessionEndEvicted))"
      by (auto simp: evicts_def set_al_delete)
    with True s show ?thesis by simp
  qed (use "2.prems" in \<open>auto simp: evicts_def split: option.split\<close>)
qed (simp add: evicts_def)

lemma evict_done:
  assumes "registry_inv_among others timed r" and "length (rg_sessions r) \<le> n"
  shows "length (rg_sessions (evict_rounds n r)) < maxTrackedSessions \<or> (\<forall>e \<in> set (rg_sessions (evict_rounds n r)). ss_refs (snd e) > 0)"
  using assms
proof (induction n r rule: evict_rounds.induct)
  case (1 r)
  then show ?case by (simp add: maxTrackedSessions_def)
next
  case (2 n r)
  show ?case
  proof (cases "length (rg_sessions r) \<ge> maxTrackedSessions \<and> oldest_idle None (rg_sessions r) \<noteq> None")
    case True
    then obtain s where s: "oldest_idle None (rg_sessions r) = Some s" by auto
    note live = oldest_idle_live [OF "2.prems"(1) s]
    have "ss_id s \<in> fst ` set (rg_sessions r)" using al_lookup_in [OF live(1)] by force
    then have "length (rg_sessions (finishLocked r s SessionEndEvicted)) \<le> n"
      using "2.prems" by (simp add: length_al_delete registry_inv_among_def)
    with "2.IH" [OF _ s finishLocked_inv(1) [OF "2.prems"(1) live(1)]] True s show ?thesis by simp
  next
    case False
    then show ?thesis
      using oldest_idle_None [of "rg_sessions r"] by (auto split: option.split)
  qed
qed

lemma evictLocked_evicts: "registry_inv_among others timed r \<Longrightarrow> evicts others timed r (evictLocked r)"
  by (simp add: evictLocked_def evict_rounds_evicts)

subsection \<open>References\<close>

definition refs_of :: "sessionRegistry \<Rightarrow> bytes \<Rightarrow> int" where
  "refs_of r k = (case al_lookup (rg_sessions r) k of Some s \<Rightarrow> ss_refs s | None \<Rightarrow> 0)"

lemma evicts_refs:
  assumes inv: "registry_inv_among others timed r" and e: "evicts others timed r r'"
  shows "refs_of r' k = refs_of r k"
proof (cases "al_lookup (rg_sessions r') k")
  case (Some s)
  then have "(k, s) \<in> set (rg_sessions r)" using e al_lookup_in by (force simp: evicts_def)
  then have "al_lookup (rg_sessions r) k = Some s" using inv by (simp add: registry_inv_among_def al_lookup_iff)
  with Some show ?thesis by (simp add: refs_of_def)
next
  case None
  have "ss_refs s = 0" if s: "al_lookup (rg_sessions r) k = Some s" for s
  proof -
    have "(k, s) \<notin> set (rg_sessions r')" using None by (auto simp: al_lookup_None image_iff)
    with e al_lookup_in [OF s] have "\<not> ss_refs s > 0" by (force simp: evicts_def)
    with registry_lookup [OF inv s] show ?thesis by (simp add: session_ok_def)
  qed
  with None show ?thesis by (auto simp: refs_of_def split: option.split)
qed

lemma observeModel_ok:
  "length (ss_models (observeModel s m)) \<le> maxSessionModels \<longleftrightarrow> length (ss_models s) \<le> maxSessionModels"
  "distinct (ss_models s) \<Longrightarrow> distinct (ss_models (observeModel s m))"
  "[] \<notin> set (ss_models s) \<Longrightarrow> [] \<notin> set (ss_models (observeModel s m))"
  by (auto simp: observeModel_def)

lemma observeModel_frame [simp]:
  "ss_id (observeModel s m) = ss_id s" "ss_span (observeModel s m) = ss_span s" "ss_refs (observeModel s m) = ss_refs s"
  "ss_requests (observeModel s m) = ss_requests s" "ss_last (observeModel s m) = ss_last s"
  "ss_timer (observeModel s m) = ss_timer s" "ss_userAgent (observeModel s m) = ss_userAgent s"
  by (simp_all add: observeModel_def)

text \<open>What \<open>acquire\<close> does to the state of the session.\<close>

definition acquired_state :: "sessionState \<Rightarrow> go_time \<Rightarrow> bytes \<Rightarrow> bytes \<Rightarrow> sessionState" where
  "acquired_state s0 start model ua =
     (let s1 = s0\<lparr>ss_refs := ss_refs s0 + 1, ss_requests := ss_requests s0 + 1\<rparr>;
          s2 = (if start > ss_last s1 then s1\<lparr>ss_last := start\<rparr> else s1);
          s3 = observeModel s2 model;
          s4 = (if ss_userAgent s3 = [] then s3\<lparr>ss_userAgent := ua\<rparr> else s3)
      in s4\<lparr>ss_timer := None\<rparr>)"

lemma acquired_state_simps [simp]:
  "ss_id (acquired_state s start model ua) = ss_id s" "ss_span (acquired_state s start model ua) = ss_span s"
  "ss_refs (acquired_state s start model ua) = ss_refs s + 1"
  "ss_requests (acquired_state s start model ua) = ss_requests s + 1"
  "ss_last (acquired_state s start model ua) = max (ss_last s) start"
  "ss_timer (acquired_state s start model ua) = None"
  by (simp_all add: acquired_state_def Let_def)

lemma acquired_state_models:
  "ss_models (acquired_state s start model ua) = ss_models (observeModel s model)"
  by (simp add: acquired_state_def Let_def observeModel_def)

lemma acquire_live:
  assumes "\<not> rg_closed r" and "al_lookup (rg_sessions r) sid = Some s"
  shows "acquire r sid tid start model ua = (put_session r (acquired_state s start model ua), Some (ss_span s))"
  using assms by (simp add: acquire_def live_or_new_def acquired_state_def Let_def)

definition fresh_session :: "bytes \<Rightarrow> nat \<Rightarrow> go_time \<Rightarrow> sessionState" where
  "fresh_session sid span start =
     \<lparr>ss_id = sid, ss_span = span, ss_refs = 0, ss_requests = 0, ss_last = start, ss_models = [], ss_userAgent = [],
      ss_timer = None\<rparr>"

lemma acquire_new:
  assumes "\<not> rg_closed r" and "al_lookup (rg_sessions r) sid = None"
    and "start_span (rg_tracer (evictLocked r)) SpanSession (NewRoot tid) start (session_attrs sid) = (t, i)"
  shows "acquire r sid tid start model ua =
     (put_session ((evictLocked r)\<lparr>rg_tracer := t\<rparr>) (acquired_state (fresh_session sid i start) start model ua), Some i)"
  using assms
  by (simp add: acquire_def live_or_new_def acquired_state_def fresh_session_def Let_def put_session_def observeModel_def)

lemma refs_put:
  "ss_id s = sid \<Longrightarrow> refs_of (put_session r s) k = (if k = sid then ss_refs s else refs_of r k)"
  by (simp add: refs_of_def put_session_def)

lemma refs_tracer [simp]: "refs_of (r\<lparr>rg_tracer := t\<rparr>) k = refs_of r k"
  by (simp add: refs_of_def)

lemma acquire_inv:
  assumes inv: "registry_inv_among others timed r" and open_: "\<not> rg_closed r" and acq: "acquire r sid tid start model ua = (r', res)"
  shows "registry_inv_among others timed r'" "counted_requests r' = counted_requests r + 1" "\<not> rg_closed r'"
    "refs_of r' k = refs_of r k + (if k = sid then 1 else 0)" "res \<noteq> None"
proof -
  have "registry_inv_among others timed r' \<and> counted_requests r' = counted_requests r + 1 \<and> \<not> rg_closed r' \<and>
      refs_of r' k = refs_of r k + (if k = sid then 1 else 0) \<and> res \<noteq> None"
  proof (cases "al_lookup (rg_sessions r) sid")
    case (Some s)
    have ok: "session_ok (rg_tracer r) sid s" by (rule registry_lookup [OF inv Some])
    let ?s = "acquired_state s start model ua"
    have "session_ok (rg_tracer r) sid ?s"
      using ok span_begin_later [of "rg_tracer r" "ss_span s" "ss_last s" "max (ss_last s) start"] observeModel_ok [of s model]
      by (auto simp: session_ok_def acquired_state_models)
    note put = put_session_inv [OF inv Some this]
    have "refs_of r sid = ss_refs s" "ss_id s = sid" using Some ok by (simp_all add: refs_of_def session_ok_def)
    with put acquire_live [OF open_ Some] acq open_ show ?thesis
      by (auto simp: refs_put)
  next
    case None
    have ev: "evicts others timed r (evictLocked r)" by (rule evictLocked_evicts [OF inv])
    obtain t i where st: "start_span (rg_tracer (evictLocked r)) SpanSession (NewRoot tid) start (session_attrs sid) = (t, i)"
      by force
    have fresh: "al_lookup (rg_sessions (evictLocked r)) sid = None"
      using ev None by (fastforce simp: evicts_def al_lookup_None image_iff)
    let ?s = "acquired_state (fresh_session sid i start) start model ua"
    have "registry_inv_among others timed (evictLocked r)" "\<not> rg_closed (evictLocked r)" using ev open_ by (auto simp: evicts_def)
    note new = new_session_inv [OF this(1) fresh this(2) st, of ?s]
    have "[] \<notin> set (ss_models ?s) \<and> distinct (ss_models ?s) \<and> length (ss_models ?s) \<le> maxSessionModels"
      unfolding acquired_state_models using observeModel_ok [of "fresh_session sid i start" model] by (simp add: fresh_session_def)
    with new have "registry_inv_among others timed (put_session ((evictLocked r)\<lparr>rg_tracer := t\<rparr>) ?s)"
      "counted_requests (put_session ((evictLocked r)\<lparr>rg_tracer := t\<rparr>) ?s) = counted_requests (evictLocked r) + 1"
      by (auto simp: fresh_session_def)
    moreover have "refs_of r sid = 0" using None by (simp add: refs_of_def)
    moreover have "refs_of (evictLocked r) k = refs_of r k" by (rule evicts_refs [OF inv ev])
    ultimately show ?thesis
      using acquire_new [OF open_ None st] acq ev open_
      by (auto simp: refs_put [where sid = sid] fresh_session_def evicts_def)
  qed
  then show "registry_inv_among others timed r'" "counted_requests r' = counted_requests r + 1" "\<not> rg_closed r'"
    "refs_of r' k = refs_of r k + (if k = sid then 1 else 0)" "res \<noteq> None" by auto
qed

lemma release_inv:
  assumes inv: "registry_inv_among others timed r" and refs: "rg_closed r \<or> refs_of r sid \<ge> 1"
  shows "registry_inv_among others timed (release r sid at)" "counted_requests (release r sid at) = counted_requests r"
    "rg_closed (release r sid at) = rg_closed r"
    "\<not> rg_closed r \<Longrightarrow> refs_of (release r sid at) k = refs_of r k - (if k = sid then 1 else 0)"
proof -
  have "registry_inv_among others timed (release r sid at) \<and> counted_requests (release r sid at) = counted_requests r \<and>
    rg_closed (release r sid at) = rg_closed r \<and>
    (\<not> rg_closed r \<longrightarrow> refs_of (release r sid at) k = refs_of r k - (if k = sid then 1 else 0))"
  proof (cases "al_lookup (rg_sessions r) sid")
    case None
    with inv refs show ?thesis by (auto simp: release_def refs_of_def)
  next
    case (Some s)
    have ok: "session_ok (rg_tracer r) sid s" by (rule registry_lookup [OF inv Some])
    have "rg_sessions r \<noteq> []" using Some by auto
    then have op: "\<not> rg_closed r" using inv by (auto simp: registry_inv_among_def)
    with refs Some have r1: "1 \<le> ss_refs s" by (simp add: refs_of_def)
    let ?s = "if ss_refs s - 1 > 0 then s\<lparr>ss_refs := ss_refs s - 1, ss_last := max (ss_last s) at\<rparr>
      else s\<lparr>ss_refs := ss_refs s - 1, ss_last := max (ss_last s) at, ss_timer := Some (rg_idle r)\<rparr>"
    have eq: "release r sid at = put_session r ?s"
      using Some op by (auto simp: release_def Let_def armLocked_def max_def)
    have "session_ok (rg_tracer r) sid ?s"
      using ok r1 span_begin_later [of "rg_tracer r" "ss_span s" "ss_last s" "max (ss_last s) at"]
      by (auto simp: session_ok_def)
    with put_session_inv [OF inv Some, of ?s] ok Some show ?thesis
      unfolding eq by (auto simp: refs_put [where sid = sid] session_ok_def) (simp_all add: refs_of_def)
  qed
  then show "registry_inv_among others timed (release r sid at)" "counted_requests (release r sid at) = counted_requests r"
    "rg_closed (release r sid at) = rg_closed r"
    "\<not> rg_closed r \<Longrightarrow> refs_of (release r sid at) k = refs_of r k - (if k = sid then 1 else 0)" by auto
qed

lemma expire_inv:
  assumes inv: "registry_inv_among others timed r"
  shows "registry_inv_among others timed (expire r sid now)" "counted_requests (expire r sid now) = counted_requests r"
    "rg_closed (expire r sid now) = rg_closed r" "refs_of (expire r sid now) k = refs_of r k"
proof -
  have "registry_inv_among others timed (expire r sid now) \<and> counted_requests (expire r sid now) = counted_requests r \<and>
    rg_closed (expire r sid now) = rg_closed r \<and> refs_of (expire r sid now) k = refs_of r k"
  proof (cases "al_lookup (rg_sessions r) sid")
    case None
    with inv show ?thesis by (simp add: expire_def)
  next
    case (Some s)
    have ok: "session_ok (rg_tracer r) sid s" by (rule registry_lookup [OF inv Some])
    show ?thesis
    proof (cases "ss_refs s > 0")
      case True
      with inv Some show ?thesis by (simp add: expire_def)
    next
      case False
      then have z: "ss_refs s = 0" using ok by (simp add: session_ok_def)
      have "session_ok (rg_tracer r) sid (armLocked s d)" for d
        using ok z by (simp add: session_ok_def armLocked_def)
      note arm = put_session_inv [OF inv Some this]
      have sid: "ss_id s = sid" using ok by (simp add: session_ok_def)
      from arm finishLocked_inv [OF inv Some, of SessionEndIdle] show ?thesis
        using Some z sid
        by (auto simp: expire_def Let_def refs_put [where sid = sid] armLocked_def) (simp_all add: refs_of_def)
    qed
  qed
  then show "registry_inv_among others timed (expire r sid now)" "counted_requests (expire r sid now) = counted_requests r"
    "rg_closed (expire r sid now) = rg_closed r" "refs_of (expire r sid now) k = refs_of r k" by auto
qed

lemma finish_all_inv:
  assumes "registry_inv_among others timed (r\<lparr>rg_closed := b\<rparr>)" and "\<not> b" and "map snd (rg_sessions r) = ss"
  shows "registry_inv_among others timed (foldl (\<lambda>r s. finishLocked r s reason) (r\<lparr>rg_closed := True\<rparr>) ss) \<and>
    rg_sessions (foldl (\<lambda>r s. finishLocked r s reason) (r\<lparr>rg_closed := True\<rparr>) ss) = [] \<and>
    rg_closed (foldl (\<lambda>r s. finishLocked r s reason) (r\<lparr>rg_closed := True\<rparr>) ss) \<and>
    counted_requests (foldl (\<lambda>r s. finishLocked r s reason) (r\<lparr>rg_closed := True\<rparr>) ss) = counted_requests r"
  using assms
proof (induction ss arbitrary: r)
  case Nil
  then show ?case by (simp add: registry_inv_among_def spans_once_def session_spans_def counted_requests_def)
next
  case (Cons s ss)
  let ?r = "r\<lparr>rg_closed := b\<rparr>"
  obtain k m where m: "rg_sessions r = (k, s) # m" "map snd m = ss" using Cons.prems(3) by (cases "rg_sessions r") auto
  then have lk: "al_lookup (rg_sessions ?r) k = Some s" by simp
  then have sid: "ss_id s = k" using registry_lookup [OF Cons.prems(1) lk] by (simp add: session_ok_def)
  have "k \<notin> fst ` set m" using Cons.prems(1) m by (simp add: registry_inv_among_def)
  then have del: "al_delete k (rg_sessions r) = m"
    using m al_delete_notin [of k m] by (simp add: al_delete_def)
  let ?f = "finishLocked r s reason"
  have eq: "?f\<lparr>rg_closed := b\<rparr> = finishLocked ?r s reason" "finishLocked (r\<lparr>rg_closed := True\<rparr>) s reason = ?f\<lparr>rg_closed := True\<rparr>"
    by (simp_all add: finishLocked_eq)
  note fin = finishLocked_inv [OF Cons.prems(1) lk, of reason]
  have IH: "registry_inv_among others timed (?f\<lparr>rg_closed := b\<rparr>)" "map snd (rg_sessions ?f) = ss"
    using fin(1) m del sid by (simp_all add: eq)
  have "counted_requests ?f = counted_requests r"
    using fin(2) by (simp add: counted_requests_def finishLocked_eq)
  with Cons.IH [OF IH(1) Cons.prems(2) IH(2)] show ?case by (simp add: eq(2))
qed

lemma closeAll_inv:
  assumes "registry_inv_among others timed r"
  shows "registry_inv_among others timed (closeAll r)" "rg_sessions (closeAll r) = []" "rg_closed (closeAll r)"
    "counted_requests (closeAll r) = counted_requests r"
proof -
  have "registry_inv_among others timed (closeAll r) \<and> rg_sessions (closeAll r) = [] \<and> rg_closed (closeAll r) \<and>
    counted_requests (closeAll r) = counted_requests r"
  proof (cases "rg_closed r")
    case True
    then have "rg_sessions r = []" using assms by (simp add: registry_inv_among_def)
    moreover have "r\<lparr>rg_closed := True\<rparr> = r" using True by (cases r) simp
    ultimately have "closeAll r = r" by (simp only: closeAll_def list.map foldl.simps)
    with True assms \<open>rg_sessions r = []\<close> show ?thesis by simp
  next
    case False
    then have "r\<lparr>rg_closed := False\<rparr> = r" by simp
    with finish_all_inv [where r = r and b = False and ss = "map snd (rg_sessions r)" and reason = SessionEndShutdown] assms
    show ?thesis by (simp add: closeAll_def)
  qed
  then show "registry_inv_among others timed (closeAll r)" "rg_sessions (closeAll r) = []" "rg_closed (closeAll r)"
    "counted_requests (closeAll r) = counted_requests r" by auto
qed

subsection \<open>Requests, timers and shutdown in any order\<close>

record session_world =
  w_reg :: sessionRegistry
  w_open :: "bytes list"
  w_acquired :: int

definition session_start :: "session_world \<Rightarrow> bool" where
  "session_start w \<longleftrightarrow> (\<exists>idle. w = \<lparr>w_reg = newSessionRegistry new_tracer idle, w_open = [], w_acquired = 0\<rparr>)"

inductive session_step :: "session_world \<Rightarrow> session_world \<Rightarrow> bool" where
  step_acquire: "acquire (w_reg w) sid tid start model ua = (r, Some span) \<Longrightarrow>
    session_step w \<lparr>w_reg = r, w_open = sid # w_open w, w_acquired = w_acquired w + 1\<rparr>"
| step_refused: "acquire (w_reg w) sid tid start model ua = (r, None) \<Longrightarrow> session_step w (w\<lparr>w_reg := r\<rparr>)"
| step_release: "sid \<in> set (w_open w) \<Longrightarrow>
    session_step w (w\<lparr>w_reg := release (w_reg w) sid at, w_open := remove1 sid (w_open w)\<rparr>)"
| step_expire: "session_step w (w\<lparr>w_reg := expire (w_reg w) sid now\<rparr>)"
| step_close: "session_step w (w\<lparr>w_reg := closeAll (w_reg w)\<rparr>)"

inductive_cases session_stepE: "session_step w w'"

definition world_inv :: "session_world \<Rightarrow> bool" where
  "world_inv w \<longleftrightarrow>
     registry_inv (w_reg w) \<and> counted_requests (w_reg w) = w_acquired w \<and>
     (\<not> rg_closed (w_reg w) \<longrightarrow> (\<forall>k. refs_of (w_reg w) k = int (count (mset (w_open w)) k)))"

lemma session_start_inv: "session_start w \<Longrightarrow> world_inv w"
  by (auto simp: session_start_def world_inv_def newSessionRegistry_def registry_inv_among_def spans_once_def session_spans_def
      ends_ok_def counted_requests_def refs_of_def new_tracer_def tracer_ok_def started_spans_def ended_spans_def
      map_filter_def)

lemma session_step_inv:
  assumes inv: "world_inv w" and step: "session_step w w'"
  shows "world_inv w'"
  using step
proof cases
  case (step_acquire sid tid start model ua r span)
  then have op: "\<not> rg_closed (w_reg w)" by (auto simp: acquire_def)
  have reg: "registry_inv (w_reg w)" using inv by (simp add: world_inv_def)
  note acq = acquire_inv [OF reg op step_acquire(2)]
  from acq(1,2,3) acq(4) inv op show ?thesis by (simp add: step_acquire(1) world_inv_def)
next
  case (step_refused sid tid start model ua r)
  then have "r = w_reg w"
    using acquire_inv(5) [of "{#}" True "w_reg w" sid tid start model ua r None] inv
    by (cases "rg_closed (w_reg w)") (auto simp: acquire_def world_inv_def)
  with step_refused inv show ?thesis by (simp add: world_inv_def)
next
  case (step_release sid at)
  have reg: "registry_inv (w_reg w)" using inv by (simp add: world_inv_def)
  have c: "0 < count (mset (w_open w)) sid" using step_release(2) by simp
  then have "rg_closed (w_reg w) \<or> refs_of (w_reg w) sid \<ge> 1"
    using inv by (cases "rg_closed (w_reg w)") (simp_all add: world_inv_def)
  note rel = release_inv [OF reg this, of at]
  from rel inv c show ?thesis by (auto simp: step_release(1) world_inv_def of_nat_diff)
next
  case (step_expire sid now)
  have reg: "registry_inv (w_reg w)" using inv by (simp add: world_inv_def)
  from expire_inv [OF reg, of sid now] inv show ?thesis by (simp add: step_expire world_inv_def)
next
  case step_close
  have reg: "registry_inv (w_reg w)" using inv by (simp add: world_inv_def)
  from closeAll_inv [OF reg] inv show ?thesis by (simp add: step_close world_inv_def)
qed

interpretation sessions: transition_system session_step session_start world_inv
  by unfold_locales (auto intro: session_start_inv session_step_inv)

text \<open>
  Whatever requests, timers and shutdown do, the span of a session is ended at most once:
  every span started has either been ended once, or belongs to exactly one live session; once
  the registry is closed, every span started has been ended exactly once. No span ends before
  it starts.
\<close>

lemma session_spans_end_once:
  assumes "session_start w" and "session_step\<^sup>*\<^sup>* w w'"
  shows "let r = w_reg w'; t = rg_tracer r in
     mset (ended_spans t) + image_mset (\<lambda>e. ss_span (snd e)) (mset (rg_sessions r)) = mset (started_spans t) \<and>
     distinct (started_spans t) \<and> (rg_closed r \<longrightarrow> mset (ended_spans t) = mset (started_spans t)) \<and> ends_ok t"
  using sessions.reachable_inv [OF assms]
  by (auto simp: world_inv_def registry_inv_among_def spans_once_def session_spans_def tracer_ok_def Let_def)

definition example_world :: session_world where
  "example_world = \<lparr>w_reg = newSessionRegistry new_tracer 10, w_open = [], w_acquired = 0\<rparr>"

definition example_acquired :: session_world where
  "example_acquired =
     \<lparr>w_reg = fst (acquire (w_reg example_world) ''s'' ''t'' 3 ''m'' ''ua''), w_open = [''s''], w_acquired = 1\<rparr>"

lemma example_run: "session_start example_world" "session_step\<^sup>*\<^sup>* example_world example_acquired"
proof -
  show "session_start example_world" by (auto simp: session_start_def example_world_def)
  have "acquire (w_reg example_world) ''s'' ''t'' 3 ''m'' ''ua'' = (w_reg example_acquired, Some 0)"
    unfolding example_acquired_def by code_simp
  from step_acquire [OF this] show "session_step\<^sup>*\<^sup>* example_world example_acquired"
    by (intro r_into_rtranclp) (simp add: example_acquired_def example_world_def)
qed

lemma example_closed:
  "session_step\<^sup>*\<^sup>* example_world (example_acquired\<lparr>w_reg := closeAll (w_reg example_acquired)\<rparr>)"
  using example_run(2) step_close by (rule rtranclp.rtrancl_into_rtrancl)

lemma session_spans_end_once_witness:
  "let r = closeAll (w_reg example_acquired); t = rg_tracer r in
     mset (ended_spans t) + image_mset (\<lambda>e. ss_span (snd e)) (mset (rg_sessions r)) = mset (started_spans t) \<and>
     distinct (started_spans t) \<and> mset (ended_spans t) = mset (started_spans t) \<and> ends_ok t"
proof -
  have "rg_closed (closeAll (w_reg example_acquired))" by code_simp
  moreover have reg: "w_reg (example_acquired\<lparr>w_reg := closeAll (w_reg example_acquired)\<rparr>) = closeAll (w_reg example_acquired)"
    by simp
  ultimately show ?thesis
    using session_spans_end_once [OF example_run(1) example_closed] unfolding Let_def reg by blast
qed

text \<open>
  As long as the registry is open, a session counts exactly the requests that use it: a
  session with a request in flight is live, is not waiting for its idle timer, and so can be
  neither evicted nor expired; a session without one has its timer armed, so it will expire.
\<close>

lemma session_references_exact:
  assumes "session_start w" and "session_step\<^sup>*\<^sup>* w w'" and "\<not> rg_closed (w_reg w')"
  shows "refs_of (w_reg w') k = int (count (mset (w_open w')) k) \<and>
     (k \<in> set (w_open w') \<longrightarrow> (\<exists>s. al_lookup (rg_sessions (w_reg w')) k = Some s \<and> ss_refs s > 0 \<and> ss_timer s = None)) \<and>
     (\<forall>s. al_lookup (rg_sessions (w_reg w')) k = Some s \<and> k \<notin> set (w_open w') \<longrightarrow> ss_timer s \<noteq> None)"
proof -
  have inv: "world_inv w'" by (rule sessions.reachable_inv [OF assms(1,2)])
  then have refs: "refs_of (w_reg w') k = int (count (mset (w_open w')) k)"
    using assms(3) by (simp add: world_inv_def)
  have ok: "session_ok (rg_tracer (w_reg w')) k s" if "al_lookup (rg_sessions (w_reg w')) k = Some s" for s
    using inv that by (auto simp: world_inv_def intro: registry_lookup)
  have "count (mset (w_open w')) k > 0 \<longleftrightarrow> k \<in> set (w_open w')" by simp
  with refs ok show ?thesis
    by (cases "al_lookup (rg_sessions (w_reg w')) k") (auto simp: refs_of_def session_ok_def)
qed

lemma session_references_exact_witness:
  "refs_of (w_reg example_acquired) ''s'' = int (count (mset (w_open example_acquired)) ''s'') \<and>
   (\<exists>s. al_lookup (rg_sessions (w_reg example_acquired)) ''s'' = Some s \<and> ss_refs s > 0 \<and> ss_timer s = None)"
proof -
  have "\<not> rg_closed (w_reg example_acquired)" by code_simp
  moreover have "''s'' \<in> set (w_open example_acquired)" by (simp add: example_acquired_def)
  ultimately show ?thesis using session_references_exact [OF example_run] by blast
qed

text \<open>
  C14: no request is lost in the session spans: the requests reported by ended sessions and
  those counted in live ones are exactly the acquisitions that were granted.
\<close>

theorem session_requests_counted:
  assumes "session_start w" and "session_step\<^sup>*\<^sup>* w w'"
  shows "counted_requests (w_reg w') = w_acquired w'"
  using sessions.reachable_inv [OF assms] by (simp add: world_inv_def)

theorem session_requests_counted_witness:
  "counted_requests (w_reg (example_acquired\<lparr>w_reg := closeAll (w_reg example_acquired)\<rparr>)) =
   w_acquired (example_acquired\<lparr>w_reg := closeAll (w_reg example_acquired)\<rparr>)"
  by (rule session_requests_counted [OF example_run(1) example_closed])

lemma evict_rounds_oldest:
  assumes "registry_inv r" and "(k, s) \<in> set (rg_sessions r) - set (rg_sessions (evict_rounds n r))"
    and "(l, u) \<in> set (rg_sessions (evict_rounds n r))" and "ss_refs u = 0"
  shows "ss_last s \<le> ss_last u"
  using assms
proof (induction n r rule: evict_rounds.induct)
  case (2 n r)
  show ?case
  proof (cases "length (rg_sessions r) \<ge> maxTrackedSessions \<and> oldest_idle None (rg_sessions r) \<noteq> None")
    case True
    then obtain o' where o': "oldest_idle None (rg_sessions r) = Some o'" by auto
    note live = oldest_idle_live [OF "2.prems"(1) o']
    note fin = finishLocked_inv(1) [OF "2.prems"(1) live(1), of SessionEndEvicted]
    have ev: "evict_rounds (Suc n) r = evict_rounds n (finishLocked r o' SessionEndEvicted)"
      using True o' by simp
    have sub: "set (rg_sessions (evict_rounds n (finishLocked r o' SessionEndEvicted))) \<subseteq> set (al_delete (ss_id o') (rg_sessions r))"
      using evict_rounds_evicts [OF fin, of n] by (simp add: evicts_def)
    show ?thesis
    proof (cases "(k, s) \<in> set (al_delete (ss_id o') (rg_sessions r))")
      case kept: True
      have IH: "(k, s) \<in> set (rg_sessions (finishLocked r o' SessionEndEvicted)) - set (rg_sessions (evict_rounds n (finishLocked r o' SessionEndEvicted)))"
        "(l, u) \<in> set (rg_sessions (evict_rounds n (finishLocked r o' SessionEndEvicted)))"
        using "2.prems"(2,3) kept unfolding ev by simp_all
      show ?thesis by (rule "2.IH" [OF _ o' fin IH "2.prems"(4)]) (use True in blast)
    next
      case False
      with "2.prems"(2) have "k = ss_id o'" by (auto simp: set_al_delete)
      moreover have "al_lookup (rg_sessions r) k = Some s"
        using "2.prems"(1,2) by (simp add: registry_inv_among_def al_lookup_iff)
      ultimately have "s = o'" using live(1) by simp
      moreover have "(l, u) \<in> set (rg_sessions r)" using "2.prems"(3) sub unfolding ev by (auto simp: set_al_delete)
      ultimately show ?thesis using oldest_idle_Some(2) [OF o'] "2.prems"(4) by auto
    qed
  next
    case False
    with "2.prems"(2) show ?thesis by (auto split: option.splits if_splits)
  qed
qed simp

text \<open>
  A request for a new session leaves at most 1024 sessions, unless all the others have
  requests in flight; to make room it ends only idle sessions, each used no later than any
  idle one that stays.
\<close>

lemma eviction_bounds_sessions:
  assumes "session_start w" and "session_step\<^sup>*\<^sup>* w w'"
    and "al_lookup (rg_sessions (w_reg w')) sid = None"
    and "acquire (w_reg w') sid tid start model ua = (r, Some i)"
  shows "(length (rg_sessions r) \<le> 1024 \<or> (\<forall>e \<in> set (rg_sessions r). ss_refs (snd e) > 0)) \<and>
     (\<forall>e \<in> set (rg_sessions (w_reg w')) - set (rg_sessions r). ss_refs (snd e) = 0 \<and>
        (\<forall>e' \<in> set (rg_sessions r). ss_refs (snd e') = 0 \<longrightarrow> ss_last (snd e) \<le> ss_last (snd e')))"
proof -
  let ?r = "w_reg w'"
  have inv: "registry_inv ?r" using sessions.reachable_inv [OF assms(1,2)] by (simp add: world_inv_def)
  have op: "\<not> rg_closed ?r" using assms(4) by (auto simp: acquire_def)
  have ev: "evicts {#} True ?r (evictLocked ?r)" by (rule evictLocked_evicts [OF inv])
  obtain t j where st: "start_span (rg_tracer (evictLocked ?r)) SpanSession (NewRoot tid) start (session_attrs sid) = (t, j)"
    by force
  define s where "s = acquired_state (fresh_session sid j start) start model ua"
  have s: "ss_id s = sid" "ss_refs s = 1" by (simp_all add: s_def fresh_session_def)
  have r: "rg_sessions r = al_put sid s (rg_sessions (evictLocked ?r))"
    using acquire_new [OF op assms(3) st, of model ua] assms(4) s(1) by (simp add: s_def)
  have fresh: "sid \<notin> fst ` set (rg_sessions (evictLocked ?r))"
    using ev assms(3) by (fastforce simp: evicts_def al_lookup_None image_iff)
  have "distinct (al_keys (rg_sessions (evictLocked ?r)))" using ev by (simp add: evicts_def registry_inv_among_def)
  then have set_r: "set (rg_sessions r) = insert (sid, s) (set (rg_sessions (evictLocked ?r)))"
    using fresh by (auto simp: r set_al_put image_iff)
  have "length (rg_sessions r) = Suc (length (rg_sessions (evictLocked ?r)))"
    using fresh by (simp add: r length_al_put)
  moreover have "length (rg_sessions (evictLocked ?r)) < maxTrackedSessions \<or> (\<forall>e \<in> set (rg_sessions (evictLocked ?r)). ss_refs (snd e) > 0)"
    unfolding evictLocked_def by (rule evict_done [OF inv]) simp
  ultimately have "length (rg_sessions r) \<le> 1024 \<or> (\<forall>e \<in> set (rg_sessions r). ss_refs (snd e) > 0)"
    using set_r s(2) by (auto simp: maxTrackedSessions_def)
  moreover have "ss_refs (snd e) = 0 \<and> (\<forall>e' \<in> set (rg_sessions r). ss_refs (snd e') = 0 \<longrightarrow> ss_last (snd e) \<le> ss_last (snd e'))"
    if e: "e \<in> set (rg_sessions ?r) - set (rg_sessions r)" for e
  proof -
    have out: "(fst e, snd e) \<in> set (rg_sessions ?r) - set (rg_sessions (evictLocked ?r))" using e set_r by auto
    then have "\<not> ss_refs (snd e) > 0" using ev by (auto simp: evicts_def)
    moreover have "session_ok (rg_tracer ?r) (fst e) (snd e)" using inv out by (auto simp: registry_inv_among_def)
    ultimately have "ss_refs (snd e) = 0" by (simp add: session_ok_def)
    moreover have "ss_last (snd e) \<le> ss_last (snd e')" if "e' \<in> set (rg_sessions r)" "ss_refs (snd e') = 0" for e'
    proof -
      have "(fst e', snd e') \<in> set (rg_sessions (evictLocked ?r))" using that set_r s(2) by auto
      then show ?thesis
        using evict_rounds_oldest [OF inv out [unfolded evictLocked_def]] that(2) unfolding evictLocked_def by blast
    qed
    ultimately show ?thesis by blast
  qed
  ultimately show ?thesis by blast
qed

lemma eviction_bounds_sessions_witness:
  "\<exists>r i. acquire (w_reg example_acquired) ''s2'' ''t2'' 5 [] [] = (r, Some i) \<and>
     (length (rg_sessions r) \<le> 1024 \<or> (\<forall>e \<in> set (rg_sessions r). ss_refs (snd e) > 0)) \<and>
     (\<forall>e \<in> set (rg_sessions (w_reg example_acquired)) - set (rg_sessions r). ss_refs (snd e) = 0 \<and>
        (\<forall>e' \<in> set (rg_sessions r). ss_refs (snd e') = 0 \<longrightarrow> ss_last (snd e) \<le> ss_last (snd e')))"
proof -
  have new: "al_lookup (rg_sessions (w_reg example_acquired)) ''s2'' = None" by code_simp
  have "acquire (w_reg example_acquired) ''s2'' ''t2'' 5 [] [] =
      (fst (acquire (w_reg example_acquired) ''s2'' ''t2'' 5 [] []), Some 1)" by code_simp
  with eviction_bounds_sessions [OF example_run new this] show ?thesis by blast
qed

text \<open>
  The idle timer ends a session only when no request uses it and it has been idle for
  the whole idle time, and the span then ends at the time of the session's last use.
\<close>

lemma expire_only_when_idle:
  assumes "al_lookup (rg_sessions r) sid = Some s" and "al_lookup (rg_sessions (expire r sid now)) sid = None" and "ss_id s = sid"
  shows "ss_refs s \<le> 0 \<and> now - ss_last s \<ge> rg_idle r \<and>
     tr_calls (rg_tracer (expire r sid now)) = tr_calls (rg_tracer r) @
       [SetAttributes (ss_span s) (session_end_attrs s SessionEndIdle), EndSpan (ss_span s) (Some (ss_last s))]"
proof -
  have "\<not> ss_refs s > 0" using assms by (auto simp: expire_def)
  moreover have "rg_idle r - (now - ss_last s) \<le> 0"
    using assms by (auto simp: expire_def armLocked_def Let_def split: if_splits)
  ultimately show ?thesis using assms(1) by (simp add: expire_def finishLocked_eq Let_def)
qed

lemma expire_only_when_idle_witness:
  "let r = release (w_reg example_acquired) ''s'' 20; s = the (al_lookup (rg_sessions r) ''s'') in
     ss_refs s \<le> 0 \<and> 30 - ss_last s \<ge> rg_idle r \<and>
     tr_calls (rg_tracer (expire r ''s'' 30)) = tr_calls (rg_tracer r) @
       [SetAttributes (ss_span s) (session_end_attrs s SessionEndIdle), EndSpan (ss_span s) (Some (ss_last s))]"
  unfolding Let_def
proof (rule expire_only_when_idle)
  show "al_lookup (rg_sessions (release (w_reg example_acquired) ''s'' 20)) ''s'' =
      Some (the (al_lookup (rg_sessions (release (w_reg example_acquired) ''s'' 20)) ''s''))"
    by code_simp
  show "al_lookup (rg_sessions (expire (release (w_reg example_acquired) ''s'' 20) ''s'' 30)) ''s'' = None"
    by code_simp
  show "ss_id (the (al_lookup (rg_sessions (release (w_reg example_acquired) ''s'' 20)) ''s'')) = ''s''"
    by code_simp
qed

end
