(* ===== verification/Admission.thy ===== *)
theory Admission
  imports Go_Prelude
begin

text \<open>
  Admission of requests and shutdown of the handler in \<open>internal/proxy/proxy.go\<close>:
  \<open>admitRequest\<close> with the release function it returns, \<open>BeginDrain\<close>, \<open>BeginForcedClose\<close> and
  \<open>WaitIdle\<close>, running concurrently.

  A request is a number. Every part of an operation that runs under \<open>activeMu\<close>, and every
  atomic or channel operation outside it, is one step: \<open>release\<close> leaves the set of active
  requests first and its slot after that, \<open>BeginForcedClose\<close> sets its flag, then takes the list
  of active requests, then cancels them one by one. A buffered channel used as a semaphore is
  the number of its elements; the idle channel is a generation number with the set of closed
  generations. A channel operation that Go would panic on, or a receive that would block, is
  a step of its own kind (\<open>h_panicked\<close>, no step), so its absence is proved and not assumed.
\<close>

definition defaultMaxConcurrentRequests :: nat where "defaultMaxConcurrentRequests = 16"
definition defaultMaxConcurrentPassthroughRequests :: nat where "defaultMaxConcurrentPassthroughRequests = 128"

record handler =
  h_slots :: nat
  h_passthroughSlots :: nat
  h_slotCap :: nat
  h_passthroughCap :: nat
  h_active :: "(nat \<times> bool) list"
  h_idle :: "nat option"
  h_closedIdle :: "nat list"
  h_draining :: bool
  h_forcedClose :: bool
  h_cancelled :: "nat list"
  h_leaving :: "(nat \<times> bool) list"
  h_snapshot :: "nat list option"
  h_nextReq :: nat
  h_panicked :: bool

text \<open>
  The state \<open>New\<close> creates; a limit that is not positive is replaced by the default.
  \<open>h_leaving\<close> are the releases between the unlock and the receive from the slot channel,
  \<open>h_snapshot\<close> are the requests \<open>BeginForcedClose\<close> has still to cancel once it took its list.
\<close>

definition newHandler :: "int \<Rightarrow> int \<Rightarrow> handler" where
  "newHandler maxRequests maxPassthrough =
     \<lparr>h_slots = 0, h_passthroughSlots = 0,
      h_slotCap = (if maxRequests \<le> 0 then defaultMaxConcurrentRequests else nat maxRequests),
      h_passthroughCap = (if maxPassthrough \<le> 0 then defaultMaxConcurrentPassthroughRequests else nat maxPassthrough),
      h_active = [], h_idle = None, h_closedIdle = [], h_draining = False, h_forcedClose = False,
      h_cancelled = [], h_leaving = [], h_snapshot = None, h_nextReq = 0, h_panicked = False\<rparr>"

definition slots_used :: "handler \<Rightarrow> bool \<Rightarrow> nat" where
  "slots_used h instrumented = (if instrumented then h_slots h else h_passthroughSlots h)"

definition slots_cap :: "handler \<Rightarrow> bool \<Rightarrow> nat" where
  "slots_cap h instrumented = (if instrumented then h_slotCap h else h_passthroughCap h)"

definition set_slots :: "handler \<Rightarrow> bool \<Rightarrow> nat \<Rightarrow> handler" where
  "set_slots h instrumented n =
     (if instrumented then h\<lparr>h_slots := n\<rparr> else h\<lparr>h_passthroughSlots := n\<rparr>)"

text \<open>\<open>admitRequest\<close>: the new state and the request, or none when it is refused.\<close>

definition admitRequest :: "handler \<Rightarrow> bool \<Rightarrow> handler \<times> nat option" where
  "admitRequest h instrumented =
     (let req = h_nextReq h;
          h0 = h\<lparr>h_nextReq := req + 1\<rparr>
      in if h_draining h \<or> h_forcedClose h then (h0, None)
         else if slots_used h instrumented \<ge> slots_cap h instrumented then (h0, None)
         else
           let h1 = set_slots h0 instrumented (slots_used h instrumented + 1);
               h2 = (if h_active h1 = [] then h1\<lparr>h_idle := Some (case h_idle h1 of None \<Rightarrow> 0 | Some n \<Rightarrow> n + 1)\<rparr> else h1)
           in (h2\<lparr>h_active := h_active h2 @ [(req, instrumented)]\<rparr>, Some req))"

text \<open>The locked part of the release function: \<open>close(h.idle)\<close> panics on a closed or nil channel.\<close>

definition leaveActive :: "handler \<Rightarrow> nat \<Rightarrow> bool \<Rightarrow> handler" where
  "leaveActive h req instrumented =
     (let h1 = h\<lparr>h_active := filter (\<lambda>e. fst e \<noteq> req) (h_active h), h_leaving := (req, instrumented) # h_leaving h\<rparr>
      in if h_active h1 = [] then
           (case h_idle h1 of
              None \<Rightarrow> h1\<lparr>h_panicked := True\<rparr>
            | Some n \<Rightarrow> if n \<in> set (h_closedIdle h1) then h1\<lparr>h_panicked := True\<rparr>
                        else h1\<lparr>h_closedIdle := n # h_closedIdle h1\<rparr>)
         else h1)"

text \<open>\<open><-slots\<close> and \<open>cancel(nil)\<close>; the receive needs an element in the channel.\<close>

definition leaveSlot :: "handler \<Rightarrow> nat \<Rightarrow> bool \<Rightarrow> handler option" where
  "leaveSlot h req instrumented =
     (if slots_used h instrumented = 0 then None
      else Some ((set_slots h instrumented (slots_used h instrumented - 1))
             \<lparr>h_leaving := remove1 (req, instrumented) (h_leaving h)\<rparr>))"

definition beginDrain :: "handler \<Rightarrow> handler" where
  "beginDrain h = h\<lparr>h_draining := True\<rparr>"

text \<open>The steps of \<open>BeginForcedClose\<close>; the first is the compare-and-swap.\<close>

definition forcedSwap :: "handler \<Rightarrow> handler option" where
  "forcedSwap h = (if h_forcedClose h then None else Some (h\<lparr>h_forcedClose := True\<rparr>))"

definition forcedSnapshot :: "handler \<Rightarrow> handler" where
  "forcedSnapshot h = h\<lparr>h_snapshot := Some (map fst (h_active h))\<rparr>"

definition forcedCancel :: "handler \<Rightarrow> handler option" where
  "forcedCancel h =
     (case h_snapshot h of
        Some (req # rest) \<Rightarrow> Some (h\<lparr>h_cancelled := req # h_cancelled h, h_snapshot := Some rest\<rparr>)
      | _ \<Rightarrow> None)"

text \<open>
  One round of \<open>WaitIdle\<close>: \<open>Inl ()\<close> when it returns nil, otherwise the channel it waits on.
  The select returns when that channel is closed.
\<close>

definition waitIdleRound :: "handler \<Rightarrow> unit + nat option" where
  "waitIdleRound h = (if h_active h = [] then Inl () else Inr (h_idle h))"

definition channelClosed :: "handler \<Rightarrow> nat option \<Rightarrow> bool" where
  "channelClosed h c \<longleftrightarrow> (case c of None \<Rightarrow> False | Some n \<Rightarrow> n \<in> set (h_closedIdle h))"

inductive handler_step :: "handler \<Rightarrow> handler \<Rightarrow> bool" where
  admit: "admitRequest h i = (h', res) \<Longrightarrow> handler_step h h'"
| leave_active: "(req, i) \<in> set (h_active h) \<Longrightarrow> handler_step h (leaveActive h req i)"
| leave_slot: "(req, i) \<in> set (h_leaving h) \<Longrightarrow> leaveSlot h req i = Some h' \<Longrightarrow> handler_step h h'"
| drain: "handler_step h (beginDrain h)"
| forced_swap: "forcedSwap h = Some h' \<Longrightarrow> handler_step h h'"
| forced_snapshot: "h_forcedClose h \<Longrightarrow> h_snapshot h = None \<Longrightarrow> handler_step h (forcedSnapshot h)"
| forced_cancel: "forcedCancel h = Some h' \<Longrightarrow> handler_step h h'"

inductive_cases handler_stepE: "handler_step h h'"

subsection \<open>The invariant\<close>

definition class_count :: "(nat \<times> bool) list \<Rightarrow> bool \<Rightarrow> nat" where
  "class_count xs i = length (filter (\<lambda>e. snd e = i) xs)"

definition slots_ok :: "handler \<Rightarrow> bool" where
  "slots_ok h \<longleftrightarrow>
     (\<forall>i. slots_used h i = class_count (h_active h) i + class_count (h_leaving h) i \<and> slots_used h i \<le> slots_cap h i)"

definition handler_inv :: "handler \<Rightarrow> bool" where
  "handler_inv h \<longleftrightarrow>
     distinct (map fst (h_active h)) \<and> (\<forall>e \<in> set (h_active h). fst e < h_nextReq h) \<and>
     slots_ok h \<and>
     (h_active h \<noteq> [] \<longrightarrow> (\<exists>n. h_idle h = Some n \<and> n \<notin> set (h_closedIdle h))) \<and>
     (\<forall>m \<in> set (h_closedIdle h). \<exists>n. h_idle h = Some n \<and> m \<le> n) \<and>
     (h_snapshot h \<noteq> None \<longrightarrow> h_forcedClose h) \<and>
     (\<forall>pending. h_snapshot h = Some pending \<longrightarrow> fst ` set (h_active h) \<subseteq> set pending \<union> set (h_cancelled h)) \<and>
     \<not> h_panicked h"

lemma class_count_simps [simp]:
  "class_count [] i = 0" "class_count (e # xs) i = (if snd e = i then 1 else 0) + class_count xs i"
  "class_count (xs @ ys) i = class_count xs i + class_count ys i"
  by (simp_all add: class_count_def)

lemma class_count_remove1:
  "e \<in> set xs \<Longrightarrow> class_count (remove1 e xs) i + (if snd e = i then 1 else 0) = class_count xs i"
  by (induction xs) auto

lemma class_count_leave:
  assumes "distinct (map fst xs)" and "(req, j) \<in> set xs"
  shows "class_count (filter (\<lambda>e. fst e \<noteq> req) xs) i + (if j = i then 1 else 0) = class_count xs i"
  using assms
proof (induction xs)
  case (Cons e xs)
  show ?case
  proof (cases "e = (req, j)")
    case True
    with Cons.prems have "filter (\<lambda>e. fst e \<noteq> req) xs = xs" by (intro filter_True) (auto simp: image_iff)
    with True show ?thesis by simp
  next
    case False
    with Cons.prems have "fst e \<noteq> req" by (auto simp: image_iff)
    with Cons False show ?thesis by simp
  qed
qed simp

lemma slots_simps [simp]:
  "slots_used (set_slots h i n) j = (if i = j then n else slots_used h j)"
  "slots_cap (set_slots h i n) j = slots_cap h j"
  "h_active (set_slots h i n) = h_active h" "h_leaving (set_slots h i n) = h_leaving h"
  "h_idle (set_slots h i n) = h_idle h" "h_closedIdle (set_slots h i n) = h_closedIdle h"
  "h_snapshot (set_slots h i n) = h_snapshot h" "h_forcedClose (set_slots h i n) = h_forcedClose h"
  "h_cancelled (set_slots h i n) = h_cancelled h" "h_panicked (set_slots h i n) = h_panicked h"
  "h_nextReq (set_slots h i n) = h_nextReq h" "h_draining (set_slots h i n) = h_draining h"
  by (simp_all add: set_slots_def slots_used_def slots_cap_def)

lemma slots_frame [simp]:
  "slots_used (h\<lparr>h_active := x\<rparr>) j = slots_used h j" "slots_used (h\<lparr>h_leaving := l\<rparr>) j = slots_used h j"
  "slots_used (h\<lparr>h_idle := c\<rparr>) j = slots_used h j" "slots_used (h\<lparr>h_nextReq := n\<rparr>) j = slots_used h j"
  "slots_used (h\<lparr>h_closedIdle := z\<rparr>) j = slots_used h j" "slots_used (h\<lparr>h_draining := b\<rparr>) j = slots_used h j"
  "slots_used (h\<lparr>h_forcedClose := b\<rparr>) j = slots_used h j" "slots_used (h\<lparr>h_snapshot := s\<rparr>) j = slots_used h j"
  "slots_used (h\<lparr>h_cancelled := k\<rparr>) j = slots_used h j"
  "slots_cap (h\<lparr>h_active := x\<rparr>) j = slots_cap h j" "slots_cap (h\<lparr>h_leaving := l\<rparr>) j = slots_cap h j"
  "slots_cap (h\<lparr>h_idle := c\<rparr>) j = slots_cap h j" "slots_cap (h\<lparr>h_nextReq := n\<rparr>) j = slots_cap h j"
  "slots_cap (h\<lparr>h_closedIdle := z\<rparr>) j = slots_cap h j" "slots_cap (h\<lparr>h_draining := b\<rparr>) j = slots_cap h j"
  "slots_cap (h\<lparr>h_forcedClose := b\<rparr>) j = slots_cap h j" "slots_cap (h\<lparr>h_snapshot := s\<rparr>) j = slots_cap h j"
  "slots_cap (h\<lparr>h_cancelled := k\<rparr>) j = slots_cap h j"
  by (simp_all add: slots_used_def slots_cap_def)

lemma newHandler_inv: "handler_inv (newHandler m p)"
  by (simp add: handler_inv_def slots_ok_def newHandler_def slots_used_def slots_cap_def)

lemma slots_okD:
  assumes "slots_ok h"
  shows "slots_used h j = class_count (h_active h) j + class_count (h_leaving h) j" "slots_used h j \<le> slots_cap h j"
  using assms unfolding slots_ok_def by blast+

lemma slots_ok_frame [simp]:
  "slots_ok (h\<lparr>h_idle := c\<rparr>) = slots_ok h" "slots_ok (h\<lparr>h_nextReq := n\<rparr>) = slots_ok h"
  "slots_ok (h\<lparr>h_closedIdle := z\<rparr>) = slots_ok h" "slots_ok (h\<lparr>h_draining := b\<rparr>) = slots_ok h"
  "slots_ok (h\<lparr>h_forcedClose := b\<rparr>) = slots_ok h" "slots_ok (h\<lparr>h_snapshot := s\<rparr>) = slots_ok h"
  "slots_ok (h\<lparr>h_cancelled := k\<rparr>) = slots_ok h"
  by (simp_all add: slots_ok_def)

lemma admit_inv:
  assumes inv: "handler_inv h" and adm: "admitRequest h i = (h', res)"
  shows "handler_inv h'"
proof (cases "h_draining h \<or> h_forcedClose h \<or> slots_used h i \<ge> slots_cap h i")
  case True
  then have "h' = h\<lparr>h_nextReq := h_nextReq h + 1\<rparr>" using adm by (auto simp: admitRequest_def Let_def split: if_splits)
  with inv show ?thesis by (auto simp: handler_inv_def less_Suc_eq)
next
  case False
  let ?idle = "if h_active h = [] then Some (case h_idle h of None \<Rightarrow> 0 | Some n \<Rightarrow> n + 1) else h_idle h"
  have h': "h' = (set_slots (h\<lparr>h_nextReq := h_nextReq h + 1\<rparr>) i (slots_used h i + 1))
      \<lparr>h_idle := ?idle, h_active := h_active h @ [(h_nextReq h, i)]\<rparr>"
    using False adm by (auto simp: admitRequest_def Let_def set_slots_def split: if_splits)
  have "h_nextReq h \<notin> fst ` set (h_active h)" using inv by (auto simp: handler_inv_def)
  moreover have "h_snapshot h = None" using inv False by (auto simp: handler_inv_def)
  moreover have "\<exists>n. ?idle = Some n \<and> n \<notin> set (h_closedIdle h) \<and> (\<forall>m \<in> set (h_closedIdle h). m \<le> n)"
    using inv by (cases "h_idle h") (auto simp: handler_inv_def)
  moreover have "slots_ok h'"
  proof -
    have ok: "slots_ok h" using inv by (simp add: handler_inv_def)
    have "slots_used h' j = class_count (h_active h') j + class_count (h_leaving h') j \<and> slots_used h' j \<le> slots_cap h' j" for j
      using False slots_okD [OF ok, of j] unfolding h' by (cases "i = j") simp_all
    then show ?thesis unfolding slots_ok_def by blast
  qed
  ultimately show ?thesis
    using inv False by (auto simp: handler_inv_def h' less_Suc_eq)
qed

lemma leave_active_inv:
  assumes inv: "handler_inv h" and req: "(req, i) \<in> set (h_active h)"
  shows "handler_inv (leaveActive h req i)"
proof -
  let ?h = "h\<lparr>h_active := filter (\<lambda>e. fst e \<noteq> req) (h_active h), h_leaving := (req, i) # h_leaving h\<rparr>"
  have d: "distinct (map fst (h_active h))" using inv by (simp add: handler_inv_def)
  have so: "slots_ok ?h"
    using inv class_count_leave [OF d req] by (auto simp: slots_ok_def handler_inv_def) metis+
  have df: "distinct (map fst (filter (\<lambda>e. fst e \<noteq> req) (h_active h)))"
    using d by (simp add: distinct_map inj_on_def)
  have inv': "handler_inv ?h"
  proof -
    have sub: "fst ` set (filter (\<lambda>e. fst e \<noteq> req) (h_active h)) \<subseteq> fst ` set (h_active h)" by auto
    then have "\<forall>pending. h_snapshot h = Some pending \<longrightarrow>
        fst ` set (filter (\<lambda>e. fst e \<noteq> req) (h_active h)) \<subseteq> set pending \<union> set (h_cancelled h)"
      using inv by (meson handler_inv_def order_trans)
    moreover have "h_active h \<noteq> []" using req by auto
    ultimately show ?thesis
      using inv so df unfolding handler_inv_def by simp
  qed
  obtain n where n: "h_idle h = Some n" "n \<notin> set (h_closedIdle h)"
    using inv req by (cases "h_active h") (auto simp: handler_inv_def)
  with inv' show ?thesis
    by (auto simp: leaveActive_def Let_def handler_inv_def)
qed

lemma leave_slot_inv:
  assumes inv: "handler_inv h" and req: "(req, i) \<in> set (h_leaving h)"
  shows "\<exists>h'. leaveSlot h req i = Some h' \<and> handler_inv h'"
proof -
  have ok: "slots_ok h" using inv by (simp add: handler_inv_def)
  have c: "class_count (remove1 (req, i) (h_leaving h)) j + (if i = j then 1 else 0) = class_count (h_leaving h) j" for j
    using class_count_remove1 [OF req, of j] by simp
  have pos: "slots_used h i \<noteq> 0" using ok c [of i] by (auto simp: slots_ok_def)
  let ?h = "(set_slots h i (slots_used h i - 1))\<lparr>h_leaving := remove1 (req, i) (h_leaving h)\<rparr>"
  have "slots_ok ?h"
    unfolding slots_ok_def
  proof
    fix j
    show "slots_used ?h j = class_count (h_active ?h) j + class_count (h_leaving ?h) j \<and> slots_used ?h j \<le> slots_cap ?h j"
    proof -
      show ?thesis using slots_okD [OF ok, of j] c [of j] by (cases "i = j") auto
    qed
  qed
  then have "handler_inv ?h" using inv by (simp add: handler_inv_def)
  with pos show ?thesis by (simp add: leaveSlot_def)
qed

lemma handler_step_inv:
  assumes inv: "handler_inv h" and step: "handler_step h h'"
  shows "handler_inv h'"
  using step
proof cases
  case (admit i res)
  then show ?thesis by (rule admit_inv [OF inv])
next
  case (leave_active req i)
  then show ?thesis using leave_active_inv [OF inv] by simp
next
  case (leave_slot req i)
  then show ?thesis using leave_slot_inv [OF inv] by fastforce
next
  case drain
  with inv show ?thesis by (simp add: beginDrain_def handler_inv_def)
next
  case forced_swap
  then have "h' = h\<lparr>h_forcedClose := True\<rparr>" by (simp add: forcedSwap_def split: if_splits)
  with inv show ?thesis by (simp add: handler_inv_def)
next
  case forced_snapshot
  with inv show ?thesis by (simp add: forcedSnapshot_def handler_inv_def)
next
  case forced_cancel
  then obtain req rest where "h_snapshot h = Some (req # rest)"
    "h' = h\<lparr>h_cancelled := req # h_cancelled h, h_snapshot := Some rest\<rparr>"
    by (auto simp: forcedCancel_def split: option.splits list.splits)
  with inv show ?thesis by (simp add: handler_inv_def)
qed

interpretation admission: transition_system handler_step "\<lambda>h. \<exists>m p. h = newHandler m p" handler_inv
  by unfold_locales (auto intro: newHandler_inv handler_step_inv)

subsection \<open>Properties\<close>

lemma handler_steps_frame:
  "handler_step\<^sup>*\<^sup>* h h' \<Longrightarrow> (h_draining h \<longrightarrow> h_draining h') \<and> (h_forcedClose h \<longrightarrow> h_forcedClose h') \<and>
     set (h_cancelled h) \<subseteq> set (h_cancelled h') \<and>
     (h_draining h \<or> h_forcedClose h \<longrightarrow> set (h_active h') \<subseteq> set (h_active h))"
proof (induction rule: rtranclp_induct)
  case (step y z)
  have one: "(h_draining y \<longrightarrow> h_draining z) \<and> (h_forcedClose y \<longrightarrow> h_forcedClose z) \<and>
     set (h_cancelled y) \<subseteq> set (h_cancelled z) \<and> (h_draining y \<or> h_forcedClose y \<longrightarrow> set (h_active z) \<subseteq> set (h_active y))"
    using step.hyps(2)
  proof cases
    case (admit i res)
    then show ?thesis
      by (auto simp: admitRequest_def set_slots_def Let_def split: if_splits)
  next
    case (leave_active req i)
    then show ?thesis by (auto simp: leaveActive_def Let_def split: option.split)
  next
    case (leave_slot req i)
    then show ?thesis by (auto simp: leaveSlot_def set_slots_def split: if_splits)
  next
    case forced_swap
    then show ?thesis by (auto simp: forcedSwap_def split: if_splits)
  next
    case forced_cancel
    then show ?thesis by (auto simp: forcedCancel_def split: option.splits list.splits)
  qed (simp_all add: beginDrain_def forcedSnapshot_def)
  with step.IH show ?case by blast
qed simp

text \<open>
  C15: however requests, releases and shutdown interleave, at most the configured number of
  requests of each kind is being served: the slots in use are the active requests and those
  that are just leaving, and a release never waits for its slot.
\<close>

theorem concurrency_is_bounded:
  assumes "handler_step\<^sup>*\<^sup>* (newHandler m p) h"
  shows "class_count (h_active h) i + class_count (h_leaving h) i = slots_used h i \<and> slots_used h i \<le> slots_cap h i \<and>
     ((req, i) \<in> set (h_leaving h) \<longrightarrow> leaveSlot h req i \<noteq> None)"
proof -
  have inv: "handler_inv h" by (rule admission.reachable_inv [OF _ assms]) blast
  then have "slots_ok h" by (simp add: handler_inv_def)
  with slots_okD [of h i] leave_slot_inv [OF inv] show ?thesis by fastforce
qed

text \<open>One request admitted and served.\<close>

definition example_handler :: handler where
  "example_handler = fst (admitRequest (newHandler 1 0) True)"

lemma example_handler_run: "handler_step\<^sup>*\<^sup>* (newHandler 1 0) example_handler"
  unfolding example_handler_def by (rule r_into_rtranclp, rule admit [of _ True _ "snd (admitRequest (newHandler 1 0) True)"]) simp

lemma example_leave: "handler_step\<^sup>*\<^sup>* example_handler (leaveActive example_handler 0 True)"
proof (rule r_into_rtranclp, rule leave_active)
  show "(0, True) \<in> set (h_active example_handler)" unfolding example_handler_def by code_simp
qed

theorem concurrency_is_bounded_witness:
  "let h = leaveActive example_handler 0 True in
   class_count (h_active h) True + class_count (h_leaving h) True = slots_used h True \<and>
   slots_used h True \<le> slots_cap h True \<and> leaveSlot h 0 True \<noteq> None"
proof -
  have "(0, True) \<in> set (h_leaving (leaveActive example_handler 0 True))"
    unfolding example_handler_def by code_simp
  then show ?thesis
    using concurrency_is_bounded [OF rtranclp_trans [OF example_handler_run example_leave], of True 0] unfolding Let_def by blast
qed

text \<open>
  C16: the idle channel is never closed twice and never closed as nil, so a release never
  panics; while requests are active the channel \<open>WaitIdle\<close> waits on is open, and as soon as
  they have all left it is closed: \<open>WaitIdle\<close> neither misses the moment nor returns early.
\<close>

theorem wait_idle_is_exact:
  assumes "handler_step\<^sup>*\<^sup>* (newHandler m p) h" and "waitIdleRound h = Inr c" and "handler_step\<^sup>*\<^sup>* h h'"
  shows "\<not> h_panicked h' \<and> \<not> channelClosed h c \<and> (h_active h' = [] \<longrightarrow> channelClosed h' c) \<and>
     (waitIdleRound h' = Inl () \<longleftrightarrow> h_active h' = [])"
proof -
  have inv: "handler_inv h" by (rule admission.reachable_inv [OF _ assms(1)]) blast
  have inv': "handler_inv h'" by (rule admission.inv_steps [OF assms(3) inv])
  have act: "h_active h \<noteq> []" "c = h_idle h" using assms(2) by (auto simp: waitIdleRound_def split: if_splits)
  then obtain n where n: "c = Some n" "h_idle h = Some n" "n \<notin> set (h_closedIdle h)" using inv by (auto simp: handler_inv_def)
  have "(h_active h' \<noteq> [] \<and> h_idle h' = Some n) \<or> n \<in> set (h_closedIdle h')"
    using assms(3)
  proof (induction rule: rtranclp_induct)
    case base
    with act n show ?case by simp
  next
    case (step y z)
    from step.hyps(2) step.IH show ?case
    proof cases
      case (admit i res)
      with step.IH show ?thesis by (auto simp: admitRequest_def set_slots_def Let_def split: if_splits)
    next
      case (leave_active req i)
      have "handler_inv y" by (rule admission.inv_steps [OF step.hyps(1) inv])
      with leave_active step.IH show ?thesis
        by (auto simp: leaveActive_def Let_def handler_inv_def split: option.split)
    next
      case (leave_slot req i)
      with step.IH show ?thesis by (auto simp: leaveSlot_def set_slots_def split: if_splits)
    next
      case forced_swap
      with step.IH show ?thesis by (auto simp: forcedSwap_def split: if_splits)
    next
      case forced_cancel
      with step.IH show ?thesis by (auto simp: forcedCancel_def split: option.splits list.splits)
    qed (simp_all add: beginDrain_def forcedSnapshot_def)
  qed
  with n inv' show ?thesis by (auto simp: channelClosed_def handler_inv_def waitIdleRound_def)
qed

theorem wait_idle_is_exact_witness:
  "let h = example_handler; h' = leaveActive example_handler 0 True in
   \<not> h_panicked h' \<and> \<not> channelClosed h (Some 0) \<and> channelClosed h' (Some 0) \<and> waitIdleRound h' = Inl ()"
proof -
  have "waitIdleRound example_handler = Inr (Some 0)" unfolding example_handler_def by code_simp
  moreover have "h_active (leaveActive example_handler 0 True) = []" unfolding example_handler_def by code_simp
  ultimately show ?thesis
    using wait_idle_is_exact [OF example_handler_run _ example_leave] unfolding Let_def by blast
qed

text \<open>
  Draining and forced close admit nothing more, and the active requests only get fewer;
  once \<open>BeginForcedClose\<close> has cancelled its list, every request that is still active has been
  cancelled, whatever ran in between.
\<close>

lemma shutdown_reaches_every_request:
  assumes "handler_step\<^sup>*\<^sup>* (newHandler m p) h" and "h_draining h \<or> h_forcedClose h" and "handler_step\<^sup>*\<^sup>* h h'"
  shows "snd (admitRequest h' i) = None \<and> set (h_active h') \<subseteq> set (h_active h) \<and>
     (h_snapshot h' = Some [] \<longrightarrow> fst ` set (h_active h') \<subseteq> set (h_cancelled h'))"
proof -
  have inv: "handler_inv h" by (rule admission.reachable_inv [OF _ assms(1)]) blast
  have inv': "handler_inv h'" by (rule admission.inv_steps [OF assms(3) inv])
  have fr: "h_draining h' \<or> h_forcedClose h'" "set (h_active h') \<subseteq> set (h_active h)"
    using handler_steps_frame [OF assms(3)] assms(2) by blast+
  moreover have "h_snapshot h' = Some [] \<longrightarrow> fst ` set (h_active h') \<subseteq> set (h_cancelled h')"
  proof
    assume "h_snapshot h' = Some []"
    with inv' have "fst ` set (h_active h') \<subseteq> set [] \<union> set (h_cancelled h')" unfolding handler_inv_def by blast
    then show "fst ` set (h_active h') \<subseteq> set (h_cancelled h')" by simp
  qed
  ultimately show ?thesis by (auto simp: admitRequest_def Let_def)
qed

definition example_forced :: handler where
  "example_forced = the (forcedSwap example_handler)"

definition example_cancelled :: handler where
  "example_cancelled = the (forcedCancel (forcedSnapshot example_forced))"

lemma example_forced_run:
  "handler_step\<^sup>*\<^sup>* (newHandler 1 0) example_forced" "handler_step\<^sup>*\<^sup>* example_forced example_cancelled"
proof -
  have "forcedSwap example_handler = Some example_forced"
    unfolding example_forced_def example_handler_def by code_simp
  from forced_swap [OF this] example_handler_run show "handler_step\<^sup>*\<^sup>* (newHandler 1 0) example_forced"
    by (rule rtranclp.rtrancl_into_rtrancl [rotated])
  have "handler_step example_forced (forcedSnapshot example_forced)"
    by (rule forced_snapshot) (unfold example_forced_def example_handler_def, code_simp+)
  moreover have "forcedCancel (forcedSnapshot example_forced) = Some example_cancelled"
    unfolding example_cancelled_def example_forced_def example_handler_def by code_simp
  note forced_cancel [OF this]
  ultimately show "handler_step\<^sup>*\<^sup>* example_forced example_cancelled" by (meson converse_rtranclp_into_rtranclp r_into_rtranclp)
qed

lemma shutdown_reaches_every_request_witness:
  "snd (admitRequest example_cancelled True) = None \<and> set (h_active example_cancelled) \<subseteq> set (h_active example_forced) \<and>
   fst ` set (h_active example_cancelled) \<subseteq> set (h_cancelled example_cancelled)"
proof -
  have "h_draining example_forced \<or> h_forcedClose example_forced"
    unfolding example_forced_def example_handler_def by code_simp
  moreover have "h_snapshot example_cancelled = Some []"
    unfolding example_cancelled_def example_forced_def example_handler_def by code_simp
  ultimately show ?thesis
    using shutdown_reaches_every_request [OF example_forced_run(1) _ example_forced_run(2), of True] by blast
qed

end
