(* ===== verification/Route.thy ===== *)
theory Route
  imports Go_Prelude
begin

text \<open>
  The table of instrumented paths of \<open>internal/route/route.go\<close>, and the decision at the start of
  \<open>ServeHTTP\<close> in \<open>internal/proxy/proxy.go\<close>: only a POST to one of them is instrumented.
\<close>

definition operations :: "(bytes \<times> bytes) list" where
  "operations =
     [(''/v1/chat/completions'', ''chat''), (''/v1/completions'', ''text_completion''),
      (''/v1/responses'', ''chat''), (''/v1/embeddings'', ''embeddings''),
      (''/completion'', ''text_completion''), (''/infill'', ''text_completion''),
      (''/v1/rerank'', ''rerank''), (''/v1/reranking'', ''rerank''), (''/rerank'', ''rerank'')]"

definition Operation :: "bytes \<Rightarrow> bytes \<times> bool" where
  "Operation path = (case al_lookup operations path of Some op \<Rightarrow> (op, True) | None \<Rightarrow> ([], False))"

definition instrumented_op :: "bytes \<Rightarrow> bytes \<Rightarrow> bytes \<times> bool" where
  "instrumented_op path request_method =
     (let (op, instrumented) = Operation path
      in (op, instrumented \<and> request_method = ''POST''))"

lemma operations_distinct: "distinct (al_keys operations)"
  by (simp add: operations_def)

lemma Operation_known: "snd (Operation path) \<longleftrightarrow> path \<in> set (al_keys operations)"
  using al_lookup_None [of operations path] by (auto simp: Operation_def split: option.splits)

end
