(* ===== verification/Response_Writer.thy ===== *)
theory Response_Writer
  imports Telemetry
begin

text \<open>
  The response writer of \<open>internal/proxy/writer.go\<close> that records the first write error, the
  header and the first 256 KiB of the body of a response.

  The wrapped \<open>http.ResponseWriter\<close> is not under \<open>src/\<close>: the header it has at a call and what its
  \<open>Write\<close> and \<open>Flush\<close> return are arguments. A header is a list of names with their values. What
  \<open>supportsFlush\<close> can ask a writer for is \<open>writer\<close>.
\<close>

type_synonym http_header = "(bytes \<times> bytes list) list"

definition maxTracedBodySize :: nat where
  "maxTracedBodySize = 256 * 2 ^ 10"

record observedWriter =
  ow_err :: "go_error option"
  ow_header :: "http_header option"
  ow_body :: bytes
  ow_bodyTruncated :: bool
  ow_capture :: bool
  ow_bodyCapture :: bool

record responseSnapshot =
  rp_header :: http_header
  rp_body :: bytes
  rp_bodyTruncated :: bool

datatype writer = Writer (has_flush_error: bool) (has_flush: bool) (unwrapped: "writer option")

fun supportsFlush :: "writer \<Rightarrow> bool" where
  "supportsFlush (Writer flushError flush inner) =
     (if flushError then True else if flush then True
      else case inner of None \<Rightarrow> False | Some w \<Rightarrow> supportsFlush w)"

text \<open>The observed writer and whether it is wrapped as one that can flush.\<close>

definition newObservedWriter :: "writer \<Rightarrow> observedWriter \<times> bool" where
  "newObservedWriter underlying =
     (\<lparr>ow_err = None, ow_header = None, ow_body = [], ow_bodyTruncated = False, ow_capture = True,
       ow_bodyCapture = True\<rparr>, supportsFlush underlying)"

definition captureHeader :: "observedWriter \<Rightarrow> http_header \<Rightarrow> observedWriter" where
  "captureHeader w header =
     (if ow_capture w \<and> ow_header w = None then w\<lparr>ow_header := Some header\<rparr> else w)"

definition captureBody :: "observedWriter \<Rightarrow> bytes \<Rightarrow> observedWriter" where
  "captureBody w p =
     (if \<not> ow_capture w \<or> \<not> ow_bodyCapture w \<or> ow_bodyTruncated w then w
      else
        let remaining = maxTracedBodySize - length (ow_body w)
        in if length p > remaining
           then w\<lparr>ow_body := ow_body w @ take remaining p, ow_bodyTruncated := True\<rparr>
           else w\<lparr>ow_body := ow_body w @ p\<rparr>)"

definition recordError :: "observedWriter \<Rightarrow> go_error option \<Rightarrow> observedWriter" where
  "recordError w err =
     (case err of None \<Rightarrow> w | Some e \<Rightarrow> if ow_err w = None then w\<lparr>ow_err := Some e\<rparr> else w)"

text \<open>\<open>Write(p)\<close>, where the wrapped writer took \<open>n\<close> bytes.\<close>

definition ow_write :: "observedWriter \<Rightarrow> http_header \<Rightarrow> bytes \<Rightarrow> nat \<Rightarrow> go_error option \<Rightarrow> observedWriter" where
  "ow_write w header p n err =
     (let w1 = captureHeader w header;
          w2 = (if n > 0 then captureBody w1 (take n p) else w1)
      in if err \<noteq> None \<and> ow_err w2 = None then w2\<lparr>ow_err := err\<rparr> else w2)"

definition ow_writeHeader :: "observedWriter \<Rightarrow> http_header \<Rightarrow> int \<Rightarrow> observedWriter" where
  "ow_writeHeader w header statusCode =
     (if statusCode < 100 \<or> statusCode \<ge> 200 then captureHeader w header else w)"

definition flushError :: "observedWriter \<Rightarrow> http_header \<Rightarrow> go_error option \<Rightarrow> observedWriter" where
  "flushError w header err = recordError (captureHeader w header) err"

definition ow_snapshot :: "observedWriter \<Rightarrow> http_header \<Rightarrow> observedWriter \<times> responseSnapshot" where
  "ow_snapshot w header =
     (let w1 = captureHeader w header
      in (w1, \<lparr>rp_header = (case ow_header w1 of Some h \<Rightarrow> h | None \<Rightarrow> []), rp_body = ow_body w1,
               rp_bodyTruncated = ow_bodyTruncated w1\<rparr>))"

definition setCapture :: "observedWriter \<Rightarrow> bool \<Rightarrow> observedWriter" where
  "setCapture w enabled = w\<lparr>ow_capture := enabled\<rparr>"

definition disableBodyCapture :: "observedWriter \<Rightarrow> observedWriter" where
  "disableBodyCapture w = w\<lparr>ow_bodyCapture := False, ow_body := [], ow_bodyTruncated := False\<rparr>"

subsection \<open>What is captured\<close>

definition writer_ok :: "observedWriter \<Rightarrow> bool" where
  "writer_ok w \<longleftrightarrow> length (ow_body w) \<le> maxTracedBodySize \<and>
     (ow_bodyTruncated w \<longrightarrow> length (ow_body w) = maxTracedBodySize)"

lemma captureBody_ok: "writer_ok w \<Longrightarrow> writer_ok (captureBody w p)"
  by (auto simp: captureBody_def writer_ok_def Let_def)

lemma captureBody_append:
  assumes "writer_ok w"
  shows "captureBody w (xs @ ys) = captureBody (captureBody w xs) ys"
proof (cases "\<not> ow_capture w \<or> \<not> ow_bodyCapture w \<or> ow_bodyTruncated w")
  case True
  then show ?thesis by (simp add: captureBody_def)
next
  case False
  let ?r = "maxTracedBodySize - length (ow_body w)"
  consider "length xs > ?r" | "length xs \<le> ?r" "length xs + length ys > ?r" | "length xs + length ys \<le> ?r" by linarith
  then show ?thesis
    by cases (use False assms in \<open>auto simp: captureBody_def writer_ok_def Let_def take_append\<close>)
qed

interpretation capture: chunked_consumer captureBody writer_ok
proof
  show "captureBody w [] = w" if "writer_ok w" for w
    by (simp add: captureBody_def Let_def)
qed (simp_all add: captureBody_append captureBody_ok)

datatype writer_op =
    WriteOp http_header bytes nat "go_error option"
  | WriteHeaderOp http_header int
  | FlushOp http_header "go_error option"

fun writer_step :: "observedWriter \<Rightarrow> writer_op \<Rightarrow> observedWriter" where
  "writer_step w (WriteOp h p n err) = ow_write w h p n err"
| "writer_step w (WriteHeaderOp h code) = ow_writeHeader w h code"
| "writer_step w (FlushOp h err) = flushError w h err"

text \<open>What a call passed on to the client, its error, and the header it could see.\<close>

fun op_written :: "writer_op \<Rightarrow> bytes" where
  "op_written (WriteOp h p n err) = take n p"
| "op_written op = []"

fun op_error :: "writer_op \<Rightarrow> go_error list" where
  "op_error (WriteOp h p n (Some e)) = [e]"
| "op_error (FlushOp h (Some e)) = [e]"
| "op_error op = []"

fun op_header :: "writer_op \<Rightarrow> http_header list" where
  "op_header (WriteOp h p n err) = [h]"
| "op_header (WriteHeaderOp h code) = (if code < 100 \<or> code \<ge> 200 then [h] else [])"
| "op_header (FlushOp h err) = [h]"

lemma captureBody_frame [simp]:
  "ow_err (captureBody w p) = ow_err w" "ow_header (captureBody w p) = ow_header w"
  "ow_capture (captureBody w p) = ow_capture w" "ow_bodyCapture (captureBody w p) = ow_bodyCapture w"
  by (simp_all add: captureBody_def Let_def)

lemma captureHeader_frame [simp]:
  "ow_err (captureHeader w h) = ow_err w" "ow_capture (captureHeader w h) = ow_capture w"
  "ow_body (captureHeader w h) = ow_body w" "ow_bodyTruncated (captureHeader w h) = ow_bodyTruncated w"
  "ow_bodyCapture (captureHeader w h) = ow_bodyCapture w"
  by (simp_all add: captureHeader_def)

definition head_option :: "'a list \<Rightarrow> 'a option" where
  "head_option xs = (case xs of [] \<Rightarrow> None | x # _ \<Rightarrow> Some x)"

lemma head_option_append: "head_option (xs @ ys) = (case head_option xs of None \<Rightarrow> head_option ys | Some x \<Rightarrow> Some x)"
  by (cases xs) (simp_all add: head_option_def)

lemma head_option_simps [simp]: "head_option [] = None" "head_option (x # xs) = Some x"
  by (simp_all add: head_option_def)

lemma captureBody_cong:
  "captureBody (w\<lparr>ow_err := e, ow_header := h\<rparr>) p = (captureBody w p)\<lparr>ow_err := e, ow_header := h\<rparr>"
  by (simp add: captureBody_def Let_def)

text \<open>One call, in terms of what it passed on.\<close>

lemma writer_step_eq:
  assumes "ow_capture w"
  shows "writer_step w op =
     (captureBody w (op_written op))
       \<lparr>ow_err := (case ow_err w of None \<Rightarrow> head_option (op_error op) | e \<Rightarrow> e),
        ow_header := (case ow_header w of None \<Rightarrow> head_option (op_header op) | h \<Rightarrow> h)\<rparr>"
proof (cases op)
  case (WriteOp h p n err)
  have nil: "captureBody w [] = w" for w by (simp add: captureBody_def Let_def)
  from assms WriteOp show ?thesis
    by (cases w; cases err; cases n)
      (auto simp: ow_write_def captureHeader_def captureBody_def Let_def split: option.splits)
next
  case (WriteHeaderOp h code)
  with assms show ?thesis
    by (cases w) (auto simp: ow_writeHeader_def captureHeader_def captureBody_def Let_def split: option.splits)
next
  case (FlushOp h err)
  with assms show ?thesis
    by (cases w; cases err) (auto simp: flushError_def recordError_def captureHeader_def captureBody_def Let_def split: option.splits)
qed

lemma writer_run:
  assumes "ow_capture w" and "writer_ok w"
  shows "foldl writer_step w ops =
     (captureBody w (concat (map op_written ops)))
       \<lparr>ow_err := (case ow_err w of None \<Rightarrow> head_option (concat (map op_error ops)) | e \<Rightarrow> e),
        ow_header := (case ow_header w of None \<Rightarrow> head_option (concat (map op_header ops)) | h \<Rightarrow> h)\<rparr>"
  using assms
proof (induction ops arbitrary: w)
  case Nil
  then show ?case by (cases w) (auto simp: captureBody_def Let_def split: option.split)
next
  case (Cons op ops)
  let ?e = "case ow_err w of None \<Rightarrow> head_option (op_error op) | e \<Rightarrow> e"
  let ?h = "case ow_header w of None \<Rightarrow> head_option (op_header op) | h \<Rightarrow> h"
  let ?v = "captureBody w (op_written op)"
  have ok: "writer_ok ?v" using Cons.prems by (simp add: captureBody_ok)
  then have "ow_capture (?v\<lparr>ow_err := ?e, ow_header := ?h\<rparr>)" "writer_ok (?v\<lparr>ow_err := ?e, ow_header := ?h\<rparr>)"
    using Cons.prems by (simp_all add: writer_ok_def)
  note IH = Cons.IH [OF this]
  show ?case
    unfolding foldl.simps writer_step_eq [OF Cons.prems(1)] IH captureBody_cong
    using captureBody_append [OF Cons.prems(2), of "op_written op"]
    by (simp add: head_option_append split: option.split)
qed

text \<open>
  C39: the writer records exactly what the client was sent: the first 256 KiB of the bytes the
  wrapped writer accepted, marked truncated exactly when there were more, the first error, and
  the header as it was when the response started (an informational status does not start it).
\<close>

theorem writer_records_response:
  "let w = foldl writer_step (fst (newObservedWriter underlying)) ops; sent = concat (map op_written ops)
   in ow_body w = take maxTracedBodySize sent \<and> (ow_bodyTruncated w \<longleftrightarrow> length sent > maxTracedBodySize) \<and>
      ow_err w = head_option (concat (map op_error ops)) \<and> ow_header w = head_option (concat (map op_header ops))"
proof -
  have "ow_capture (fst (newObservedWriter underlying))" "writer_ok (fst (newObservedWriter underlying))"
    by (simp_all add: newObservedWriter_def writer_ok_def)
  from writer_run [OF this, of ops] show ?thesis
    by (simp add: newObservedWriter_def captureBody_def Let_def)
qed

end
