(* ===== verification/Body_Observer.thy ===== *)
theory Body_Observer
  imports Sse_Parser Stream_Contract Response_Writer
begin

text \<open>
  The response-body observer of \<open>internal/proxy/body.go\<close>: it watches the bytes the proxy reads
  from upstream, runs them through the SSE parser and the stream accumulator (or collects
  them, when the response is not a stream), and reports the first token, each output and, once,
  the result.

  The calls to the callbacks \<open>onTimeToFirstToken\<close>, \<open>onStreamOutput\<close> and \<open>onDone\<close> are lists. What the
  wrapped body's \<open>Read\<close> returns and the readings of the clock are arguments. The parser's
  callback only touches the accumulator, so the events of one \<open>Feed\<close> are handled one after
  the other once it returns; \<open>ev_dropped\<close> is what the callback read of the parser.
\<close>

definition maxCollectedBodySize :: nat where
  "maxCollectedBodySize = 2 ^ 20"

record bodyResult =
  br_firstByte :: go_time
  br_lastByte :: go_time
  br_payload :: bytes
  br_chunks :: nat
  br_dropped :: nat
  br_truncated :: bool
  br_err :: "go_error option"
  br_sawDone :: bool
  br_firstToken :: go_time
  br_streamOutputs :: outputs
  br_streamLimited :: bool

definition no_bodyResult :: bodyResult where
  "no_bodyResult =
     \<lparr>br_firstByte = 0, br_lastByte = 0, br_payload = [], br_chunks = 0, br_dropped = 0, br_truncated = False,
      br_err = None, br_sawDone = False, br_firstToken = 0, br_streamOutputs = [], br_streamLimited = False\<rparr>"

record bodyObserver =
  bo_stream :: bool
  bo_opaque :: bool
  bo_parser :: parser
  bo_accumulator :: StreamAccumulator
  bo_buf :: bytes
  bo_first :: go_time
  bo_last :: go_time
  bo_now :: go_time
  bo_truncated :: bool
  bo_once :: bool
  bo_sawToken :: bool
  bo_firstToken :: go_time
  bo_tokenCalls :: "go_time list"
  bo_outputCalls :: outputs
  bo_doneCalls :: "bodyResult list"

definition newBodyObserver :: "bool \<Rightarrow> bool \<Rightarrow> bodyObserver" where
  "newBodyObserver stream isopaque =
     \<lparr>bo_stream = stream, bo_opaque = isopaque, bo_parser = new_parser,
      bo_accumulator = NewStreamAccumulator (int maxTracedBodySize), bo_buf = [], bo_first = 0, bo_last = 0, bo_now = 0,
      bo_truncated = False, bo_once = False, bo_sawToken = False, bo_firstToken = 0, bo_tokenCalls = [],
      bo_outputCalls = [], bo_doneCalls = []\<rparr>"

definition markFirstToken :: "bodyObserver \<Rightarrow> go_time \<Rightarrow> bodyObserver" where
  "markFirstToken b at =
     (if bo_sawToken b then b
      else b\<lparr>bo_sawToken := True, bo_firstToken := at, bo_tokenCalls := bo_tokenCalls b @ [at]\<rparr>)"

definition checkFirstToken :: "bodyObserver \<Rightarrow> nat \<Rightarrow> outputs \<Rightarrow> go_time \<Rightarrow> bodyObserver" where
  "checkFirstToken b dropped outs at =
     (if bo_sawToken b \<or> dropped > 0 \<or> ObservationGap (bo_accumulator b) then b
      else if ContainsToken (bo_accumulator b) then markFirstToken b at
      else if list_ex streamOutputHasToken outs then markFirstToken b at
      else b)"

definition observeStreamPayload :: "go_time \<Rightarrow> bodyObserver \<Rightarrow> sse_event \<Rightarrow> bodyObserver" where
  "observeStreamPayload clock b ev =
     (let a0 = (if ev_dropped ev > 0 then MarkLimited (bo_accumulator b) else bo_accumulator b);
          at = (if bo_now b = 0 then clock else bo_now b);
          (a, outs) = Observe a0 (ev_payload ev) (ev_terminal ev) at;
          b1 = checkFirstToken (b\<lparr>bo_accumulator := a\<rparr>) (ev_dropped ev) outs at
      in b1\<lparr>bo_outputCalls := bo_outputCalls b1 @ outs\<rparr>)"

text \<open>The events a parser reports while it goes from \<open>p\<close> to \<open>q\<close>.\<close>

definition new_events :: "parser \<Rightarrow> parser \<Rightarrow> sse_event list" where
  "new_events p q = drop (length (p_events p)) (p_events q)"

definition run_parser :: "go_time \<Rightarrow> bodyObserver \<Rightarrow> parser \<Rightarrow> bodyObserver" where
  "run_parser clock b q =
     foldl (observeStreamPayload clock) (b\<lparr>bo_parser := q\<rparr>) (new_events (bo_parser b) q)"

definition observe_bytes :: "go_time \<Rightarrow> bodyObserver \<Rightarrow> bytes \<Rightarrow> bodyObserver" where
  "observe_bytes clock b p =
     (if bo_opaque b then b
      else if bo_stream b then run_parser clock b (feed (bo_parser b) p)
      else if bo_truncated b then b
      else if length (bo_buf b) + length p > maxCollectedBodySize then b\<lparr>bo_truncated := True, bo_buf := []\<rparr>
      else b\<lparr>bo_buf := bo_buf b @ p\<rparr>)"

definition body_done :: "bodyObserver \<Rightarrow> go_error option \<Rightarrow> go_time \<Rightarrow> bodyObserver" where
  "body_done b err clock =
     (if bo_once b then b
      else
        let b1 = b\<lparr>bo_once := True\<rparr>;
            res = no_bodyResult\<lparr>br_firstByte := bo_first b, br_lastByte := bo_last b, br_firstToken := bo_firstToken b,
                    br_truncated := bo_truncated b, br_err := err\<rparr>
        in if bo_stream b then
             let p = bo_parser b;
                 a0 = (if p_dropped p > 0 then MarkLimited (bo_accumulator b) else bo_accumulator b);
                 (a, outs) = finish_stream a0 clock;
                 res1 = res\<lparr>br_streamOutputs := outs, br_streamLimited := a_limited a, br_payload := p_last p,
                          br_chunks := p_chunks p, br_dropped := p_dropped p,
                          br_sawDone := p_sawDone p \<or> a_terminalObserved a\<rparr>
             in b1\<lparr>bo_accumulator := a, bo_doneCalls := bo_doneCalls b @ [res1]\<rparr>
           else b1\<lparr>bo_doneCalls := bo_doneCalls b @ [res\<lparr>br_payload := bo_buf b\<rparr>]\<rparr>)"

text \<open>\<open>Read\<close>, where the wrapped body delivered \<open>p\<close> and \<open>err\<close>; \<open>clock\<close> is a later reading.\<close>

definition body_read :: "bodyObserver \<Rightarrow> bytes \<Rightarrow> go_error option \<Rightarrow> go_time \<Rightarrow> go_time \<Rightarrow> bodyObserver" where
  "body_read b p err now clock =
     (let b1 = (if length p > 0 then
                  let first = (bo_first b = 0);
                      b2 = (if first then b\<lparr>bo_first := now\<rparr> else b);
                      b3 = b2\<lparr>bo_last := now, bo_now := now\<rparr>;
                      b4 = (if first \<and> \<not> bo_stream b3 \<and> \<not> bo_opaque b3 then markFirstToken b3 now else b3)
                  in observe_bytes clock b4 p
                else b)
      in case err of
           None \<Rightarrow> b1
         | Some e \<Rightarrow>
             if errors_Is err ErrEOF then
               body_done (if bo_stream b1 then run_parser clock b1 (finish_parser (bo_parser b1)) else b1) None clock
             else body_done b1 err clock)"

definition body_close :: "bodyObserver \<Rightarrow> go_time \<Rightarrow> bodyObserver" where
  "body_close b clock = body_done b None clock"

subsection \<open>The parser only adds events\<close>

lemma dispatchEvent_events: "\<exists>es. p_events (dispatchEvent p) = p_events p @ es"
  by (simp add: dispatchEvent_def Let_def)

lemma processLine_events: "\<exists>es. p_events (processLine p l) = p_events p @ es"
  using dispatchEvent_events [of p] dispatchEvent_events [of "p\<lparr>p_lineSeen := True\<rparr>"]
  by (auto simp: processLine_def processField_def appendData_def dropLine_def Let_def)

lemma feed_byte_events: "\<exists>es. p_events (feed_byte p c) = p_events p @ es"
proof -
  have "\<exists>es. p_events ((processLine (p\<lparr>p_pendingLF := False\<rparr>) l)\<lparr>p_carry := [], p_pendingLF := x\<rparr>) = p_events p @ es" for l x
    using processLine_events [of "p\<lparr>p_pendingLF := False\<rparr>" l] by simp
  then show ?thesis by (simp add: feed_byte_def dropLine_def Let_def)
qed

lemma foldl_feed_byte_events: "\<exists>es. p_events (foldl feed_byte p b) = p_events p @ es"
proof (induction b arbitrary: p)
  case (Cons c b)
  from feed_byte_events [of p c] Cons [of "feed_byte p c"] show ?case by auto
qed simp

lemma feed_events: "parser_ok p \<Longrightarrow> \<exists>es. p_events (feed p b) = p_events p @ es"
  using foldl_feed_byte_events by (simp add: feed_eq_bytes)

lemma new_events_trans:
  assumes "p_events q = p_events p @ es" and "p_events r = p_events q @ fs"
  shows "new_events p r = new_events p q @ new_events q r"
  using assms by (simp add: new_events_def)

subsection \<open>Reading in pieces\<close>

lemma observeStreamPayload_frame [simp]:
  "bo_parser (observeStreamPayload clock b ev) = bo_parser b" "bo_stream (observeStreamPayload clock b ev) = bo_stream b"
  "bo_opaque (observeStreamPayload clock b ev) = bo_opaque b" "bo_once (observeStreamPayload clock b ev) = bo_once b"
  "bo_doneCalls (observeStreamPayload clock b ev) = bo_doneCalls b" "bo_now (observeStreamPayload clock b ev) = bo_now b"
  by (simp_all add: observeStreamPayload_def checkFirstToken_def markFirstToken_def Let_def split: prod.split)

lemma foldl_payload_frame [simp]:
  "bo_parser (foldl (observeStreamPayload clock) b evs) = bo_parser b"
  "bo_stream (foldl (observeStreamPayload clock) b evs) = bo_stream b"
  "bo_opaque (foldl (observeStreamPayload clock) b evs) = bo_opaque b"
  "bo_once (foldl (observeStreamPayload clock) b evs) = bo_once b"
  "bo_doneCalls (foldl (observeStreamPayload clock) b evs) = bo_doneCalls b"
  "bo_now (foldl (observeStreamPayload clock) b evs) = bo_now b"
  by (induction evs arbitrary: b) simp_all

lemma observeStreamPayload_parser:
  "observeStreamPayload clock (b\<lparr>bo_parser := q\<rparr>) ev = (observeStreamPayload clock b ev)\<lparr>bo_parser := q\<rparr>"
  by (simp add: observeStreamPayload_def checkFirstToken_def markFirstToken_def Let_def split: prod.split)

lemma foldl_payload_parser:
  "foldl (observeStreamPayload clock) (b\<lparr>bo_parser := q\<rparr>) evs = (foldl (observeStreamPayload clock) b evs)\<lparr>bo_parser := q\<rparr>"
  by (induction evs arbitrary: b) (simp_all add: observeStreamPayload_parser)

lemma run_parser_frame [simp]:
  "bo_parser (run_parser clock b q) = q" "bo_stream (run_parser clock b q) = bo_stream b"
  "bo_opaque (run_parser clock b q) = bo_opaque b" "bo_once (run_parser clock b q) = bo_once b"
  "bo_doneCalls (run_parser clock b q) = bo_doneCalls b"
  by (simp_all add: run_parser_def)

lemma run_parser_trans:
  assumes "p_events q = p_events (bo_parser b) @ es" and "p_events r = p_events q @ fs"
  shows "run_parser clock b r = run_parser clock (run_parser clock b q) r"
proof -
  have "run_parser clock (run_parser clock b q) r =
      foldl (observeStreamPayload clock) ((run_parser clock b q)\<lparr>bo_parser := r\<rparr>) (new_events q r)"
    by (simp add: run_parser_def)
  also have "(run_parser clock b q)\<lparr>bo_parser := r\<rparr> =
      foldl (observeStreamPayload clock) (b\<lparr>bo_parser := r\<rparr>) (new_events (bo_parser b) q)"
    by (simp add: run_parser_def foldl_payload_parser)
  finally show ?thesis by (simp add: run_parser_def new_events_trans [OF assms])
qed

definition observer_ok :: "bodyObserver \<Rightarrow> bool" where
  "observer_ok b \<longleftrightarrow> parser_ok (bo_parser b) \<and> length (bo_buf b) \<le> maxCollectedBodySize \<and>
     (bo_truncated b \<longrightarrow> bo_buf b = [])"

lemma payload_buffer [simp]:
  "bo_buf (foldl (observeStreamPayload clock) b evs) = bo_buf b"
  "bo_truncated (foldl (observeStreamPayload clock) b evs) = bo_truncated b"
proof (induction evs arbitrary: b)
  case (Cons ev evs)
  { case 1
    with Cons show ?case
      by (simp add: observeStreamPayload_def checkFirstToken_def markFirstToken_def Let_def split: prod.split) }
  { case 2
    with Cons show ?case
      by (simp add: observeStreamPayload_def checkFirstToken_def markFirstToken_def Let_def split: prod.split) }
qed simp_all

lemma observe_bytes_ok: "observer_ok b \<Longrightarrow> observer_ok (observe_bytes clock b p)"
  by (auto simp: observe_bytes_def observer_ok_def run_parser_def sse.consume_ok)

lemma observe_bytes_append:
  assumes "observer_ok b"
  shows "observe_bytes clock b (xs @ ys) = observe_bytes clock (observe_bytes clock b xs) ys"
proof (cases "bo_opaque b \<or> \<not> bo_stream b")
  case True
  then show ?thesis using assms by (auto simp: observe_bytes_def observer_ok_def)
next
  case False
  let ?p = "bo_parser b"
  have ok: "parser_ok ?p" using assms by (simp add: observer_ok_def)
  obtain es where es: "p_events (feed ?p xs) = p_events ?p @ es" using feed_events [OF ok] by blast
  obtain fs where fs: "p_events (feed (feed ?p xs) ys) = p_events (feed ?p xs) @ fs"
    using feed_events [OF sse.consume_ok [OF ok]] by blast
  show ?thesis
    using False run_parser_trans [OF es fs] by (simp add: observe_bytes_def sse.consume_append [OF ok])
qed

lemma observe_bytes_nil: "observer_ok b \<Longrightarrow> observe_bytes clock b [] = b"
  by (cases b) (auto simp: observe_bytes_def observer_ok_def run_parser_def sse.consume_nil new_events_def)

interpretation body_bytes: chunked_consumer "observe_bytes clock" observer_ok for clock
  by unfold_locales (simp_all add: observe_bytes_nil observe_bytes_append observe_bytes_ok)

subsection \<open>Sequences of reads\<close>

datatype body_op = BodyRead bytes "go_error option" go_time go_time | BodyClose go_time

fun body_step :: "bodyObserver \<Rightarrow> body_op \<Rightarrow> bodyObserver" where
  "body_step b (BodyRead p err now clock) = body_read b p err now clock"
| "body_step b (BodyClose clock) = body_close b clock"

text \<open>The calls that end the body.\<close>

fun ends_body :: "body_op \<Rightarrow> bool" where
  "ends_body (BodyRead p err now clock) = (err \<noteq> None)"
| "ends_body (BodyClose clock) = True"

definition all_outputs :: "bodyObserver \<Rightarrow> outputs" where
  "all_outputs b = bo_outputCalls b @ concat (map br_streamOutputs (bo_doneCalls b))"

abbreviation fresh_acc :: StreamAccumulator where
  "fresh_acc \<equiv> NewStreamAccumulator (int maxTracedBodySize)"

definition body_inv :: "bodyObserver \<Rightarrow> bool" where
  "body_inv b \<longleftrightarrow>
     observer_ok b \<and> reports (a_limit fresh_acc) fresh_acc (all_outputs b) (bo_accumulator b) \<and>
     length (bo_doneCalls b) = (if bo_once b then 1 else 0) \<and>
     (bo_once b \<and> bo_stream b \<longrightarrow> a_closed (bo_accumulator b)) \<and>
     bo_tokenCalls b = (if bo_sawToken b then [bo_firstToken b] else [])"

lemma MarkLimited_reports: "reports limit a [] (MarkLimited a)"
  by (simp add: MarkLimited_def reports_emits emits_limited)

lemma MarkLimited_closed [simp]: "a_closed (MarkLimited a) = a_closed a"
  by (simp add: MarkLimited_def)

lemma markFirstToken_frame [simp]:
  "bo_parser (markFirstToken b at) = bo_parser b" "bo_accumulator (markFirstToken b at) = bo_accumulator b"
  "bo_buf (markFirstToken b at) = bo_buf b" "bo_truncated (markFirstToken b at) = bo_truncated b"
  "bo_once (markFirstToken b at) = bo_once b" "bo_stream (markFirstToken b at) = bo_stream b"
  "bo_opaque (markFirstToken b at) = bo_opaque b"
  "bo_outputCalls (markFirstToken b at) = bo_outputCalls b" "bo_doneCalls (markFirstToken b at) = bo_doneCalls b"
  "bo_first (markFirstToken b at) = bo_first b" "bo_last (markFirstToken b at) = bo_last b" "bo_now (markFirstToken b at) = bo_now b"
  by (simp_all add: markFirstToken_def)

lemma markFirstToken_inv: "body_inv b \<Longrightarrow> body_inv (markFirstToken b at)"
  by (simp add: body_inv_def observer_ok_def all_outputs_def) (simp add: markFirstToken_def)

lemma checkFirstToken_cases: "checkFirstToken b d outs at = b \<or> checkFirstToken b d outs at = markFirstToken b at"
  by (simp add: checkFirstToken_def)

text \<open>An event handled before the body is done adds its outputs; after that there are none.\<close>

lemma observeStreamPayload_inv:
  assumes inv: "body_inv b" and stream: "bo_stream b"
  shows "body_inv (observeStreamPayload clock b ev)"
proof -
  define a0 where "a0 = (if ev_dropped ev > 0 then MarkLimited (bo_accumulator b) else bo_accumulator b)"
  define at where "at = (if bo_now b = 0 then clock else bo_now b)"
  obtain a outs where obs: "Observe a0 (ev_payload ev) (ev_terminal ev) at = (a, outs)" by force
  let ?L = "a_limit fresh_acc"
  have a0: "reports ?L (bo_accumulator b) [] a0" "a_closed a0 = a_closed (bo_accumulator b)"
    by (simp_all add: a0_def MarkLimited_reports reports_emits emits_refl)
  have "reports ?L a0 outs a" using Observe_reports [of ?L a0 "ev_payload ev" "ev_terminal ev" at] obs by simp
  with a0 have r: "reports ?L (bo_accumulator b) outs a" using reports_trans [of ?L "bo_accumulator b" "[]" a0 outs a] by simp
  define b1 where "b1 = b\<lparr>bo_accumulator := a\<rparr>"
  define c where "c = (checkFirstToken b1 (ev_dropped ev) outs at)\<lparr>bo_outputCalls := bo_outputCalls b1 @ outs\<rparr>"
  have c: "observeStreamPayload clock b ev = c"
    using checkFirstToken_cases [of b1 "ev_dropped ev" outs at]
    by (auto simp: observeStreamPayload_def a0_def [symmetric] at_def [symmetric] obs b1_def [symmetric] c_def Let_def)
  have base: "body_inv (b1\<lparr>bo_outputCalls := bo_outputCalls b1 @ outs\<rparr>)"
  proof (cases "bo_once b")
    case True
    then have "a_closed a0" using inv stream a0(2) by (simp add: body_inv_def)
    then have "a = a0" "outs = []" using obs by (simp_all add: Observe_def)
    moreover have "reports ?L fresh_acc (all_outputs b) a0"
      using inv a0(1) reports_trans [of ?L fresh_acc "all_outputs b" "bo_accumulator b" "[]" a0] by (simp add: body_inv_def)
    ultimately show ?thesis
      using inv \<open>a_closed a0\<close> by (simp add: body_inv_def b1_def all_outputs_def observer_ok_def)
  next
    case False
    then have "bo_doneCalls b = []" using inv by (simp add: body_inv_def)
    then have "reports ?L fresh_acc (bo_outputCalls b @ outs) a"
      using inv reports_trans [OF _ r, of fresh_acc] by (simp add: body_inv_def all_outputs_def)
    with inv False \<open>bo_doneCalls b = []\<close> show ?thesis
      by (simp add: body_inv_def b1_def all_outputs_def observer_ok_def)
  qed
  have "c = b1\<lparr>bo_outputCalls := bo_outputCalls b1 @ outs\<rparr> \<or> c = markFirstToken (b1\<lparr>bo_outputCalls := bo_outputCalls b1 @ outs\<rparr>) at"
    using checkFirstToken_cases [of b1 "ev_dropped ev" outs at] by (auto simp: c_def markFirstToken_def)
  with base markFirstToken_inv [OF base] c show ?thesis by auto
qed

lemma foldl_payload_inv:
  "body_inv b \<Longrightarrow> bo_stream b \<Longrightarrow> body_inv (foldl (observeStreamPayload clock) b evs)"
  by (induction evs arbitrary: b) (simp_all add: observeStreamPayload_inv)

lemma run_parser_inv: "body_inv b \<Longrightarrow> bo_stream b \<Longrightarrow> parser_ok q \<Longrightarrow> body_inv (run_parser clock b q)"
  unfolding run_parser_def by (rule foldl_payload_inv) (simp_all add: body_inv_def observer_ok_def all_outputs_def)

lemma observe_bytes_inv: "body_inv b \<Longrightarrow> body_inv (observe_bytes clock b p)"
proof (cases "bo_stream b \<and> \<not> bo_opaque b")
  case True
  assume inv: "body_inv b"
  then have "parser_ok (feed (bo_parser b) p)" by (intro sse.consume_ok) (simp add: body_inv_def observer_ok_def)
  with inv True show ?thesis by (simp add: observe_bytes_def run_parser_inv)
next
  case False
  assume inv: "body_inv b"
  with observe_bytes_ok [of b clock p] have "observer_ok (observe_bytes clock b p)" by (simp add: body_inv_def)
  with inv False show ?thesis by (auto simp: body_inv_def observe_bytes_def all_outputs_def)
qed

lemma body_done_inv:
  assumes inv: "body_inv b"
  shows "body_inv (body_done b err clock)" "bo_once (body_done b err clock)"
proof -
  have "body_inv (body_done b err clock) \<and> bo_once (body_done b err clock)"
  proof (cases "bo_once b")
    case True
    with inv show ?thesis by (simp add: body_done_def)
  next
    case False
    then have none: "bo_doneCalls b = []" using inv by (simp add: body_inv_def)
    define a0 where "a0 = (if p_dropped (bo_parser b) > 0 then MarkLimited (bo_accumulator b) else bo_accumulator b)"
    obtain a outs where fin: "finish_stream a0 clock = (a, outs)" by force
    let ?L = "a_limit fresh_acc"
    have "reports ?L (bo_accumulator b) [] a0"
      by (simp add: a0_def MarkLimited_reports reports_emits emits_refl)
    then have a0: "reports ?L fresh_acc (bo_outputCalls b) a0"
      using inv none reports_trans [of ?L fresh_acc "bo_outputCalls b" "bo_accumulator b" "[]" a0]
      by (simp add: body_inv_def all_outputs_def)
    then have r: "reports ?L fresh_acc (bo_outputCalls b @ outs) a"
      using reports_trans [OF a0 finish_stream_reports [of ?L a0 clock]] fin by simp
    have "acc_inv ?L a0" by (rule reports_inv [OF a0 NewStreamAccumulator_inv])
    then have "a_closed a"
      using fin emits_closed [OF finishAll_emits [OF message_ok_Nil, of False False ?L "a0\<lparr>a_closed := True\<rparr>" clock]]
      by (cases "a_closed a0") (auto simp: finish_stream_def)
    with False none r inv show ?thesis
      by (auto simp: body_done_def body_inv_def all_outputs_def observer_ok_def a0_def [symmetric] fin no_bodyResult_def Let_def)
  qed
  then show "body_inv (body_done b err clock)" "bo_once (body_done b err clock)" by auto
qed

lemma body_times_inv [simp]:
  "body_inv (b\<lparr>bo_first := x\<rparr>) = body_inv b" "body_inv (b\<lparr>bo_last := x\<rparr>) = body_inv b" "body_inv (b\<lparr>bo_now := x\<rparr>) = body_inv b"
  by (simp_all add: body_inv_def observer_ok_def all_outputs_def)

lemma finish_parser_ok: "parser_ok p \<Longrightarrow> parser_ok (finish_parser p)"
  by (simp add: finish_parser_def parser_ok_def Let_def frame_simps)

lemma body_read_inv:
  assumes inv: "body_inv b"
  shows "body_inv (body_read b p err now clock)" "err \<noteq> None \<Longrightarrow> bo_once (body_read b p err now clock)"
proof -
  define b1 where "b1 = (if length p > 0 then
                  let first = (bo_first b = 0);
                      b2 = (if first then b\<lparr>bo_first := now\<rparr> else b);
                      b3 = b2\<lparr>bo_last := now, bo_now := now\<rparr>;
                      b4 = (if first \<and> \<not> bo_stream b3 \<and> \<not> bo_opaque b3 then markFirstToken b3 now else b3)
                  in observe_bytes clock b4 p
                else b)"
  have b1: "body_inv b1"
    unfolding b1_def Let_def using inv by (simp add: observe_bytes_inv markFirstToken_inv)
  have ok: "parser_ok (bo_parser b1)" using b1 by (simp add: body_inv_def observer_ok_def)
  have b2: "body_inv (if bo_stream b1 then run_parser clock b1 (finish_parser (bo_parser b1)) else b1)"
    using b1 run_parser_inv [OF b1 _ finish_parser_ok [OF ok]] by simp
  have eq: "body_read b p err now clock = (case err of None \<Rightarrow> b1 | Some e \<Rightarrow>
      if errors_Is err ErrEOF then
        body_done (if bo_stream b1 then run_parser clock b1 (finish_parser (bo_parser b1)) else b1) None clock
      else body_done b1 err clock)"
    by (simp only: body_read_def b1_def Let_def)
  show "body_inv (body_read b p err now clock)" "err \<noteq> None \<Longrightarrow> bo_once (body_read b p err now clock)"
    unfolding eq using b1 body_done_inv [OF b1] body_done_inv [OF b2] by (auto split: option.split)
qed

lemma body_step_inv: "body_inv b \<Longrightarrow> body_inv (body_step b op)"
  by (cases op) (simp_all add: body_read_inv body_close_def body_done_inv)

interpretation body: invariant_machine body_step body_inv
  by unfold_locales (rule body_step_inv)

lemma newBodyObserver_inv: "body_inv (newBodyObserver stream isopaque)"
  by (simp add: body_inv_def observer_ok_def newBodyObserver_def all_outputs_def reports_emits emits_refl)

lemma payload_once: "bo_once (observeStreamPayload clock b ev) = bo_once b"
  by simp

lemma body_step_once: "bo_once b \<Longrightarrow> bo_once (body_step b op)"
proof -
  have obs: "bo_once (observe_bytes clock b p) = bo_once b" for clock b p
    by (simp add: observe_bytes_def)
  have don: "bo_once b \<Longrightarrow> bo_once (body_done b err clock)" for b err clock
    by (simp add: body_done_def)
  show "bo_once b \<Longrightarrow> bo_once (body_step b op)"
    by (cases op) (auto simp: body_read_def body_close_def Let_def obs intro!: don split: option.split)
qed

lemma body_run_once: "body_inv b \<Longrightarrow> list_ex ends_body ops \<or> bo_once b \<Longrightarrow> bo_once (foldl body_step b ops)"
proof (induction ops arbitrary: b)
  case (Cons op ops)
  have "ends_body op \<Longrightarrow> bo_once (body_step b op)"
    using Cons.prems(1) by (cases op) (auto simp: body_read_inv body_close_def body_done_inv)
  then have "list_ex ends_body ops \<or> bo_once (body_step b op)"
    using Cons.prems(2) body_step_once [of b op] by auto
  with Cons.IH [OF body_step_inv [OF Cons.prems(1)]] show ?case by simp
qed simp

text \<open>
  C12: however the upstream body is read, with any data, errors and closes in any order, the
  observer reports its result at most once, and does so as soon as the body has ended or been
  closed; it reports the first token at most once; and no output is reported twice, neither
  through \<open>onStreamOutput\<close> nor in the result, so there are at most 64.
\<close>

theorem body_observer_reports_once:
  "let b = foldl body_step (newBodyObserver stream isopaque) ops in
     length (bo_doneCalls b) \<le> 1 \<and> (list_ex ends_body ops \<longrightarrow> length (bo_doneCalls b) = 1) \<and>
     length (bo_tokenCalls b) \<le> 1 \<and> distinct (map output_identity (all_outputs b)) \<and> length (all_outputs b) \<le> 64"
proof -
  let ?b = "foldl body_step (newBodyObserver stream isopaque) ops"
  have inv: "body_inv ?b" by (rule body.inv_run [OF newBodyObserver_inv])
  then have "reports (a_limit fresh_acc) fresh_acc (all_outputs ?b) (bo_accumulator ?b)" by (simp add: body_inv_def)
  note outs = new_reports_outputs(1,2) [OF this]
  have "list_ex ends_body ops \<Longrightarrow> bo_once ?b" using body_run_once [OF newBodyObserver_inv] by blast
  with inv outs show ?thesis by (simp add: body_inv_def Let_def)
qed

theorem body_observer_reports_once_witness:
  "let b = foldl body_step (newBodyObserver True False)
       [BodyRead ''data: x'' None 5 6, BodyRead [] (Some (GoError [ErrEOF] ''EOF'')) 7 8, BodyClose 9] in
     length (bo_doneCalls b) = 1 \<and> length (bo_tokenCalls b) \<le> 1 \<and>
     distinct (map output_identity (all_outputs b)) \<and> length (all_outputs b) \<le> 64"
proof -
  have "list_ex ends_body [BodyRead ''data: x'' None 5 6, BodyRead [] (Some (GoError [ErrEOF] ''EOF'')) 7 8, BodyClose 9]"
    by code_simp
  then show ?thesis
    using body_observer_reports_once [of True False
      "[BodyRead ''data: x'' None 5 6, BodyRead [] (Some (GoError [ErrEOF] ''EOF'')) 7 8, BodyClose 9]"]
    unfolding Let_def by blast
qed

subsection \<open>Pieces of any size\<close>

lemma foldl_payload_times [simp]:
  "bo_first (foldl (observeStreamPayload clock) b evs) = bo_first b"
  "bo_last (foldl (observeStreamPayload clock) b evs) = bo_last b"
proof (induction evs arbitrary: b)
  case (Cons ev evs)
  { case 1
    with Cons show ?case
      by (simp add: observeStreamPayload_def checkFirstToken_def Let_def split: prod.split) }
  { case 2
    with Cons show ?case
      by (simp add: observeStreamPayload_def checkFirstToken_def Let_def split: prod.split) }
qed simp_all

lemma observe_bytes_times [simp]:
  "bo_first (observe_bytes clock b p) = bo_first b" "bo_last (observe_bytes clock b p) = bo_last b"
  "bo_now (observe_bytes clock b p) = bo_now b"
  by (simp_all add: observe_bytes_def run_parser_def)

definition reading_at :: "go_time \<Rightarrow> bodyObserver \<Rightarrow> bool" where
  "reading_at now b \<longleftrightarrow> now \<noteq> 0 \<and> bo_first b = now \<and> bo_last b = now \<and> bo_now b = now \<and> observer_ok b"

lemma read_at: "reading_at now b \<Longrightarrow> body_read b p None now clock = observe_bytes clock b p"
proof (cases "p = []")
  case False
  assume r: "reading_at now b"
  then have eq: "b\<lparr>bo_last := now, bo_now := now\<rparr> = b" by (cases b) (simp add: reading_at_def)
  have "body_read b p None now clock = observe_bytes clock (b\<lparr>bo_last := now, bo_now := now\<rparr>) p"
    using r False by (simp add: body_read_def reading_at_def Let_def)
  then show ?thesis by (simp only: eq)
qed (simp add: body_read_def reading_at_def observe_bytes_nil)

lemma reads_at:
  "reading_at now b \<Longrightarrow> foldl (\<lambda>b p. body_read b p None now clock) b cs = observe_bytes clock b (concat cs)"
proof (induction cs arbitrary: b)
  case (Cons c cs)
  have "reading_at now (observe_bytes clock b c)" using Cons.prems by (simp add: reading_at_def observe_bytes_ok)
  from Cons.IH [OF this] Cons.prems show ?case
    by (simp add: read_at observe_bytes_append reading_at_def)
qed (simp add: reading_at_def observe_bytes_nil)

lemma first_read:
  assumes "now \<noteq> 0" and "bo_first b = 0" and "observer_ok b"
  shows "\<exists>b'. reading_at now b' \<and> (\<forall>p. p \<noteq> [] \<longrightarrow> body_read b p None now clock = observe_bytes clock b' p)"
proof -
  let ?b = "b\<lparr>bo_first := now, bo_last := now, bo_now := now\<rparr>"
  let ?b' = "if \<not> bo_stream b \<and> \<not> bo_opaque b then markFirstToken ?b now else ?b"
  have "reading_at now ?b'" using assms by (simp add: reading_at_def observer_ok_def)
  moreover have "\<forall>p. p \<noteq> [] \<longrightarrow> body_read b p None now clock = observe_bytes clock ?b' p"
    using assms by (simp add: body_read_def Let_def)
  ultimately show ?thesis by blast
qed

text \<open>
  C18: how the network cuts the body into pieces does not matter: pieces that arrive at the
  same time leave the observer in the same state, and with the same reports, whatever their
  sizes, for streams and for other responses.
\<close>

theorem body_pieces_irrelevant:
  assumes "concat cs = concat ds" and "now \<noteq> 0"
  shows "foldl (\<lambda>b p. body_read b p None now clock) (newBodyObserver stream isopaque) cs =
         foldl (\<lambda>b p. body_read b p None now clock) (newBodyObserver stream isopaque) ds"
proof -
  let ?n = "newBodyObserver stream isopaque"
  have n: "bo_first ?n = 0" "observer_ok ?n" by (simp_all add: newBodyObserver_def observer_ok_def)
  obtain b' where b': "reading_at now b'" "\<And>p. p \<noteq> [] \<Longrightarrow> body_read ?n p None now clock = observe_bytes clock b' p"
    using first_read [OF assms(2) n] by blast
  have "foldl (\<lambda>b p. body_read b p None now clock) ?n es = (if concat es = [] then ?n else observe_bytes clock b' (concat es))" for es
  proof (induction es)
    case (Cons e es)
    show ?case
    proof (cases "e = []")
      case True
      with Cons show ?thesis by (simp add: body_read_def)
    next
      case False
      have r: "reading_at now (observe_bytes clock b' e)" using b'(1) by (simp add: reading_at_def observe_bytes_ok)
      have "observer_ok b'" using b'(1) by (simp add: reading_at_def)
      with False r show ?thesis by (simp add: b'(2) reads_at observe_bytes_append)
    qed
  qed simp
  then show ?thesis by (simp only: assms(1))
qed

theorem body_pieces_irrelevant_witness:
  "foldl (\<lambda>b p. body_read b p None 3 4) (newBodyObserver True False) [''data'', '': x''] =
   foldl (\<lambda>b p. body_read b p None 3 4) (newBodyObserver True False) [''d'', ''ata: x'']"
  by (rule body_pieces_irrelevant) simp_all

end
