(* ===== verification/Attribute_Keys.thy ===== *)
theory Attribute_Keys
  imports Telemetry
begin

text \<open>
  The keys of the span attributes, the names of the spans and the limits of
  \<open>internal/proxy/attrs.go\<close>, by the names the source gives them. The keys at the end are those of
  the OpenTelemetry semantic conventions that the source takes from a library; the
  repository's tests name them.
\<close>

definition AttrProviderName :: bytes where "AttrProviderName = ''gen_ai.provider.name''"
definition AttrOperationName :: bytes where "AttrOperationName = ''gen_ai.operation.name''"
definition AttrConversationID :: bytes where "AttrConversationID = ''gen_ai.conversation.id''"
definition AttrRequestModel :: bytes where "AttrRequestModel = ''gen_ai.request.model''"
definition AttrRequestStream :: bytes where "AttrRequestStream = ''gen_ai.request.stream''"
definition AttrOutputType :: bytes where "AttrOutputType = ''gen_ai.output.type''"
definition AttrResponseModel :: bytes where "AttrResponseModel = ''gen_ai.response.model''"
definition AttrResponseID :: bytes where "AttrResponseID = ''gen_ai.response.id''"
definition AttrInputTokens :: bytes where "AttrInputTokens = ''gen_ai.usage.input_tokens''"
definition AttrOutputTokens :: bytes where "AttrOutputTokens = ''gen_ai.usage.output_tokens''"
definition AttrRequestMaxTokens :: bytes where "AttrRequestMaxTokens = ''gen_ai.request.max_tokens''"
definition AttrRequestTemperature :: bytes where "AttrRequestTemperature = ''gen_ai.request.temperature''"
definition AttrRequestTopP :: bytes where "AttrRequestTopP = ''gen_ai.request.top_p''"
definition AttrRequestTopK :: bytes where "AttrRequestTopK = ''gen_ai.request.top_k''"
definition AttrRequestFrequencyPenalty :: bytes where "AttrRequestFrequencyPenalty = ''gen_ai.request.frequency_penalty''"
definition AttrRequestPresencePenalty :: bytes where "AttrRequestPresencePenalty = ''gen_ai.request.presence_penalty''"
definition AttrRequestSeed :: bytes where "AttrRequestSeed = ''gen_ai.request.seed''"
definition AttrRequestChoiceCount :: bytes where "AttrRequestChoiceCount = ''gen_ai.request.choice.count''"
definition AttrRequestStopSequences :: bytes where "AttrRequestStopSequences = ''gen_ai.request.stop_sequences''"
definition AttrResponseFinishReasons :: bytes where "AttrResponseFinishReasons = ''gen_ai.response.finish_reasons''"
definition AttrHTTPMethod :: bytes where "AttrHTTPMethod = ''http.request.method''"
definition AttrURLPath :: bytes where "AttrURLPath = ''url.path''"
definition AttrStatusCode :: bytes where "AttrStatusCode = ''http.response.status_code''"
definition AttrRequestBody :: bytes where "AttrRequestBody = ''llamaproxy.request.body''"
definition AttrResponseBody :: bytes where "AttrResponseBody = ''llamaproxy.response.body''"
definition AttrTimingsPromptMS :: bytes where "AttrTimingsPromptMS = ''llamacpp.timings.prompt_ms''"
definition AttrTimingsPredictedMS :: bytes where "AttrTimingsPredictedMS = ''llamacpp.timings.predicted_ms''"
definition AttrTimingsPredictedPerSecond :: bytes where "AttrTimingsPredictedPerSecond = ''llamacpp.timings.predicted_per_second''"
definition AttrTimingsCacheN :: bytes where "AttrTimingsCacheN = ''llamacpp.timings.cache_n''"
definition AttrServerSentEventsChunkCount :: bytes where "AttrServerSentEventsChunkCount = ''llamaproxy.server_sent_events_chunk_count''"
definition AttrClientDisconnected :: bytes where "AttrClientDisconnected = ''llamaproxy.client_disconnected''"
definition AttrServerSentEventsDroppedLineCount :: bytes where "AttrServerSentEventsDroppedLineCount = ''llamaproxy.server_sent_events_dropped_line_count''"
definition AttrResponseIncomplete :: bytes where "AttrResponseIncomplete = ''llamaproxy.response_incomplete''"
definition AttrUpstreamError :: bytes where "AttrUpstreamError = ''llamaproxy.upstream_error''"
definition AttrOutcome :: bytes where "AttrOutcome = ''llamaproxy.outcome''"
definition AttrResponseEncoding :: bytes where "AttrResponseEncoding = ''llamaproxy.response_encoding''"
definition AttrErrorType :: bytes where "AttrErrorType = ''error.type''"
definition AttrShutdownInterrupted :: bytes where "AttrShutdownInterrupted = ''llamaproxy.shutdown_interrupted''"
definition AttrResponseBodyTruncated :: bytes where "AttrResponseBodyTruncated = ''llamaproxy.response_body_truncated''"
definition AttrTraceRequestBodyTruncated :: bytes where "AttrTraceRequestBodyTruncated = ''llamaproxy.trace_request_body_truncated''"
definition AttrTraceResponseBodyTruncated :: bytes where "AttrTraceResponseBodyTruncated = ''llamaproxy.trace_response_body_truncated''"
definition AttrTraceRequestBodySplitLimited :: bytes where "AttrTraceRequestBodySplitLimited = ''llamaproxy.trace_request_body_split_limited''"
definition AttrTraceResponseBodySplitLimited :: bytes where "AttrTraceResponseBodySplitLimited = ''llamaproxy.trace_response_body_split_limited''"
definition AttrTraceRequestHeaderLimited :: bytes where "AttrTraceRequestHeaderLimited = ''llamaproxy.trace_request_header_limited''"
definition AttrTraceResponseHeaderLimited :: bytes where "AttrTraceResponseHeaderLimited = ''llamaproxy.trace_response_header_limited''"
definition AttrSessionRequestCount :: bytes where "AttrSessionRequestCount = ''llamaproxy.session.request_count''"
definition AttrSessionModels :: bytes where "AttrSessionModels = ''llamaproxy.session.models''"
definition AttrSessionEndReason :: bytes where "AttrSessionEndReason = ''llamaproxy.session.end_reason''"
definition AttrChoiceIndex :: bytes where "AttrChoiceIndex = ''llamaproxy.choice_index''"
definition AttrOutputIndex :: bytes where "AttrOutputIndex = ''llamaproxy.output_index''"
definition AttrContentIndex :: bytes where "AttrContentIndex = ''llamaproxy.content_index''"
definition AttrToolCallIndex :: bytes where "AttrToolCallIndex = ''llamaproxy.tool_call_index''"
definition AttrToolCallID :: bytes where "AttrToolCallID = ''llamaproxy.tool_call_id''"
definition AttrOutputItemID :: bytes where "AttrOutputItemID = ''llamaproxy.output_item_id''"
definition AttrResponseBodyReasoningContent :: bytes where "AttrResponseBodyReasoningContent = ''llamaproxy.response.body.reasoning_content''"
definition AttrResponseBodyContent :: bytes where "AttrResponseBodyContent = ''llamaproxy.response.body.content''"
definition AttrResponseBodyRefusal :: bytes where "AttrResponseBodyRefusal = ''llamaproxy.response.body.refusal''"
definition AttrResponseBodyType :: bytes where "AttrResponseBodyType = ''llamaproxy.response.body.type''"
definition AttrResponseBodyName :: bytes where "AttrResponseBodyName = ''llamaproxy.response.body.name''"
definition AttrResponseBodyArguments :: bytes where "AttrResponseBodyArguments = ''llamaproxy.response.body.arguments''"
definition AttrResponseBodyFinishReason :: bytes where "AttrResponseBodyFinishReason = ''llamaproxy.response.body.finish_reason''"
definition System :: bytes where "System = ''llama.cpp''"
definition maxSplitBodyFields :: nat where "maxSplitBodyFields = 64"
definition maxSplitBodyFieldNameLength :: nat where "maxSplitBodyFieldNameLength = 128"
definition maxSplitBodyDepth :: nat where "maxSplitBodyDepth = 8"
definition maxSplitBodyAttributes :: nat where "maxSplitBodyAttributes = 256"
definition maxSplitBodyValues :: nat where "maxSplitBodyValues = 256"
definition maxHeaderAttributes :: nat where "maxHeaderAttributes = 64"
definition maxHeaderValues :: nat where "maxHeaderValues = 32"
definition SpanTimeToFirstToken :: bytes where "SpanTimeToFirstToken = ''time_to_first_token''"
definition SpanGeneration :: bytes where "SpanGeneration = ''generation''"
definition SpanReasoning :: bytes where "SpanReasoning = ''reasoning''"
definition SpanResponse :: bytes where "SpanResponse = ''response''"
definition SpanToolCall :: bytes where "SpanToolCall = ''tool_call''"

definition HTTPRequestHeader :: "bytes \<Rightarrow> bytes list \<Rightarrow> attribute" where
  "HTTPRequestHeader key vals = (''http.request.header.'' @ key, StrsVal vals)"

definition HTTPResponseHeader :: "bytes \<Rightarrow> bytes list \<Rightarrow> attribute" where
  "HTTPResponseHeader key vals = (''http.response.header.'' @ key, StrsVal vals)"

end
