(* ===== verification/Trace_Attributes.thy ===== *)
theory Trace_Attributes
  imports Go_Numbers Attribute_Keys Response_Writer
begin

text \<open>
  The header and body attributes of \<open>internal/proxy/attrs.go\<close>.

  A header is a list of names with their values, in any order; Go's map has no order. Header
  names are ASCII: \<open>net/http\<close> accepts nothing else. \<open>jsonObjectFields\<close> reads an object with the
  token decoder of \<open>encoding/json\<close>; the source only calls it on texts that \<open>json.Valid\<close> has
  accepted, or on parts of one, and for those it returns the members in their order.
  A JSON number that becomes a \<open>float64\<close> attribute is kept as its literal.
\<close>

subsection \<open>Models and headers\<close>

fun after_last :: "(char \<Rightarrow> bool) \<Rightarrow> bytes \<Rightarrow> bytes" where
  "after_last sep [] = []"
| "after_last sep (c # cs) = (if list_ex sep cs then after_last sep cs else if sep c then cs else c # cs)"

definition responseModelIdentifier :: "bytes \<Rightarrow> bytes" where
  "responseModelIdentifier model =
     trim_suffix ''.gguf'' (after_last (\<lambda>c. c = CHR ''/'' \<or> c = backslash) model)"

definition ascii_lower :: "bytes \<Rightarrow> bytes" where
  "ascii_lower s = map (\<lambda>c. if 0x41 \<le> byte c \<and> byte c \<le> 0x5A then char_of (byte c + 0x20) else c) s"

text \<open>The loop over the values of one name, with its \<open>break\<close> at the limit.\<close>

fun add_values :: "bytes \<Rightarrow> bytes list \<Rightarrow> bool \<times> (bytes \<times> bytes list) list \<Rightarrow> bool \<times> (bytes \<times> bytes list) list" where
  "add_values key [] acc = acc"
| "add_values key (value # values) (limited, normalized) =
     (let old = (case al_lookup normalized key of None \<Rightarrow> [] | Some vs \<Rightarrow> vs)
      in if length old \<ge> maxHeaderValues then (True, normalized)
         else add_values key values (limited, al_put key (old @ [to_valid_utf8 value]) normalized))"

definition normalize_header :: "http_header \<Rightarrow> bool \<times> (bytes \<times> bytes list) list" where
  "normalize_header header = foldl (\<lambda>acc (name, values). add_values (ascii_lower name) values acc) (False, []) header"

definition headerAttributes ::
    "http_header \<Rightarrow> (bytes \<Rightarrow> bytes list \<Rightarrow> attribute) \<Rightarrow> attribute list \<times> bool" where
  "headerAttributes header build =
     (let (limited, normalized) = normalize_header header;
          keys = sort (al_keys normalized);
          (keys1, limited1) =
            (if length keys > maxHeaderAttributes then (take maxHeaderAttributes keys, True) else (keys, limited))
      in (map (\<lambda>key. build key (the (al_lookup normalized key))) keys1, limited1))"

definition requestHeaderAttributes :: "http_header \<Rightarrow> attribute list \<times> bool" where
  "requestHeaderAttributes header = headerAttributes header HTTPRequestHeader"

definition responseHeaderAttributes :: "http_header \<Rightarrow> attribute list \<times> bool" where
  "responseHeaderAttributes header = headerAttributes header HTTPResponseHeader"

subsection \<open>JSON fields\<close>

definition traceBody :: "bytes \<Rightarrow> bytes" where
  "traceBody body = to_valid_utf8 body"

definition body_field_char :: "char \<Rightarrow> bool" where
  "body_field_char c \<longleftrightarrow>
     (0x61 \<le> byte c \<and> byte c \<le> 0x7A) \<or> (0x41 \<le> byte c \<and> byte c \<le> 0x5A) \<or> digit c \<or>
     c = CHR ''.'' \<or> c = CHR ''_'' \<or> c = CHR ''-''"

definition validBodyFieldName :: "bytes \<Rightarrow> bool" where
  "validBodyFieldName field \<longleftrightarrow>
     \<not> (length field = 0 \<or> length field > maxSplitBodyFieldNameLength) \<and> list_all body_field_char field"

text \<open>The loop of the token decoder: the members so far are in reverse order.\<close>

fun object_fields :: "(bytes \<times> bytes) list \<Rightarrow> (bytes \<times> bytes) list \<Rightarrow> (bytes \<times> bytes) list option" where
  "object_fields [] seen = Some (rev seen)"
| "object_fields ((k, value) # ms) seen =
     (let name = unquote (json_inner k)
      in if \<not> validBodyFieldName name then None
         else if name \<in> set (al_keys seen) then None
         else object_fields ms ((name, value) # seen))"

definition jsonObjectFields :: "bytes \<Rightarrow> (bytes \<times> bytes) list option" where
  "jsonObjectFields raw =
     (if \<not> json_valid raw \<or> take 1 (trim_json raw) \<noteq> ''{'' then None
      else object_fields (map json_member (json_elements (trim_json raw))) [])"

definition jsonStringValue :: "bytes \<Rightarrow> bytes option" where
  "jsonStringValue raw0 =
     (let raw = trim_space raw0
      in if raw = [] \<or> hd raw \<noteq> quote then None else unmarshal_string raw)"

definition jsonLeafString :: "bytes \<Rightarrow> bytes" where
  "jsonLeafString raw = (case jsonStringValue raw of Some value \<Rightarrow> traceBody value | None \<Rightarrow> raw)"

definition jsonNumberFieldValue :: "bytes \<Rightarrow> attr_value" where
  "jsonNumberFieldValue raw =
     (if \<not> list_ex (\<lambda>c. c \<in> set ''.eE'') raw then
        (case atoi raw of Some integer \<Rightarrow> IntVal integer | None \<Rightarrow> StrVal raw)
      else if \<not> parse_float_ok raw then StrVal raw
      else if \<not> float_is_exact raw then StrVal raw
      else FloatVal raw)"

definition jsonBodyFieldValue :: "bytes \<Rightarrow> attr_value option" where
  "jsonBodyFieldValue raw0 =
     (let raw = trim_space raw0
      in if raw = [] then None
         else if hd raw = quote then map_option StrVal (unmarshal_string raw)
         else if hd raw = CHR ''t'' then Some (BoolVal True)
         else if hd raw = CHR ''f'' then Some (BoolVal False)
         else if hd raw = CHR ''n'' then Some (StrVal ''null'')
         else if hd raw = CHR ''['' \<or> hd raw = CHR ''{'' then
           map_option (\<lambda>c. StrVal (traceBody c)) (json_compact raw)
         else Some (jsonNumberFieldValue raw))"

subsection \<open>The body splitter\<close>

record bodySplitter =
  bs_paths :: "bytes list"
  bs_values :: "(bytes \<times> bytes list) list"
  bs_limited :: bool

definition newBodySplitter :: bodySplitter where
  "newBodySplitter = \<lparr>bs_paths = [], bs_values = [], bs_limited = False\<rparr>"

definition bs_emit :: "bodySplitter \<Rightarrow> bytes \<Rightarrow> bytes \<Rightarrow> bodySplitter" where
  "bs_emit b path value =
     (case al_lookup (bs_values b) path of
        None \<Rightarrow>
          if length (bs_values b) \<ge> maxSplitBodyAttributes then b\<lparr>bs_limited := True\<rparr>
          else b\<lparr>bs_paths := bs_paths b @ [path], bs_values := al_put path [value] (bs_values b)\<rparr>
      | Some values \<Rightarrow>
          if length values \<ge> maxSplitBodyValues then b\<lparr>bs_limited := True\<rparr>
          else b\<lparr>bs_values := al_put path (values @ [value]) (bs_values b)\<rparr>)"

definition bs_emitRaw :: "bodySplitter \<Rightarrow> bytes \<Rightarrow> bytes \<Rightarrow> bodySplitter" where
  "bs_emitRaw b path raw =
     (let b1 = b\<lparr>bs_limited := True\<rparr>
      in case json_compact raw of None \<Rightarrow> b1 | Some compact \<Rightarrow> bs_emit b1 path (traceBody compact))"

definition sorted_fields :: "(bytes \<times> bytes) list \<Rightarrow> (bytes \<times> bytes) list" where
  "sorted_fields fs = sort_key fst fs"

definition raw_elements :: "bytes \<Rightarrow> bytes list option" where
  "raw_elements raw = unmarshal (dec_list dec_raw []) raw []"

function bs_walk :: "bodySplitter \<Rightarrow> bytes \<Rightarrow> bytes \<Rightarrow> nat \<Rightarrow> bodySplitter" where
  "bs_walk b path raw0 depth =
     (let raw = trim_space raw0
      in if raw = [] then b
         else if hd raw = CHR ''{'' then
           if depth > maxSplitBodyDepth then bs_emitRaw b path raw
           else (case jsonObjectFields raw of
                   None \<Rightarrow> bs_emitRaw b path raw
                 | Some fs \<Rightarrow> foldl (\<lambda>b f. bs_walk b (path @ ''.'' @ fst f) (snd f) (depth + 1)) b (sorted_fields fs))
         else if hd raw = CHR ''['' then
           if depth > maxSplitBodyDepth then bs_emitRaw b path raw
           else (case raw_elements raw of
                   None \<Rightarrow> bs_emitRaw b path raw
                 | Some es \<Rightarrow> foldl (\<lambda>b e. bs_walk b path e (depth + 1)) b es)
         else bs_emit b path (jsonLeafString raw))"
  by pat_completeness auto
termination
  by (relation "measure (\<lambda>(b, path, raw, depth). maxSplitBodyDepth + 1 - depth)") auto

declare bs_walk.simps [simp del]

definition messagesBodyField :: bytes where "messagesBodyField = ''messages''"
definition messageBodyPrefix :: bytes where "messageBodyPrefix = ''message''"
definition messageRoleField :: bytes where "messageRoleField = ''role''"
definition defaultMessageRole :: bytes where "defaultMessageRole = ''default''"

definition message_role :: "(bytes \<times> bytes) list \<Rightarrow> bytes" where
  "message_role fs =
     (case jsonStringValue (case al_lookup fs messageRoleField of Some v \<Rightarrow> v | None \<Rightarrow> []) of
        Some name \<Rightarrow> if validBodyFieldName name then name else defaultMessageRole
      | None \<Rightarrow> defaultMessageRole)"

definition walkMessage :: "bytes \<Rightarrow> bodySplitter \<Rightarrow> bytes \<Rightarrow> bodySplitter" where
  "walkMessage base b element0 =
     (let element = trim_space element0
      in if element = [] then b
         else if hd element \<noteq> CHR ''{'' then bs_walk b (base @ ''.'' @ defaultMessageRole) element 2
         else (case jsonObjectFields element of
                 None \<Rightarrow> bs_emitRaw b (base @ ''.'' @ defaultMessageRole) element
               | Some fs \<Rightarrow>
                   let path = base @ ''.'' @ message_role fs
                   in foldl (\<lambda>b f. if fst f = messageRoleField then b
                                   else bs_walk b (path @ ''.'' @ fst f) (snd f) 2) b (sorted_fields fs)))"

definition walkMessages :: "bodySplitter \<Rightarrow> bytes \<Rightarrow> bytes \<Rightarrow> bodySplitter" where
  "walkMessages b base raw =
     (case raw_elements raw of
        None \<Rightarrow> bs_emitRaw b base raw
      | Some es \<Rightarrow> foldl (walkMessage base) b es)"

definition bs_attributes :: "bodySplitter \<Rightarrow> attribute list" where
  "bs_attributes b = map (\<lambda>path. (path, StrsVal (the (al_lookup (bs_values b) path)))) (sort (bs_paths b))"

subsection \<open>Body attributes\<close>

text \<open>The loop over the fields of the root object; none when it returns early.\<close>

fun split_fields ::
    "bytes \<Rightarrow> (bytes \<times> bytes) list \<Rightarrow> bodySplitter \<times> attribute list \<Rightarrow> (bodySplitter \<times> attribute list) option" where
  "split_fields key [] acc = Some acc"
| "split_fields key ((field, value0) # fs) (splitter, attrs) =
     (let raw = trim_space value0; path = key @ ''.'' @ field
      in if raw = [] then None
         else if field = messagesBodyField \<and> hd raw = CHR ''['' then
           split_fields key fs (walkMessages splitter (key @ ''.'' @ messageBodyPrefix) raw, attrs)
         else if hd raw = CHR ''{'' \<or> hd raw = CHR ''['' then
           split_fields key fs (bs_walk splitter path raw 1, attrs)
         else (case jsonBodyFieldValue raw of
                 None \<Rightarrow> None
               | Some value \<Rightarrow> split_fields key fs (splitter, attrs @ [(path, value)])))"

definition splitJSONBodyAttributes :: "bytes \<Rightarrow> bytes \<Rightarrow> bytes \<Rightarrow> attribute list option" where
  "splitJSONBodyAttributes key limitKey body =
     (let root = trim_space body
      in if root = [] \<or> hd root \<noteq> CHR ''{'' \<or> \<not> json_valid root then None
         else (case jsonObjectFields root of
                 None \<Rightarrow> None
               | Some fs \<Rightarrow>
                   if fs = [] \<or> length fs > maxSplitBodyFields then None
                   else (case split_fields key fs (newBodySplitter, []) of
                           None \<Rightarrow> None
                         | Some (splitter, attrs) \<Rightarrow>
                             let attrs1 = sort_key fst (attrs @ bs_attributes splitter);
                                 attrs2 = (if bs_limited splitter then attrs1 @ [(limitKey, BoolVal True)] else attrs1)
                             in if attrs2 = [] then None else Some attrs2)))"

definition traceBodyAttributes :: "bytes \<Rightarrow> bytes \<Rightarrow> bytes \<Rightarrow> bool \<Rightarrow> attribute list" where
  "traceBodyAttributes key limitKey body truncated =
     (case (if \<not> truncated then splitJSONBodyAttributes key limitKey body else None) of
        Some attrs \<Rightarrow> attrs
      | None \<Rightarrow> [(key, StrVal (traceBody body))])"

definition boundedTraceBody :: "bytes \<Rightarrow> bytes \<times> bool" where
  "boundedTraceBody body =
     (if length body \<le> maxTracedBodySize then (body, False)
      else (take (rune_cut body maxTracedBodySize) body, True))"

end
