(* ===== verification/Attribute_Safety.thy ===== *)
theory Attribute_Safety
  imports Trace_Attributes "HOL-Library.Multiset"
begin

text \<open>
  What the header and body attributes contain, and how much: both are compared with a
  description that has no limits, the list of all pairs of a key and a value.
\<close>

subsection \<open>Values by key\<close>

definition values_for :: "'k \<Rightarrow> ('k \<times> 'v) list \<Rightarrow> 'v list" where
  "values_for k ps = map snd (filter (\<lambda>e. fst e = k) ps)"

definition some_list :: "'v list \<Rightarrow> 'v list option" where
  "some_list vs = (if vs = [] then None else Some vs)"

lemma values_for_simps [simp]:
  "values_for k [] = []" "values_for k ((l, v) # ps) = (if l = k then v # values_for k ps else values_for k ps)"
  "values_for k (ps @ qs) = values_for k ps @ values_for k qs"
  by (simp_all add: values_for_def)

lemma values_for_map [simp]: "values_for k (map (Pair l) vs) = (if l = k then vs else [])"
  by (cases "l = k"; induction vs) simp_all

lemma values_for_Nil: "values_for k ps = [] \<longleftrightarrow> k \<notin> fst ` set ps"
  by (auto simp: values_for_def filter_empty_conv)

lemma some_list_simps [simp]:
  "some_list [] = None" "some_list vs = None \<longleftrightarrow> vs = []" "some_list (vs @ [v]) = Some (vs @ [v])" "some_list (v # vs) = Some (v # vs)"
  by (simp_all add: some_list_def)

lemma case_some_list: "(case some_list vs of None \<Rightarrow> [] | Some ws \<Rightarrow> ws) = vs"
  by (simp add: some_list_def)

text \<open>
  A map of lists that has collected the pairs \<open>ps\<close>, at most \<open>n\<close> for a key, with a flag that is
  set when a pair was left out.
\<close>

definition collects :: "nat \<Rightarrow> ('k \<times> 'v) list \<Rightarrow> bool \<times> ('k \<times> 'v list) list \<Rightarrow> bool" where
  "collects n ps acc \<longleftrightarrow>
     distinct (al_keys (snd acc)) \<and>
     (\<forall>k. al_lookup (snd acc) k = some_list (take n (values_for k ps))) \<and>
     (fst acc \<longleftrightarrow> (\<exists>k. length (values_for k ps) > n))"

lemma collects_keys:
  assumes "collects n ps acc" and "n > 0"
  shows "set (al_keys (snd acc)) = fst ` set ps" "distinct (al_keys (snd acc))"
proof -
  have "k \<in> set (al_keys (snd acc)) \<longleftrightarrow> k \<in> fst ` set ps" for k
  proof -
    have "al_lookup (snd acc) k = None \<longleftrightarrow> values_for k ps = []" using assms by (auto simp: collects_def)
    then show ?thesis by (metis al_lookup_None values_for_Nil list.set_map)
  qed
  then show "set (al_keys (snd acc)) = fst ` set ps" by blast
  show "distinct (al_keys (snd acc))" using assms by (simp add: collects_def)
qed

text \<open>One more pair: stored, or left out with the flag set.\<close>

lemma collects_full:
  assumes "collects n ps (l, m)" and "length (values_for k ps) \<ge> n"
  shows "collects n (ps @ [(k, v)]) (True, m)"
  using assms by (auto simp: collects_def)

lemma collects_put:
  assumes "collects n ps (l, m)" and "length (values_for k ps) < n"
  shows "collects n (ps @ [(k, v)]) (l, al_put k (values_for k ps @ [v]) m)"
proof -
  have "length (values_for j (ps @ [(k, v)])) > n \<longleftrightarrow> length (values_for j ps) > n" for j
    using assms(2) by auto
  with assms show ?thesis by (simp add: collects_def)
qed

lemma collects_more:
  assumes "collects n ps (True, m)" and "length (values_for k ps) \<ge> n"
  shows "collects n (ps @ map (Pair k) vs) (True, m)"
  using assms
proof (induction vs arbitrary: ps)
  case (Cons v vs)
  from collects_full [OF Cons.prems, of v] have "collects n (ps @ [(k, v)]) (True, m)" .
  from Cons.IH [OF this] Cons.prems(2) show ?case by simp
qed simp

subsection \<open>Headers\<close>

definition header_values :: "http_header \<Rightarrow> (bytes \<times> bytes) list" where
  "header_values header = concat (map (\<lambda>(name, values). map (\<lambda>v. (ascii_lower name, to_valid_utf8 v)) values) header)"

lemma add_values_collects:
  assumes "collects maxHeaderValues ps acc"
  shows "collects maxHeaderValues (ps @ map (Pair key) (map to_valid_utf8 vals)) (add_values key vals acc)"
  using assms
proof (induction key vals acc arbitrary: ps rule: add_values.induct)
  case (2 key v vs l m)
  have old: "(case al_lookup m key of None \<Rightarrow> [] | Some vs \<Rightarrow> vs) = take maxHeaderValues (values_for key ps)"
    using "2.prems" by (simp add: collects_def case_some_list)
  show ?case
  proof (cases "length (values_for key ps) \<ge> maxHeaderValues")
    case True
    from collects_more [OF collects_full [OF "2.prems" True, of "to_valid_utf8 v"], of key "map to_valid_utf8 vs"]
    show ?thesis using True by (simp add: old Let_def)
  next
    case False
    with collects_put [OF "2.prems", of key "to_valid_utf8 v"] "2.IH" [of _ "ps @ [(key, to_valid_utf8 v)]"] show ?thesis
      by (simp add: old Let_def)
  qed
qed simp

lemma normalize_header_collects: "collects maxHeaderValues (header_values header) (normalize_header header)"
proof -
  have "collects maxHeaderValues (ps @ header_values header)
      (foldl (\<lambda>acc (name, values). add_values (ascii_lower name) values acc) acc header)"
    if "collects maxHeaderValues ps acc" for ps acc
    using that
  proof (induction header arbitrary: ps acc)
    case (Cons e header)
    obtain name vs where e: "e = (name, vs)" by (cases e)
    from Cons.IH [OF add_values_collects [OF Cons.prems, of "ascii_lower name" vs]] show ?case
      by (simp add: header_values_def e comp_def)
  qed (simp add: header_values_def)
  from this [of "[]" "(False, [])"] show ?thesis by (simp add: normalize_header_def collects_def)
qed

lemma sort_distinct_keys: "distinct ks \<Longrightarrow> sort ks = sorted_list_of_set (set ks)"
  by (simp add: sorted_list_of_set_sort_remdups distinct_remdups_id)

text \<open>
  C31: the header attributes are the header: the values of all names that differ only in case,
  in order, as valid UTF-8, under the lower-case name, sorted by name. At most 32 values of a
  name and 64 names are kept, and the flag says exactly when something was left out.
\<close>

theorem header_attributes_exact:
  "let ps = header_values header; keys = sorted_list_of_set (fst ` set ps)
   in headerAttributes header build =
        (map (\<lambda>k. build k (take 32 (values_for k ps))) (take 64 keys),
         length keys > 64 \<or> (\<exists>k. length (values_for k ps) > 32))"
proof -
  obtain l m where n: "normalize_header header = (l, m)" by (cases "normalize_header header")
  have c: "collects maxHeaderValues (header_values header) (l, m)" using normalize_header_collects [of header] n by simp
  have keys: "sort (al_keys m) = sorted_list_of_set (fst ` set (header_values header))"
    using collects_keys [OF c] sort_distinct_keys [of "al_keys m"] by (simp add: maxHeaderValues_def)
  have "length m = card (fst ` set (header_values header))"
    using collects_keys [OF c] distinct_card [of "al_keys m"] by (simp add: maxHeaderValues_def)
  moreover have "the (al_lookup m k) = take 32 (values_for k (header_values header))"
    if "k \<in> set (take 64 (sort (al_keys m)))" for k
  proof -
    have "values_for k (header_values header) \<noteq> []"
      using in_set_takeD [OF that] by (simp add: keys values_for_Nil)
    with c show ?thesis by (simp add: collects_def maxHeaderValues_def some_list_def)
  qed
  ultimately show ?thesis using c
    by (auto simp: headerAttributes_def n Let_def keys [symmetric] collects_def maxHeaderValues_def maxHeaderAttributes_def)
qed


subsection \<open>The body splitter\<close>

text \<open>What a walk hands to the splitter: leaves, and the places where it gives up descending.\<close>

datatype split_event = Leaf bytes bytes | Cut

fun split_apply :: "bodySplitter \<Rightarrow> split_event \<Rightarrow> bodySplitter" where
  "split_apply b (Leaf path value) = bs_emit b path value"
| "split_apply b Cut = b\<lparr>bs_limited := True\<rparr>"

definition cut_events :: "bytes \<Rightarrow> bytes \<Rightarrow> split_event list" where
  "cut_events path raw = Cut # (case json_compact raw of None \<Rightarrow> [] | Some c \<Rightarrow> [Leaf path (traceBody c)])"

function walk_events :: "bytes \<Rightarrow> bytes \<Rightarrow> nat \<Rightarrow> split_event list" where
  "walk_events path raw0 depth =
     (let raw = trim_space raw0
      in if raw = [] then []
         else if hd raw = CHR ''{'' then
           if depth > maxSplitBodyDepth then cut_events path raw
           else (case jsonObjectFields raw of
                   None \<Rightarrow> cut_events path raw
                 | Some fs \<Rightarrow> concat (map (\<lambda>f. walk_events (path @ ''.'' @ fst f) (snd f) (depth + 1)) (sorted_fields fs)))
         else if hd raw = CHR ''['' then
           if depth > maxSplitBodyDepth then cut_events path raw
           else (case raw_elements raw of
                   None \<Rightarrow> cut_events path raw
                 | Some es \<Rightarrow> concat (map (\<lambda>e. walk_events path e (depth + 1)) es))
         else [Leaf path (jsonLeafString raw)])"
  by pat_completeness auto
termination
  by (relation "measure (\<lambda>(path, raw, depth). maxSplitBodyDepth + 1 - depth)") auto

declare walk_events.simps [simp del]

definition message_events :: "bytes \<Rightarrow> bytes \<Rightarrow> split_event list" where
  "message_events base element0 =
     (let element = trim_space element0
      in if element = [] then []
         else if hd element \<noteq> CHR ''{'' then walk_events (base @ ''.'' @ defaultMessageRole) element 2
         else (case jsonObjectFields element of
                 None \<Rightarrow> cut_events (base @ ''.'' @ defaultMessageRole) element
               | Some fs \<Rightarrow>
                   concat (map (\<lambda>f. if fst f = messageRoleField then []
                                   else walk_events ((base @ ''.'' @ message_role fs) @ ''.'' @ fst f) (snd f) 2)
                     (sorted_fields fs))))"

definition messages_events :: "bytes \<Rightarrow> bytes \<Rightarrow> split_event list" where
  "messages_events base raw =
     (case raw_elements raw of None \<Rightarrow> cut_events base raw | Some es \<Rightarrow> concat (map (message_events base) es))"

lemma foldl_events:
  assumes "\<And>a x. x \<in> set xs \<Longrightarrow> f a x = foldl split_apply a (g x)"
  shows "foldl f a xs = foldl split_apply a (concat (map g xs))"
  using assms by (induction xs arbitrary: a) simp_all

lemma cut_events_apply: "bs_emitRaw b path raw = foldl split_apply b (cut_events path raw)"
  by (simp add: bs_emitRaw_def cut_events_def Let_def split: option.split)

lemma bs_walk_events: "bs_walk b path raw depth = foldl split_apply b (walk_events path raw depth)"
proof (induction b path raw depth rule: bs_walk.induct)
  case (1 b path raw0 depth)
  have obj: "foldl (\<lambda>b f. bs_walk b (path @ ''.'' @ fst f) (snd f) (depth + 1)) b (sorted_fields fs) =
      foldl split_apply b (concat (map (\<lambda>f. walk_events (path @ ''.'' @ fst f) (snd f) (depth + 1)) (sorted_fields fs)))"
    if "trim_space raw0 \<noteq> []" "hd (trim_space raw0) = CHR ''{''" "\<not> depth > maxSplitBodyDepth"
      "jsonObjectFields (trim_space raw0) = Some fs" for fs
    by (rule foldl_events) (use "1.IH"(1) [OF refl] that in blast)
  have arr: "foldl (\<lambda>b e. bs_walk b path e (depth + 1)) b es =
      foldl split_apply b (concat (map (\<lambda>e. walk_events path e (depth + 1)) es))"
    if "trim_space raw0 \<noteq> []" "hd (trim_space raw0) \<noteq> CHR ''{''" "hd (trim_space raw0) = CHR ''[''"
      "\<not> depth > maxSplitBodyDepth" "raw_elements (trim_space raw0) = Some es" for es
    by (rule foldl_events) (use "1.IH"(2) [OF refl] that in blast)
  show ?case
    unfolding bs_walk.simps [of b path raw0 depth] walk_events.simps [of path raw0 depth] Let_def
    using obj arr by (auto simp: cut_events_apply split: option.split)
qed

lemma walkMessages_events: "walkMessages b base raw = foldl split_apply b (messages_events base raw)"
proof -
  have fields: "foldl (\<lambda>b f. if fst f = messageRoleField then b
        else foldl split_apply b (walk_events (path @ ''.'' @ fst f) (snd f) 2)) b fs =
      foldl split_apply b (concat (map (\<lambda>f. if fst f = messageRoleField then []
        else walk_events (path @ ''.'' @ fst f) (snd f) 2) fs))" for b path fs
    by (rule foldl_events) simp
  have "walkMessage base b e = foldl split_apply b (message_events base e)" for b e
  proof (cases "jsonObjectFields (trim_space e)")
    case None
    show ?thesis
      unfolding walkMessage_def message_events_def Let_def None option.case if_distrib [of "foldl split_apply b"]
        bs_walk_events cut_events_apply foldl_Nil by (rule refl)
  next
    case (Some fs)
    show ?thesis
      unfolding walkMessage_def message_events_def Let_def Some option.case fields if_distrib [of "foldl split_apply b"]
        bs_walk_events foldl_Nil by (rule refl)
  qed
  then have "foldl (walkMessage base) b es = foldl split_apply b (concat (map (message_events base) es))" for es
    by (rule foldl_events)
  then show ?thesis
    by (simp add: walkMessages_def messages_events_def cut_events_apply split: option.split)
qed

subsection \<open>What the splitter keeps\<close>

fun leaf_pairs :: "split_event list \<Rightarrow> (bytes \<times> bytes) list" where
  "leaf_pairs [] = []"
| "leaf_pairs (Leaf path value # evs) = (path, value) # leaf_pairs evs"
| "leaf_pairs (Cut # evs) = leaf_pairs evs"

lemma leaf_pairs_append [simp]: "leaf_pairs (evs @ evs') = leaf_pairs evs @ leaf_pairs evs'"
  by (induction evs rule: leaf_pairs.induct) simp_all

definition first_keys :: "('k \<times> 'v) list \<Rightarrow> 'k list" where
  "first_keys ps = rev (remdups (rev (map fst ps)))"

lemma first_keys_snoc:
  "first_keys [] = []"
  "first_keys (ps @ [(k, v)]) = (if k \<in> fst ` set ps then first_keys ps else first_keys ps @ [k])"
  by (simp_all add: first_keys_def)

lemma first_keys_set [simp]: "set (first_keys ps) = fst ` set ps" "distinct (first_keys ps)"
  by (simp_all add: first_keys_def)

definition over_limits :: "split_event list \<Rightarrow> bool" where
  "over_limits evs \<longleftrightarrow> Cut \<in> set evs \<or> length (first_keys (leaf_pairs evs)) > maxSplitBodyAttributes \<or>
     (\<exists>k. length (values_for k (leaf_pairs evs)) > maxSplitBodyValues)"

definition splitter_inv :: "split_event list \<Rightarrow> bodySplitter \<Rightarrow> bool" where
  "splitter_inv evs b \<longleftrightarrow>
     bs_paths b = take maxSplitBodyAttributes (first_keys (leaf_pairs evs)) \<and>
     al_keys (bs_values b) = bs_paths b \<and>
     (\<forall>k. al_lookup (bs_values b) k =
        (if k \<in> set (bs_paths b) then Some (take maxSplitBodyValues (values_for k (leaf_pairs evs))) else None)) \<and>
     (bs_limited b \<longleftrightarrow> over_limits evs)"


lemma over_limits_leaf:
  "over_limits (evs @ [Leaf p v]) \<longleftrightarrow> over_limits evs \<or>
     (p \<notin> fst ` set (leaf_pairs evs) \<and> length (first_keys (leaf_pairs evs)) \<ge> maxSplitBodyAttributes) \<or>
     length (values_for p (leaf_pairs evs)) \<ge> maxSplitBodyValues"
proof -
  have "(\<exists>k. length (values_for k (leaf_pairs evs @ [(p, v)])) > maxSplitBodyValues) \<longleftrightarrow>
      (\<exists>k. length (values_for k (leaf_pairs evs)) > maxSplitBodyValues) \<or> length (values_for p (leaf_pairs evs)) \<ge> maxSplitBodyValues"
    (is "(\<exists>k. ?new k > _) \<longleftrightarrow> (\<exists>k. ?old k > _) \<or> _")
  proof -
    have new: "?new k = ?old k + (if p = k then 1 else 0)" for k by simp
    have "?new k > maxSplitBodyValues \<Longrightarrow> ?old k > maxSplitBodyValues \<or> ?old p \<ge> maxSplitBodyValues" for k
      unfolding new by (auto split: if_splits)
    moreover have "?old k > maxSplitBodyValues \<Longrightarrow> ?new k > maxSplitBodyValues" for k unfolding new by simp
    moreover have "?old p \<ge> maxSplitBodyValues \<Longrightarrow> ?new p > maxSplitBodyValues" unfolding new by simp
    ultimately show ?thesis by blast
  qed
  moreover have "length (first_keys (leaf_pairs evs @ [(p, v)])) > maxSplitBodyAttributes \<longleftrightarrow>
      length (first_keys (leaf_pairs evs)) > maxSplitBodyAttributes \<or>
      (p \<notin> fst ` set (leaf_pairs evs) \<and> length (first_keys (leaf_pairs evs)) \<ge> maxSplitBodyAttributes)"
    by (auto simp: first_keys_snoc)
  ultimately show ?thesis by (auto simp: over_limits_def)
qed

lemma splitter_inv_new: "splitter_inv [] newBodySplitter"
  by (simp add: splitter_inv_def newBodySplitter_def first_keys_def over_limits_def)

lemma splitter_inv_leaf:
  assumes inv: "splitter_inv evs b"
  shows "splitter_inv (evs @ [Leaf p v]) (bs_emit b p v)"
proof -
  let ?ps = "leaf_pairs evs" and ?A = maxSplitBodyAttributes and ?V = maxSplitBodyValues
  have paths: "bs_paths b = take ?A (first_keys ?ps)" and keys: "al_keys (bs_values b) = bs_paths b"
    and look: "\<And>k. al_lookup (bs_values b) k = (if k \<in> set (bs_paths b) then Some (take ?V (values_for k ?ps)) else None)"
    and lim: "bs_limited b \<longleftrightarrow> over_limits evs"
    using inv by (simp_all add: splitter_inv_def)
  have len: "length (bs_values b) = min ?A (length (first_keys ?ps))"
    using arg_cong [OF keys, of length] by (simp add: paths min.commute)
  show ?thesis
  proof (cases "p \<in> set (bs_paths b)")
    case stored: True
    then have p: "p \<in> fst ` set ?ps" using paths first_keys_set(1) by (metis in_set_takeD)
    have len_vs: "length (take ?V (values_for p ?ps)) \<ge> ?V \<longleftrightarrow> length (values_for p ?ps) \<ge> ?V" by simp
    show ?thesis
    proof (cases "length (values_for p ?ps) \<ge> ?V")
      case True
      have "take ?V (values_for k (?ps @ [(p, v)])) = take ?V (values_for k ?ps)" for k
        using True by (cases "p = k") simp_all
      then show ?thesis
        using stored True p keys look paths
        by (simp add: splitter_inv_def bs_emit_def over_limits_leaf first_keys_snoc)
    next
      case False
      have "take ?V (values_for p ?ps) = values_for p ?ps" using False by simp
      moreover have "p \<in> fst ` set (bs_values b)" using stored keys by (metis list.set_map)
      ultimately show ?thesis
        using stored False p keys look paths lim
        by (simp add: splitter_inv_def bs_emit_def over_limits_leaf first_keys_snoc keys_put_list)
    qed
  next
    case new: False
    show ?thesis
    proof (cases "length (bs_values b) \<ge> ?A")
      case True
      with len have full: "length (first_keys ?ps) \<ge> ?A" by simp
      have "length (first_keys ?ps) > ?A" if "p \<in> fst ` set ?ps"
        using that new paths first_keys_set(1) [of ?ps] by (metis not_less take_all)
      then have "over_limits (evs @ [Leaf p v])"
        using full unfolding over_limits_leaf by (auto simp: over_limits_def)
      moreover have "take ?A (first_keys (?ps @ [(p, v)])) = take ?A (first_keys ?ps)"
        using full by (simp add: first_keys_snoc)
      ultimately show ?thesis
        using new True keys look paths by (simp add: splitter_inv_def bs_emit_def)
    next
      case False
      with len have short: "length (first_keys ?ps) < ?A" by simp
      then have "set (bs_paths b) = fst ` set ?ps" using paths by simp
      then have p: "p \<notin> fst ` set ?ps" using new by blast
      then have "values_for p ?ps = []" by (simp add: values_for_Nil)
      moreover have "0 < ?V" by (simp add: maxSplitBodyValues_def)
      moreover have "p \<notin> fst ` set (bs_values b)" using new keys by (metis list.set_map)
      ultimately show ?thesis
        using new False p short keys look paths lim
        by (simp add: splitter_inv_def bs_emit_def over_limits_leaf first_keys_snoc keys_put_list)
    qed
  qed
qed

lemma splitter_inv_step: "splitter_inv evs b \<Longrightarrow> splitter_inv (evs @ [e]) (split_apply b e)"
proof (cases e)
  case Cut
  assume "splitter_inv evs b"
  with Cut show ?thesis by (simp add: splitter_inv_def over_limits_def)
qed (simp add: splitter_inv_leaf)

lemma splitter_inv_run: "splitter_inv evs (foldl split_apply newBodySplitter evs)"
proof (induction evs rule: rev_induct)
  case Nil
  show ?case by (simp add: splitter_inv_new)
next
  case (snoc e evs)
  then show ?case by (simp add: splitter_inv_step)
qed


subsection \<open>The attributes of a body\<close>

definition nested_field :: "bytes \<Rightarrow> bool" where
  "nested_field raw \<longleftrightarrow> hd raw = CHR ''{'' \<or> hd raw = CHR ''[''"

fun body_events :: "bytes \<Rightarrow> (bytes \<times> bytes) list \<Rightarrow> split_event list" where
  "body_events key [] = []"
| "body_events key ((field, value) # fs) =
     (let raw = trim_space value
      in if field = messagesBodyField \<and> hd raw = CHR ''['' then messages_events (key @ ''.'' @ messageBodyPrefix) raw
         else if nested_field raw then walk_events (key @ ''.'' @ field) raw 1 else []) @ body_events key fs"

fun body_scalars :: "bytes \<Rightarrow> (bytes \<times> bytes) list \<Rightarrow> attribute list" where
  "body_scalars key [] = []"
| "body_scalars key ((field, value) # fs) =
     (if nested_field (trim_space value) then []
      else case jsonBodyFieldValue (trim_space value) of None \<Rightarrow> [] | Some v \<Rightarrow> [(key @ ''.'' @ field, v)]) @
     body_scalars key fs"

lemma split_fields_eq:
  "split_fields key fs (b, attrs) = Some (b', attrs') \<Longrightarrow>
     b' = foldl split_apply b (body_events key fs) \<and> attrs' = attrs @ body_scalars key fs"
proof (induction key fs "(b, attrs)" arbitrary: b attrs rule: split_fields.induct)
  case (2 key name val fs b attrs)
  let ?raw = "trim_space val"
  from "2.prems" have ne: "?raw \<noteq> []" by (auto simp: Let_def)
  consider "name = messagesBodyField" "hd ?raw = CHR ''[''"
    | "\<not> (name = messagesBodyField \<and> hd ?raw = CHR ''['')" "nested_field ?raw"
    | "\<not> nested_field ?raw" by blast
  then show ?case
  proof cases
    case 1
    with "2.prems" "2.hyps"(1) [OF refl refl ne] ne show ?thesis
      by (simp add: Let_def walkMessages_events nested_field_def)
  next
    case 2
    with "2.prems" "2.hyps"(2) [OF refl refl ne] ne show ?thesis
      by (auto simp: Let_def bs_walk_events nested_field_def split: if_splits)
  next
    case 3
    then obtain v where v: "jsonBodyFieldValue ?raw = Some v"
      using "2.prems" ne by (auto simp: Let_def nested_field_def split: option.splits)
    from 3 "2.prems" "2.hyps"(3) [OF refl refl ne] ne v show ?thesis
      by (simp add: Let_def nested_field_def)
  qed
qed simp

lemma length_body_scalars: "length (body_scalars key fs) \<le> length fs"
  by (induction key fs rule: body_scalars.induct) (auto split: option.split)

definition split_attribute :: "(bytes \<times> bytes) list \<Rightarrow> bytes \<Rightarrow> attribute" where
  "split_attribute ps k = (k, StrsVal (take 256 (values_for k ps)))"

lemma bs_attributes_eq:
  assumes "splitter_inv evs b"
  shows "bs_attributes b = map (split_attribute (leaf_pairs evs)) (sort (take 256 (first_keys (leaf_pairs evs))))"
  using assms
  by (auto simp: bs_attributes_def splitter_inv_def split_attribute_def maxSplitBodyAttributes_def maxSplitBodyValues_def)

text \<open>
  C20: the attributes of a JSON body are its scalar fields and the leaves of its nested
  fields: the values found at a path, in order, at most 256 of them and at most 256 paths. The
  limit attribute is there exactly when a path or a value was left out or a part of the body
  was not taken apart, and there are never more than 321 attributes.
\<close>

theorem body_attributes_exact:
  assumes "jsonObjectFields (trim_space body) = Some fs" and "splitJSONBodyAttributes key limitKey body = Some attrs"
  shows "let evs = body_events key fs; ps = leaf_pairs evs; ks = first_keys ps
     in mset attrs = mset (body_scalars key fs) + mset (map (split_attribute ps) (take 256 ks)) +
          (if Cut \<in> set evs \<or> length ks > 256 \<or> (\<exists>k. length (values_for k ps) > 256)
           then {#(limitKey, BoolVal True)#} else {#}) \<and>
        length attrs \<le> 321"
proof -
  let ?evs = "body_events key fs"
  let ?b = "foldl split_apply newBodySplitter ?evs"
  from assms obtain b as where sf: "split_fields key fs (newBodySplitter, []) = Some (b, as)" and n: "length fs \<le> 64"
    and attrs: "attrs = (let as1 = sort_key fst (as @ bs_attributes b)
      in if bs_limited b then as1 @ [(limitKey, BoolVal True)] else as1)"
    by (auto simp: splitJSONBodyAttributes_def Let_def maxSplitBodyFields_def split: if_splits option.splits)
  have b: "b = ?b" "as = body_scalars key fs" using split_fields_eq [OF sf] by simp_all
  have inv: "splitter_inv ?evs ?b" by (rule splitter_inv_run)
  then have lim: "bs_limited ?b \<longleftrightarrow> Cut \<in> set ?evs \<or> length (first_keys (leaf_pairs ?evs)) > 256 \<or>
      (\<exists>k. length (values_for k (leaf_pairs ?evs)) > 256)"
    by (simp add: splitter_inv_def over_limits_def maxSplitBodyAttributes_def maxSplitBodyValues_def)
  have "length (body_scalars key fs) \<le> 64" using n length_body_scalars [of key fs] by simp
  then show ?thesis
    unfolding attrs b bs_attributes_eq [OF inv] lim Let_def by auto
qed

theorem body_attributes_exact_witness:
  "let evs = body_events ''k'' [(''a'', ''1''), (''b'', ''[2]'')]; ps = leaf_pairs evs; ks = first_keys ps
     in mset [(''k.a'', IntVal 1), (''k.b'', StrsVal [''2''])] =
          mset (body_scalars ''k'' [(''a'', ''1''), (''b'', ''[2]'')]) + mset (map (split_attribute ps) (take 256 ks)) +
          (if Cut \<in> set evs \<or> length ks > 256 \<or> (\<exists>k. length (values_for k ps) > 256)
           then {#(''l'', BoolVal True)#} else {#}) \<and>
        length [(''k.a'', IntVal 1), (''k.b'', StrsVal [''2''])] \<le> 321"
proof (rule body_attributes_exact)
  show "jsonObjectFields (trim_space ([CHR ''{'', quote] @ ''a'' @ [quote] @ '':1,'' @ [quote] @ ''b'' @ [quote] @ '':[2]}'')) =
      Some [(''a'', ''1''), (''b'', ''[2]'')]"
    by code_simp
  show "splitJSONBodyAttributes ''k'' ''l'' ([CHR ''{'', quote] @ ''a'' @ [quote] @ '':1,'' @ [quote] @ ''b'' @ [quote] @ '':[2]}'') =
      Some [(''k.a'', IntVal 1), (''k.b'', StrsVal [''2''])]"
    by code_simp
qed

text \<open>
  Two members of a body can get the same key, because a field name may contain a dot: the
  field \<open>a.b\<close> and the member \<open>b\<close> of the field \<open>a\<close>. Both attributes are set, under one key, and
  the limit attribute is not.
\<close>

lemma split_keys_can_collide:
  "splitJSONBodyAttributes ''k'' ''l'' ([CHR ''{'', quote] @ ''a.b'' @ [quote] @ '':1,'' @ [quote] @ ''a'' @ [quote] @
     '':{'' @ [quote] @ ''b'' @ [quote] @ '':2}}'') =
   Some [(''k.a.b'', IntVal 1), (''k.a.b'', StrsVal [''2''])]"
  by code_simp

end
