(* ===== verification/Request_Peek.thy ===== *)
theory Request_Peek
  imports Go_Numbers Stream_Events Response_Writer
begin

text \<open>
  The request side of \<open>internal/genai/genai.go\<close>: \<open>PeekRequest\<close> reads the body of a request up to a
  limit, puts back what it has read, and takes the model, the streaming flag and the sampling
  parameters from it; a body over the limit is read token by token.

  A request body is the bytes its reader delivers and the error it delivers after them, none
  for EOF. A pointer to a number is an option, a \<open>float64\<close> its literal. The limit is a natural
  number: \<open>internal/config\<close> only accepts 1 to 512 MiB.
\<close>

definition DefaultRequestLimit :: nat where
  "DefaultRequestLimit = 4 * 2 ^ 20"

record RequestParameters =
  rp_maxTokens :: "int option"
  rp_temperature :: "bytes option"
  rp_topP :: "bytes option"
  rp_topK :: "int option"
  rp_frequencyPenalty :: "bytes option"
  rp_presencePenalty :: "bytes option"
  rp_seed :: "int option"
  rp_choiceCount :: "int option"
  rp_stopSequences :: "bytes list"
  rp_outputType :: bytes

definition no_RequestParameters :: RequestParameters where
  "no_RequestParameters =
     \<lparr>rp_maxTokens = None, rp_temperature = None, rp_topP = None, rp_topK = None, rp_frequencyPenalty = None,
      rp_presencePenalty = None, rp_seed = None, rp_choiceCount = None, rp_stopSequences = [], rp_outputType = []\<rparr>"

record genai_Request =
  gr_model :: bytes
  gr_modelKnown :: bool
  gr_stream :: bool
  gr_streamKnown :: bool
  gr_body :: bytes
  gr_bodyTruncated :: bool
  gr_parameters :: RequestParameters

definition no_Request :: genai_Request where
  "no_Request =
     \<lparr>gr_model = [], gr_modelKnown = False, gr_stream = False, gr_streamKnown = False, gr_body = [],
      gr_bodyTruncated = False, gr_parameters = no_RequestParameters\<rparr>"

subsection \<open>The payload\<close>

record formatType = ft_type :: bytes

definition dec_formatType :: "formatType decoder" where
  "dec_formatType = dec_struct [fld ''type'' dec_string ft_type ft_type_update]"

record textFormat = tf_format :: "formatType option"

definition dec_textFormat :: "textFormat decoder" where
  "dec_textFormat = dec_struct [fld ''format'' (dec_ptr dec_formatType \<lparr>ft_type = []\<rparr>) tf_format tf_format_update]"

record requestPayload =
  rq_model :: bytes
  rq_stream :: "bool option"
  rq_maxTokens :: "int option"
  rq_maxCompletionTokens :: "int option"
  rq_maxOutputTokens :: "int option"
  rq_nPredict :: "int option"
  rq_temperature :: "bytes option"
  rq_topP :: "bytes option"
  rq_topK :: "int option"
  rq_frequencyPenalty :: "bytes option"
  rq_presencePenalty :: "bytes option"
  rq_seed :: "int option"
  rq_choiceCount :: "int option"
  rq_stop :: bytes
  rq_responseFormat :: "formatType option"
  rq_text :: "textFormat option"

definition no_requestPayload :: requestPayload where
  "no_requestPayload =
     \<lparr>rq_model = [], rq_stream = None, rq_maxTokens = None, rq_maxCompletionTokens = None, rq_maxOutputTokens = None,
      rq_nPredict = None, rq_temperature = None, rq_topP = None, rq_topK = None, rq_frequencyPenalty = None,
      rq_presencePenalty = None, rq_seed = None, rq_choiceCount = None, rq_stop = [], rq_responseFormat = None,
      rq_text = None\<rparr>"

definition dec_requestPayload :: "requestPayload decoder" where
  "dec_requestPayload = dec_struct
     [fld ''model'' dec_string rq_model rq_model_update,
      fld ''stream'' (dec_ptr dec_bool False) rq_stream rq_stream_update,
      fld ''max_tokens'' (dec_ptr dec_int 0) rq_maxTokens rq_maxTokens_update,
      fld ''max_completion_tokens'' (dec_ptr dec_int 0) rq_maxCompletionTokens rq_maxCompletionTokens_update,
      fld ''max_output_tokens'' (dec_ptr dec_int 0) rq_maxOutputTokens rq_maxOutputTokens_update,
      fld ''n_predict'' (dec_ptr dec_int 0) rq_nPredict rq_nPredict_update,
      fld ''temperature'' (dec_ptr dec_float []) rq_temperature rq_temperature_update,
      fld ''top_p'' (dec_ptr dec_float []) rq_topP rq_topP_update,
      fld ''top_k'' (dec_ptr dec_int 0) rq_topK rq_topK_update,
      fld ''frequency_penalty'' (dec_ptr dec_float []) rq_frequencyPenalty rq_frequencyPenalty_update,
      fld ''presence_penalty'' (dec_ptr dec_float []) rq_presencePenalty rq_presencePenalty_update,
      fld ''seed'' (dec_ptr dec_int 0) rq_seed rq_seed_update,
      fld ''n'' (dec_ptr dec_int 0) rq_choiceCount rq_choiceCount_update,
      fld ''stop'' dec_raw rq_stop rq_stop_update,
      fld ''response_format'' (dec_ptr dec_formatType \<lparr>ft_type = []\<rparr>) rq_responseFormat rq_responseFormat_update,
      fld ''text'' (dec_ptr dec_textFormat \<lparr>tf_format = None\<rparr>) rq_text rq_text_update]"

fun firstNonNil :: "'a option list \<Rightarrow> 'a option" where
  "firstNonNil [] = None"
| "firstNonNil (v # vs) = (case v of Some x \<Rightarrow> Some x | None \<Rightarrow> firstNonNil vs)"

definition outputType :: "bytes \<Rightarrow> bytes" where
  "outputType format =
     (if format = ''json_object'' \<or> format = ''json_schema'' \<or> format = ''json'' then ''json''
      else if format = ''text'' then ''text'' else [])"

definition maxStopSequences :: nat where
  "maxStopSequences = 8"

text \<open>The loop over the stop sequences, with its \<open>break\<close>.\<close>

fun take_sequences :: "bytes list \<Rightarrow> bytes list \<Rightarrow> bytes list" where
  "take_sequences [] sequences = sequences"
| "take_sequences (s # many) sequences =
     (if length sequences \<ge> maxStopSequences then sequences else take_sequences many (sequences @ [Truncate s]))"

definition stopSequences :: "bytes \<Rightarrow> bytes list" where
  "stopSequences raw0 =
     (let raw = trim_space raw0
      in if raw = [] \<or> raw = json_null then []
         else case unmarshal_string raw of
                Some single \<Rightarrow> if single = [] then [] else [Truncate single]
              | None \<Rightarrow>
                  (case unmarshal (dec_list dec_string []) raw [] of
                     None \<Rightarrow> []
                   | Some many \<Rightarrow> take_sequences many []))"

definition parameters :: "requestPayload \<Rightarrow> RequestParameters" where
  "parameters p =
     (let format0 = (case rq_responseFormat p of Some f \<Rightarrow> ft_type f | None \<Rightarrow> []);
          format = (if format0 = []
                    then (case rq_text p of
                            Some t \<Rightarrow> (case tf_format t of Some f \<Rightarrow> ft_type f | None \<Rightarrow> format0)
                          | None \<Rightarrow> format0)
                    else format0)
      in \<lparr>rp_maxTokens = firstNonNil [rq_maxTokens p, rq_maxCompletionTokens p, rq_maxOutputTokens p, rq_nPredict p],
          rp_temperature = rq_temperature p, rp_topP = rq_topP p, rp_topK = rq_topK p,
          rp_frequencyPenalty = rq_frequencyPenalty p, rp_presencePenalty = rq_presencePenalty p,
          rp_seed = rq_seed p, rp_choiceCount = rq_choiceCount p, rp_stopSequences = stopSequences (rq_stop p),
          rp_outputType = outputType format\<rparr>)"

subsection \<open>The token decoder\<close>

text \<open>
  \<open>json.Decoder.Token\<close> on a text that may break off anywhere: the state says which token may
  come next. A scalar is read by the scanner up to the first byte that does not belong to it.
\<close>

datatype token_state =
    TopValue | ArrayStart | ArrayElement | ArrayComma
  | ObjectStart | ObjectName | ObjectColon | ObjectMember | ObjectComma

datatype token = Delim char | TokString bytes | TokBool bool | TokNumber bytes | TokNull

record token_decoder =
  td_rest :: bytes
  td_state :: token_state
  td_stack :: "token_state list"

definition value_allowed :: "token_state \<Rightarrow> bool" where
  "value_allowed st \<longleftrightarrow> st \<in> {TopValue, ArrayStart, ArrayElement, ObjectMember}"

definition value_end :: "token_state \<Rightarrow> token_state" where
  "value_end st =
     (if st = ArrayStart \<or> st = ArrayElement then ArrayComma else if st = ObjectMember then ObjectComma else st)"

definition scalar_complete :: "json_state \<Rightarrow> bool" where
  "scalar_complete st \<longleftrightarrow> st \<in> {EndValue, Digits, Zero, Dot0, Exp0}"

fun read_scalar :: "scanner \<Rightarrow> bytes \<Rightarrow> (bytes \<times> bytes) option" where
  "read_scalar sc [] = (if scalar_complete (fst sc) then Some ([], []) else None)"
| "read_scalar sc (c # cs) =
     (let sc' = scan_step sc c
      in if scalar_complete (fst sc) \<and> (fst sc' = EndTop \<or> fst sc' = ScanError) then Some ([], c # cs)
         else if fst sc' = ScanError then None
         else map_option (\<lambda>(v, rest). (c # v, rest)) (read_scalar sc' cs))"

definition scalar_token :: "bytes \<Rightarrow> token option" where
  "scalar_token v =
     (if take 1 v = [quote] then Some (TokString (unquote (json_inner v)))
      else if v = ''true'' then Some (TokBool True)
      else if v = ''false'' then Some (TokBool False)
      else if v = json_null then Some TokNull
      else if parse_float_ok v then Some (TokNumber v) else None)"

definition pop_state :: "token_decoder \<Rightarrow> bytes \<Rightarrow> token_decoder" where
  "pop_state d rest =
     (case td_stack d of
        [] \<Rightarrow> d\<lparr>td_rest := rest, td_state := TopValue\<rparr>
      | st # sts \<Rightarrow> \<lparr>td_rest = rest, td_state = value_end st, td_stack = sts\<rparr>)"

lemma read_scalar_length: "read_scalar sc s = Some (v, rest) \<Longrightarrow> length v + length rest = length s"
proof (induction s arbitrary: sc v rest)
  case (Cons c s)
  from Cons.prems show ?case by (auto simp: Let_def dest!: Cons.IH split: if_splits)
qed (auto split: if_splits)

lemma dropWhile_tail: "dropWhile P xs = c # cs \<Longrightarrow> length cs < length xs"
  by (induction xs) (auto split: if_splits)

function next_token :: "token_decoder \<Rightarrow> (token \<times> token_decoder) option" where
  "next_token d =
     (case dropWhile json_space (td_rest d) of
        [] \<Rightarrow> None
      | c # cs \<Rightarrow>
          if c = CHR ''['' \<or> c = CHR ''{'' then
            if \<not> value_allowed (td_state d) then None
            else Some (Delim c, \<lparr>td_rest = cs, td_state = (if c = CHR ''['' then ArrayStart else ObjectStart),
                                 td_stack = td_state d # td_stack d\<rparr>)
          else if c = CHR '']'' then
            if td_state d = ArrayStart \<or> td_state d = ArrayComma then Some (Delim c, pop_state d cs) else None
          else if c = CHR ''}'' then
            if td_state d = ObjectStart \<or> td_state d = ObjectComma then Some (Delim c, pop_state d cs) else None
          else if c = CHR '':'' then
            if td_state d = ObjectColon then next_token (d\<lparr>td_rest := cs, td_state := ObjectMember\<rparr>) else None
          else if c = CHR '','' then
            if td_state d = ArrayComma then next_token (d\<lparr>td_rest := cs, td_state := ArrayElement\<rparr>)
            else if td_state d = ObjectComma then next_token (d\<lparr>td_rest := cs, td_state := ObjectName\<rparr>)
            else None
          else if c = quote \<and> (td_state d = ObjectStart \<or> td_state d = ObjectName) then
            (case read_scalar (BeginValue, []) (c # cs) of
               None \<Rightarrow> None
             | Some (v, rest) \<Rightarrow> Some (TokString (unquote (json_inner v)), d\<lparr>td_rest := rest, td_state := ObjectColon\<rparr>))
          else if \<not> value_allowed (td_state d) then None
          else (case read_scalar (BeginValue, []) (c # cs) of
                  None \<Rightarrow> None
                | Some (v, rest) \<Rightarrow>
                    map_option (\<lambda>t. (t, d\<lparr>td_rest := rest, td_state := value_end (td_state d)\<rparr>)) (scalar_token v)))"
  by pat_completeness auto
termination
  by (relation "measure (\<lambda>d. length (td_rest d))") (auto dest: dropWhile_tail)

declare next_token.simps [simp del]

lemma next_token_shorter: "next_token d = Some (t, d') \<Longrightarrow> length (td_rest d') < length (td_rest d)"
proof (induction d rule: next_token.induct)
  case (1 d)
  obtain c cs where s: "dropWhile json_space (td_rest d) = c # cs"
    using "1.prems" by (subst (asm) next_token.simps) (auto split: list.splits)
  have len: "length cs < length (td_rest d)" using dropWhile_tail [OF s] .
  have scalar: "length rest < length (td_rest d)" if "read_scalar (BeginValue, []) (c # cs) = Some (v, rest)" for v rest
  proof -
    have "v \<noteq> []" using that by (auto simp: Let_def scalar_complete_def split: if_splits)
    then have "0 < length v" by simp
    moreover have "length v + length rest = Suc (length cs)" using read_scalar_length [OF that] by simp
    ultimately show ?thesis using len by linarith
  qed
  have pop: "td_rest (pop_state d r) = r" for r by (simp add: pop_state_def split: list.split)
  show ?case
    using "1.prems" "1.IH"(1) [OF s] "1.IH"(2) [OF s] "1.IH"(3) [OF s] scalar len pop
    by (subst (asm) next_token.simps) (force simp: s split: if_splits option.splits dest: less_trans)
qed

subsection \<open>A body over the limit\<close>

text \<open>\<open>skipTruncatedValue\<close>: the decoder after the value, none when the text breaks off.\<close>

function skip_value :: "nat \<Rightarrow> token_decoder \<Rightarrow> token_decoder option" where
  "skip_value level d =
     (if level = 0 then Some d
      else case next_token d of
             None \<Rightarrow> None
           | Some (t, d') \<Rightarrow>
               (case t of
                  Delim c \<Rightarrow> skip_value (if c = CHR ''{'' \<or> c = CHR ''['' then level + 1 else level - 1) d'
                | _ \<Rightarrow> skip_value level d'))"
  by pat_completeness auto
termination
  by (relation "measure (\<lambda>(level, d). length (td_rest d))") (auto dest: next_token_shorter)

declare skip_value.simps [simp del]

lemma skip_value_length: "skip_value level d = Some d' \<Longrightarrow> length (td_rest d') \<le> length (td_rest d)"
proof (induction level d rule: skip_value.induct)
  case (1 level d)
  show ?case
  proof (cases "level = 0")
    case True
    with "1.prems" show ?thesis by (simp add: skip_value.simps [of 0 d])
  next
    case False
    then obtain t d1 where t: "next_token d = Some (t, d1)"
      using "1.prems" by (auto simp: skip_value.simps [of level d] split: option.splits)
    have "length (td_rest d') \<le> length (td_rest d1)"
      using "1.prems" False t "1.IH" [OF False t refl]
      by (simp add: skip_value.simps [of level d] split: token.splits)
    with next_token_shorter [OF t] show ?thesis by simp
  qed
qed

definition peek_field :: "bytes \<Rightarrow> token \<Rightarrow> genai_Request \<Rightarrow> genai_Request" where
  "peek_field name value req =
     (if name = ''model'' then
        (case value of
           TokString model \<Rightarrow> if model \<noteq> [] then req\<lparr>gr_model := model, gr_modelKnown := True\<rparr> else req
         | _ \<Rightarrow> req)
      else if name = ''stream'' then
        (case value of TokBool b \<Rightarrow> req\<lparr>gr_stream := b, gr_streamKnown := True\<rparr> | _ \<Rightarrow> req)
      else req)"

text \<open>The loop over the members of the object.\<close>

function peek_members :: "token_decoder \<Rightarrow> genai_Request \<Rightarrow> genai_Request" where
  "peek_members d req =
     (case next_token d of
        Some (TokString name, d1) \<Rightarrow>
          (case next_token d1 of
             None \<Rightarrow> req
           | Some (Delim c, d2) \<Rightarrow>
               (case skip_value 1 d2 of None \<Rightarrow> req | Some d3 \<Rightarrow> peek_members d3 req)
           | Some (value, d2) \<Rightarrow>
               let req1 = peek_field name value req
               in if gr_modelKnown req1 \<and> gr_streamKnown req1 then req1 else peek_members d2 req1)
      | _ \<Rightarrow> req)"
  by pat_completeness auto
termination
proof (relation "measure (\<lambda>(d, req). length (td_rest d))")
qed (auto dest!: next_token_shorter skip_value_length)

declare peek_members.simps [simp del]

definition peekTruncatedRequest :: "genai_Request \<Rightarrow> genai_Request" where
  "peekTruncatedRequest req =
     (case next_token \<lparr>td_rest = gr_body req, td_state = TopValue, td_stack = []\<rparr> of
        Some (t, d) \<Rightarrow> if t = Delim (CHR ''{'') then peek_members d req else req
      | None \<Rightarrow> req)"

subsection \<open>\<open>PeekRequest\<close>\<close>

text \<open>What upstream gets of the request: the body, and what the HTTP client reads about it.\<close>

record http_request =
  hr_body :: "(bytes \<times> go_error option) option"
  hr_contentLength :: int
  hr_transferEncoding :: "bytes list"
  hr_header :: http_header
  hr_getBody :: "bytes option"

text \<open>
  \<open>io.ReadAll(io.LimitReader(r.Body, n))\<close>: the bytes read, the error if it came before the
  limit, and the reader that is left.
\<close>

definition read_limited :: "nat \<Rightarrow> bytes \<times> go_error option \<Rightarrow> bytes \<times> go_error option \<times> (bytes \<times> go_error option)" where
  "read_limited n body =
     (take n (fst body), (if length (fst body) < n then snd body else None), (drop n (fst body), snd body))"

definition splicedBody :: "bytes \<Rightarrow> bytes \<times> go_error option \<Rightarrow> bytes \<times> go_error option" where
  "splicedBody head rest = (head @ fst rest, snd rest)"

definition header_del :: "bytes \<Rightarrow> http_header \<Rightarrow> http_header" where
  "header_del name h = filter (\<lambda>e. fst e \<noteq> name) h"

definition PeekRequest :: "http_request \<Rightarrow> nat \<Rightarrow> http_request \<times> genai_Request \<times> bool" where
  "PeekRequest r limit =
     (case hr_body r of
        None \<Rightarrow> (r, no_Request, False)
      | Some body \<Rightarrow>
          let (head, err, rest) = read_limited (limit + 1) body
          in if length head > limit \<or> err \<noteq> None then
               let req = no_Request\<lparr>gr_body := (if length head > limit then take limit head else head),
                                   gr_bodyTruncated := True\<rparr>
               in (r\<lparr>hr_body := Some (splicedBody head rest)\<rparr>, peekTruncatedRequest req, False)
             else
               let req = no_Request\<lparr>gr_body := head\<rparr>;
                   r1 = r\<lparr>hr_body := Some (head, None), hr_contentLength := int (length head), hr_transferEncoding := [],
                          hr_header := header_del ''Content-Length'' (hr_header r), hr_getBody := Some head\<rparr>
               in (case unmarshal dec_requestPayload head no_requestPayload of
                     None \<Rightarrow> (r1, req, False)
                   | Some p \<Rightarrow>
                       let req1 = (if rq_model p \<noteq> [] then req\<lparr>gr_model := rq_model p, gr_modelKnown := True\<rparr> else req);
                           req2 = (case rq_stream p of
                                     Some b \<Rightarrow> req1\<lparr>gr_stream := b, gr_streamKnown := True\<rparr>
                                   | None \<Rightarrow> req1\<lparr>gr_streamKnown := True\<rparr>)
                       in (r1, req2\<lparr>gr_parameters := parameters p\<rparr>, True)))"


subsection \<open>Properties\<close>

lemma peek_field_frame [simp]:
  "gr_body (peek_field name v req) = gr_body req" "gr_bodyTruncated (peek_field name v req) = gr_bodyTruncated req"
  by (simp_all add: peek_field_def split: token.split)

lemma peek_members_frame:
  "gr_body (peek_members d req) = gr_body req \<and> gr_bodyTruncated (peek_members d req) = gr_bodyTruncated req"
proof (induction d req rule: peek_members.induct)
  case (1 d req)
  then show ?case
    by (subst (1 2) peek_members.simps) (auto simp: Let_def split: option.split prod.split token.split)
qed

lemma peekTruncatedRequest_frame [simp]:
  "gr_body (peekTruncatedRequest req) = gr_body req"
  "gr_bodyTruncated (peekTruncatedRequest req) = gr_bodyTruncated req"
  using peek_members_frame by (auto simp: peekTruncatedRequest_def split: option.split prod.split)

text \<open>
  C2: looking into a request does not change it: whatever the body, however long, and whether
  its reader fails or not, upstream reads the same bytes and then the same end or error. What
  is recorded is the body up to the limit, marked as truncated exactly when it is longer or its
  reader failed, and then the request is forwarded as it was; otherwise its length is announced
  as what was read, and a retry sends the same bytes again.
\<close>

theorem peek_request_transparent:
  "let (r', req, ok) = PeekRequest r limit in
     hr_body r' = hr_body r \<and>
     (case hr_body r of
        None \<Rightarrow> r' = r \<and> gr_body req = []
      | Some (data, err) \<Rightarrow>
          gr_body req = take limit data \<and>
          (\<not> gr_bodyTruncated req \<longleftrightarrow> length data \<le> limit \<and> err = None) \<and>
          (if gr_bodyTruncated req then r' = r
           else gr_body req = data \<and> hr_contentLength r' = int (length data) \<and> hr_getBody r' = Some data))"
proof (cases "hr_body r")
  case None
  then show ?thesis by (simp add: PeekRequest_def no_Request_def)
next
  case (Some body)
  obtain data err where body: "body = (data, err)" by (cases body)
  show ?thesis
  proof (cases "length data > limit \<or> err \<noteq> None")
    case True
    have same: "r\<lparr>hr_body := Some (data, err)\<rparr> = r" using Some body by (cases r) simp
    show ?thesis
    proof (cases "length data > limit")
      case True
      then show ?thesis
        by (simp add: PeekRequest_def Some body read_limited_def splicedBody_def same min_def)
    next
      case False
      with True show ?thesis
        by (simp add: PeekRequest_def Some body read_limited_def splicedBody_def same)
    qed
  next
    case False
    then show ?thesis
      by (auto simp: PeekRequest_def Some body read_limited_def Let_def no_Request_def split: option.split)
  qed
qed

end
