(* ===== verification/Response_Parse.thy ===== *)
theory Response_Parse
  imports Request_Peek Stream_Safety
begin

text \<open>
  \<open>ParseResponse\<close> of \<open>internal/genai/genai.go\<close>: what the proxy reads from the body of a response,
  or from the last payload of a stream. A \<open>float64\<close> is the literal it was read from; a pair of a
  number and its \<open>Has\<close> flag is an option.
\<close>

record Timings =
  tm_promptMS :: "bytes option"
  tm_predictedMS :: "bytes option"
  tm_predictedPerSecond :: "bytes option"
  tm_cacheN :: "int option"

record genai_Response =
  gp_model :: bytes
  gp_id :: bytes
  gp_finishReasons :: "bytes list"
  gp_inputTokens :: "int option"
  gp_outputTokens :: "int option"
  gp_terminal :: bool
  gp_incomplete :: bool
  gp_failed :: bool
  gp_message :: bytes
  gp_timings :: "Timings option"

definition no_Response :: genai_Response where
  "no_Response =
     \<lparr>gp_model = [], gp_id = [], gp_finishReasons = [], gp_inputTokens = None, gp_outputTokens = None,
      gp_terminal = False, gp_incomplete = False, gp_failed = False, gp_message = [], gp_timings = None\<rparr>"

subsection \<open>The payload\<close>

record timingsPayload =
  tp_promptMS :: "bytes option"
  tp_predictedMS :: "bytes option"
  tp_predictedPerSecond :: "bytes option"
  tp_cacheN :: "int option"

definition no_timingsPayload :: timingsPayload where
  "no_timingsPayload =
     \<lparr>tp_promptMS = None, tp_predictedMS = None, tp_predictedPerSecond = None, tp_cacheN = None\<rparr>"

definition dec_timingsPayload :: "timingsPayload decoder" where
  "dec_timingsPayload = dec_struct
     [fld ''prompt_ms'' (dec_ptr dec_float []) tp_promptMS tp_promptMS_update,
      fld ''predicted_ms'' (dec_ptr dec_float []) tp_predictedMS tp_predictedMS_update,
      fld ''predicted_per_second'' (dec_ptr dec_float []) tp_predictedPerSecond tp_predictedPerSecond_update,
      fld ''cache_n'' (dec_ptr dec_int 0) tp_cacheN tp_cacheN_update]"

record usagePayload =
  up_promptTokens :: "int option"
  up_completionTokens :: "int option"
  up_inputTokens :: "int option"
  up_outputTokens :: "int option"
  up_timings :: "timingsPayload option"

definition no_usagePayload :: usagePayload where
  "no_usagePayload =
     \<lparr>up_promptTokens = None, up_completionTokens = None, up_inputTokens = None, up_outputTokens = None,
      up_timings = None\<rparr>"

definition dec_usagePayload :: "usagePayload decoder" where
  "dec_usagePayload = dec_struct
     [fld ''prompt_tokens'' (dec_ptr dec_int 0) up_promptTokens up_promptTokens_update,
      fld ''completion_tokens'' (dec_ptr dec_int 0) up_completionTokens up_completionTokens_update,
      fld ''input_tokens'' (dec_ptr dec_int 0) up_inputTokens up_inputTokens_update,
      fld ''output_tokens'' (dec_ptr dec_int 0) up_outputTokens up_outputTokens_update,
      fld ''timings'' (dec_ptr dec_timingsPayload no_timingsPayload) up_timings up_timings_update]"

record responseChoice =
  rc_finishReason :: "bytes option"
  rc_stopReason :: "bytes option"
  rc_nativeStopped :: "bool option"

definition no_responseChoice :: responseChoice where
  "no_responseChoice = \<lparr>rc_finishReason = None, rc_stopReason = None, rc_nativeStopped = None\<rparr>"

definition dec_responseChoice :: "responseChoice decoder" where
  "dec_responseChoice = dec_struct
     [fld ''finish_reason'' (dec_ptr dec_string []) rc_finishReason rc_finishReason_update,
      fld ''stop_reason'' (dec_ptr dec_string []) rc_stopReason rc_stopReason_update,
      fld ''stopped_eos'' (dec_ptr dec_bool False) rc_nativeStopped rc_nativeStopped_update]"

record nestedResponse =
  nr_model :: bytes
  nr_id :: bytes
  nr_status :: bytes
  nr_usage :: "usagePayload option"
  nr_error :: bytes

definition no_nestedResponse :: nestedResponse where
  "no_nestedResponse = \<lparr>nr_model = [], nr_id = [], nr_status = [], nr_usage = None, nr_error = []\<rparr>"

definition dec_nestedResponse :: "nestedResponse decoder" where
  "dec_nestedResponse = dec_struct
     [fld ''model'' dec_string nr_model nr_model_update,
      fld ''id'' dec_string nr_id nr_id_update,
      fld ''status'' dec_string nr_status nr_status_update,
      fld ''usage'' (dec_ptr dec_usagePayload no_usagePayload) nr_usage nr_usage_update,
      fld ''error'' dec_raw nr_error nr_error_update]"

record responsePayload =
  pp_type :: bytes
  pp_model :: bytes
  pp_id :: bytes
  pp_choices :: "responseChoice list"
  pp_stopType :: bytes
  pp_message :: bytes
  pp_code :: bytes
  pp_usage :: "usagePayload option"
  pp_timings :: "timingsPayload option"
  pp_stop :: "bool option"
  pp_error :: bytes
  pp_response :: "nestedResponse option"

definition no_responsePayload :: responsePayload where
  "no_responsePayload =
     \<lparr>pp_type = [], pp_model = [], pp_id = [], pp_choices = [], pp_stopType = [], pp_message = [], pp_code = [],
      pp_usage = None, pp_timings = None, pp_stop = None, pp_error = [], pp_response = None\<rparr>"

definition dec_responsePayload :: "responsePayload decoder" where
  "dec_responsePayload = dec_struct
     [fld ''type'' dec_string pp_type pp_type_update,
      fld ''model'' dec_string pp_model pp_model_update,
      fld ''id'' dec_string pp_id pp_id_update,
      fld ''choices'' (dec_list dec_responseChoice no_responseChoice) pp_choices pp_choices_update,
      fld ''stop_type'' dec_string pp_stopType pp_stopType_update,
      fld ''message'' dec_string pp_message pp_message_update,
      fld ''code'' dec_raw pp_code pp_code_update,
      fld ''usage'' (dec_ptr dec_usagePayload no_usagePayload) pp_usage pp_usage_update,
      fld ''timings'' (dec_ptr dec_timingsPayload no_timingsPayload) pp_timings pp_timings_update,
      fld ''stop'' (dec_ptr dec_bool False) pp_stop pp_stop_update,
      fld ''error'' dec_raw pp_error pp_error_update,
      fld ''response'' (dec_ptr dec_nestedResponse no_nestedResponse) pp_response pp_response_update]"

subsection \<open>\<open>ParseResponse\<close>\<close>

definition choice_reason :: "responseChoice \<Rightarrow> bytes" where
  "choice_reason choice =
     (case rc_finishReason choice of
        Some r \<Rightarrow> if r \<noteq> [] then r else (case rc_stopReason choice of Some r2 \<Rightarrow> r2 | None \<Rightarrow> [])
      | None \<Rightarrow> (case rc_stopReason choice of Some r2 \<Rightarrow> r2 | None \<Rightarrow> []))"

definition responseFinishReasons :: "responsePayload \<Rightarrow> bytes list" where
  "responseFinishReasons p =
     (let reasons = map Truncate (filter (\<lambda>r. r \<noteq> []) (map choice_reason (pp_choices p)))
      in if reasons \<noteq> [] then reasons
         else if pp_stopType p \<noteq> [] then [Truncate (pp_stopType p)] else [])"

text \<open>The statements of \<open>ParseResponse\<close> in their order, on the result so far.\<close>

definition parse_start :: "responsePayload \<Rightarrow> genai_Response" where
  "parse_start p =
     (let res = no_Response\<lparr>gp_model := pp_model p, gp_id := pp_id p, gp_finishReasons := responseFinishReasons p,
          gp_terminal := (pp_type p = ''response.completed'' \<or> pp_type p = ''response.failed'' \<or>
             pp_type p = ''response.incomplete'' \<or> pp_type p = ''error'' \<or> pp_stop p = Some True),
          gp_incomplete := (pp_type p = ''response.incomplete'')\<rparr>
      in if pp_error p \<noteq> [] \<and> pp_error p \<noteq> json_null
         then res\<lparr>gp_failed := True, gp_message := errorMessage (pp_error p), gp_terminal := True\<rparr> else res)"

definition parse_nested :: "responsePayload \<Rightarrow> genai_Response \<Rightarrow> genai_Response \<times> usagePayload option" where
  "parse_nested p res =
     (case pp_response p of
        None \<Rightarrow> (res, pp_usage p)
      | Some r \<Rightarrow>
          let res1 = (if gp_model res = [] then res\<lparr>gp_model := nr_model r\<rparr> else res);
              res2 = (if gp_id res1 = [] then res1\<lparr>gp_id := nr_id r\<rparr> else res1);
              res3 = (if gp_finishReasons res2 = [] \<and> nr_status r \<noteq> []
                      then res2\<lparr>gp_finishReasons := [Truncate (nr_status r)]\<rparr> else res2);
              usage = (if pp_usage p = None then nr_usage r else pp_usage p)
          in (if raw_present (nr_error r)
              then res3\<lparr>gp_failed := True, gp_message := errorMessage (nr_error r), gp_terminal := True\<rparr> else res3,
              usage))"

definition parse_failure :: "responsePayload \<Rightarrow> genai_Response \<Rightarrow> genai_Response" where
  "parse_failure p res =
     (let res1 = (if pp_type p = ''response.failed'' then
                    (let r = res\<lparr>gp_failed := True\<rparr>
                     in if gp_message r = [] then r\<lparr>gp_message := generic_error\<rparr> else r)
                  else res)
      in if pp_type p = ''error'' then
           (let r1 = res1\<lparr>gp_failed := True\<rparr>;
                r2 = (if pp_message p \<noteq> [] then r1\<lparr>gp_message := Truncate (pp_message p)\<rparr> else r1);
                r3 = (if gp_message r2 = [] then r2\<lparr>gp_message := rawErrorCode (pp_code p)\<rparr> else r2)
            in if gp_message r3 = [] then r3\<lparr>gp_message := generic_error\<rparr> else r3)
         else res1)"

definition parse_usage :: "usagePayload option \<Rightarrow> genai_Response \<Rightarrow> genai_Response" where
  "parse_usage usage res =
     (case usage of
        None \<Rightarrow> res
      | Some u \<Rightarrow>
          let res1 = (case firstNonNil [up_promptTokens u, up_inputTokens u] of
                        Some n \<Rightarrow> res\<lparr>gp_inputTokens := Some n\<rparr> | None \<Rightarrow> res)
          in (case firstNonNil [up_completionTokens u, up_outputTokens u] of
                Some n \<Rightarrow> res1\<lparr>gp_outputTokens := Some n\<rparr> | None \<Rightarrow> res1))"

definition parse_timings :: "responsePayload \<Rightarrow> usagePayload option \<Rightarrow> genai_Response \<Rightarrow> genai_Response" where
  "parse_timings p usage res =
     (let tp = (case pp_timings p of
                  Some t \<Rightarrow> Some t
                | None \<Rightarrow> (case usage of Some u \<Rightarrow> up_timings u | None \<Rightarrow> None))
      in case tp of
           None \<Rightarrow> res
         | Some t \<Rightarrow>
             if tp_promptMS t \<noteq> None \<or> tp_predictedMS t \<noteq> None \<or> tp_predictedPerSecond t \<noteq> None \<or> tp_cacheN t \<noteq> None
             then res\<lparr>gp_timings := Some \<lparr>tm_promptMS = tp_promptMS t, tm_predictedMS = tp_predictedMS t,
                     tm_predictedPerSecond = tp_predictedPerSecond t, tm_cacheN = tp_cacheN t\<rparr>\<rparr>
             else res)"

definition ParseResponse :: "bytes \<Rightarrow> genai_Response option" where
  "ParseResponse body =
     (case unmarshal dec_responsePayload body no_responsePayload of
        None \<Rightarrow> None
      | Some p \<Rightarrow>
          let (res, usage) = parse_nested p (parse_start p)
          in Some (parse_timings p usage (parse_usage usage (parse_failure p res))))"

subsection \<open>Properties\<close>

text \<open>The later statements leave the status of the response alone.\<close>

lemma parse_usage_frame [frame_simps]:
  "gp_terminal (parse_usage u res) = gp_terminal res" "gp_incomplete (parse_usage u res) = gp_incomplete res"
  "gp_failed (parse_usage u res) = gp_failed res" "gp_message (parse_usage u res) = gp_message res"
  "gp_finishReasons (parse_usage u res) = gp_finishReasons res"
  by (simp_all add: parse_usage_def Let_def split: option.split)

lemma parse_timings_frame [frame_simps]:
  "gp_terminal (parse_timings p u res) = gp_terminal res" "gp_incomplete (parse_timings p u res) = gp_incomplete res"
  "gp_failed (parse_timings p u res) = gp_failed res" "gp_message (parse_timings p u res) = gp_message res"
  "gp_finishReasons (parse_timings p u res) = gp_finishReasons res"
  by (simp_all add: parse_timings_def Let_def split: option.split)


lemma parse_failure_frame [frame_simps]:
  "gp_terminal (parse_failure p res) = gp_terminal res" "gp_incomplete (parse_failure p res) = gp_incomplete res"
  "gp_finishReasons (parse_failure p res) = gp_finishReasons res"
  by (simp_all add: parse_failure_def Let_def)

text \<open>What every response read from a body satisfies, after each part of the function.\<close>

definition response_ok :: "genai_Response \<Rightarrow> bool" where
  "response_ok res \<longleftrightarrow>
     (gp_failed res \<longrightarrow> gp_terminal res) \<and> (gp_incomplete res \<longrightarrow> gp_terminal res) \<and>
     (gp_message res \<noteq> [] \<longrightarrow> gp_failed res) \<and> message_ok (gp_message res) \<and>
     (\<forall>r \<in> set (gp_finishReasons res). r \<noteq> [] \<and> message_ok r)"

lemma finish_reasons_ok: "r \<in> set (responseFinishReasons p) \<Longrightarrow> r \<noteq> [] \<and> message_ok r"
  by (auto simp: responseFinishReasons_def Let_def Truncate_eq_Nil message_ok_Truncate split: if_splits)

lemma parse_start_ok: "response_ok (parse_start p)"
  by (auto simp: parse_start_def response_ok_def no_Response_def Let_def finish_reasons_ok message_ok_errorMessage)

lemma parse_nested_ok: "response_ok res \<Longrightarrow> response_ok (fst (parse_nested p res))"
  by (auto simp: parse_nested_def response_ok_def Let_def Truncate_eq_Nil message_ok_Truncate message_ok_errorMessage
      split: option.split)

lemma parse_nested_terminal:
  "gp_terminal res \<Longrightarrow> gp_terminal (fst (parse_nested p res))" "gp_incomplete (fst (parse_nested p res)) = gp_incomplete res"
  by (simp_all add: parse_nested_def Let_def split: option.split)

lemma parse_failure_ok:
  assumes "response_ok res" and "pp_type p = ''response.failed'' \<or> pp_type p = ''error'' \<Longrightarrow> gp_terminal res"
  shows "response_ok (parse_failure p res)"
  using assms
  by (auto simp: parse_failure_def response_ok_def Let_def message_ok_Truncate message_ok_rawErrorCode)

lemma parse_later_ok: "response_ok res \<Longrightarrow> response_ok (parse_timings p u (parse_usage u res))"
  by (simp add: response_ok_def frame_simps)

text \<open>
  What the proxy reads from a response is consistent: a failed or incomplete response has
  ended, only a failed one has an error message, and the message and the finish reasons are
  valid UTF-8 of at most 259 bytes. A response of type \<open>response.failed\<close> or \<open>error\<close> is failed, with
  a message, and one with \<open>stop\<close> set has ended.
\<close>

lemma parse_response_consistent:
  assumes "unmarshal dec_responsePayload body no_responsePayload = Some p" and "ParseResponse body = Some res"
  shows "(gp_failed res \<or> gp_incomplete res \<longrightarrow> gp_terminal res) \<and> (gp_message res \<noteq> [] \<longrightarrow> gp_failed res) \<and>
     length (gp_message res) \<le> 259 \<and> valid_utf8 (gp_message res) \<and>
     list_all (\<lambda>r. r \<noteq> [] \<and> length r \<le> 259 \<and> valid_utf8 r) (gp_finishReasons res) \<and>
     (pp_type p \<in> {''response.failed'', ''error''} \<longrightarrow> gp_failed res \<and> gp_message res \<noteq> []) \<and>
     (pp_stop p = Some True \<longrightarrow> gp_terminal res)"
proof -
  obtain r usage where n: "parse_nested p (parse_start p) = (r, usage)" by (cases "parse_nested p (parse_start p)")
  have res: "res = parse_timings p usage (parse_usage usage (parse_failure p r))"
    using assms n by (simp add: ParseResponse_def)
  have ended: "gp_terminal r" if "pp_type p \<in> {''response.failed'', ''error''} \<or> pp_stop p = Some True"
    using parse_nested_terminal(1) [of "parse_start p" p] that n by (auto simp: parse_start_def no_Response_def Let_def)
  have "response_ok r" using parse_nested_ok [OF parse_start_ok, of p p] n by simp
  then have "response_ok (parse_failure p r)" by (rule parse_failure_ok) (use ended in auto)
  then have ok: "response_ok res" unfolding res by (rule parse_later_ok)
  moreover have "gp_failed res \<and> gp_message res \<noteq> []" if "pp_type p \<in> {''response.failed'', ''error''}"
    using that by (auto simp: res frame_simps parse_failure_def Let_def generic_error_def)
  moreover have "gp_terminal res" if "pp_stop p = Some True" using ended that by (simp add: res frame_simps)
  ultimately show ?thesis by (auto simp: response_ok_def message_ok_def bytes_ok_def list_all_iff)
qed

lemma parse_response_consistent_witness:
  "let res = no_Response\<lparr>gp_terminal := True, gp_failed := True, gp_message := generic_error\<rparr>
   in (gp_failed res \<and> gp_message res \<noteq> []) \<and> gp_terminal res \<and> length (gp_message res) \<le> 259 \<and> valid_utf8 (gp_message res)"
proof -
  let ?p = "no_responsePayload\<lparr>pp_type := ''error''\<rparr>"
  let ?body = "[CHR ''{'', quote] @ ''type'' @ [quote, CHR '':'', quote] @ ''error'' @ [quote, CHR ''}'']"
  let ?res = "no_Response\<lparr>gp_terminal := True, gp_failed := True, gp_message := generic_error\<rparr>"
  have "unmarshal dec_responsePayload ?body no_responsePayload = Some ?p" by code_simp
  moreover have "ParseResponse ?body = Some ?res" by code_simp
  ultimately have "(gp_failed ?res \<or> gp_incomplete ?res \<longrightarrow> gp_terminal ?res) \<and> (gp_message ?res \<noteq> [] \<longrightarrow> gp_failed ?res) \<and>
     length (gp_message ?res) \<le> 259 \<and> valid_utf8 (gp_message ?res) \<and>
     list_all (\<lambda>r. r \<noteq> [] \<and> length r \<le> 259 \<and> valid_utf8 r) (gp_finishReasons ?res) \<and>
     (pp_type ?p \<in> {''response.failed'', ''error''} \<longrightarrow> gp_failed ?res \<and> gp_message ?res \<noteq> []) \<and>
     (pp_stop ?p = Some True \<longrightarrow> gp_terminal ?res)"
    by (rule parse_response_consistent)
  then show ?thesis by (simp add: Let_def no_responsePayload_def)
qed

end
