(* ===== verification/Request_State.thy ===== *)
theory Request_State
  imports Trace_Attributes Response_Parse Body_Observer
begin

text \<open>
  The state of one instrumented request (\<open>internal/proxy/state.go\<close>, \<open>internal/proxy/outcome.go\<close>):
  what was seen of the response, the spans emitted while it streams, and the attributes, the
  outcome and the end of its server span.

  The span of the request and the spans below it are calls on the tracer \<open>rs_tracer\<close>; the mutex
  makes each method one step. What \<open>end\<close> reads from elsewhere is \<open>request_env\<close>: the cause the
  request context was cancelled with, the response writer's error and its snapshot; a function
  that is nil reads as no error and an empty snapshot. \<open>IsRecording\<close> is whether the span was
  sampled and has not been ended. The kind of a span is not recorded.
\<close>

subsection \<open>Outcomes\<close>

datatype Outcome =
    OutcomeSuccess | OutcomeUpstreamError | OutcomeIncomplete | OutcomeClientCancel | OutcomeShutdown
  | OutcomeObservationLimited | OutcomeInternalError

fun outcome_text :: "Outcome \<Rightarrow> bytes" where
  "outcome_text OutcomeSuccess = ''success''"
| "outcome_text OutcomeUpstreamError = ''upstream_error''"
| "outcome_text OutcomeIncomplete = ''incomplete''"
| "outcome_text OutcomeClientCancel = ''client_cancel''"
| "outcome_text OutcomeShutdown = ''shutdown''"
| "outcome_text OutcomeObservationLimited = ''observation_limited''"
| "outcome_text OutcomeInternalError = ''internal_error''"

definition outcome_failed :: "Outcome \<Rightarrow> bool" where
  "outcome_failed out \<longleftrightarrow> out = OutcomeUpstreamError \<or> out = OutcomeIncomplete \<or> out = OutcomeInternalError"

subsection \<open>State\<close>

record requestState =
  rs_span :: nat
  rs_tracer :: tracer
  rs_sampled :: bool
  rs_spanEnded :: bool
  rs_start :: go_time
  rs_dims :: "attribute list"
  rs_inferenceAttrs :: "attribute list"
  rs_inferenceSpanName :: bytes
  rs_requestHeader :: http_header
  rs_requestBody :: bytes
  rs_requestBodyTruncated :: bool
  rs_ended :: bool
  rs_statusCode :: int
  rs_serverSentEvents :: bool
  rs_encoding :: bytes
  rs_body :: "bodyResult option"
  rs_panicRecorded :: bool
  rs_panicErr :: "go_error option"
  rs_upstreamErr :: "go_error option"
  rs_timeToFirstTokenOnce :: bool

record request_env =
  re_cause :: "go_error option"
  re_writeErr :: "go_error option"
  re_snapshot :: responseSnapshot

definition is_recording :: "requestState \<Rightarrow> bool" where
  "is_recording s \<longleftrightarrow> rs_sampled s \<and> \<not> rs_spanEnded s"

definition on_tracer :: "requestState \<Rightarrow> span_call \<Rightarrow> requestState" where
  "on_tracer s c = s\<lparr>rs_tracer := trace_call (rs_tracer s) c\<rparr>"

text \<open>\<open>s.tracer.Start(s.ctx, ...)\<close>: a child of the request's span.\<close>

definition start_child :: "requestState \<Rightarrow> bytes \<Rightarrow> go_time \<Rightarrow> attribute list \<Rightarrow> requestState \<times> nat" where
  "start_child s name start attrs =
     (let (t, i) = start_span (rs_tracer s) name (ChildOf (rs_span s)) start attrs
      in (s\<lparr>rs_tracer := t\<rparr>, i))"

definition attr_if :: "bool \<Rightarrow> attribute \<Rightarrow> attribute list" where
  "attr_if b a = (if b then [a] else [])"

definition responseStarted :: "requestState \<Rightarrow> int \<Rightarrow> bool \<Rightarrow> bytes \<Rightarrow> requestState" where
  "responseStarted s statusCode serverSentEvents encoding =
     s\<lparr>rs_statusCode := statusCode, rs_serverSentEvents := serverSentEvents, rs_encoding := encoding\<rparr>"

definition bodyDone :: "requestState \<Rightarrow> bodyResult \<Rightarrow> requestState" where
  "bodyDone s res = s\<lparr>rs_body := Some res\<rparr>"

definition recordSpanError :: "requestState \<Rightarrow> nat \<Rightarrow> go_error option \<Rightarrow> requestState" where
  "recordSpanError s span err =
     (case err of None \<Rightarrow> s | Some e \<Rightarrow> on_tracer s (RecordError span (Truncate (err_text e))))"

text \<open>The value of a panic: an error, a string, or anything else.\<close>

datatype panic_value = PanicError go_error | PanicString bytes | PanicOther

fun toString :: "panic_value \<Rightarrow> bytes" where
  "toString (PanicString s) = s"
| "toString (PanicError e) = err_text e"
| "toString PanicOther = ''non-error panic''"

definition recordPanic :: "requestState \<Rightarrow> panic_value \<Rightarrow> requestState" where
  "recordPanic s p =
     (let err = (case p of PanicError e \<Rightarrow> e | _ \<Rightarrow> GoError [] (Truncate (toString p)))
      in if (case p of PanicError e \<Rightarrow> errors_Is (Some e) ErrAbortHandler | _ \<Rightarrow> False) then s
         else recordSpanError (s\<lparr>rs_panicRecorded := True, rs_panicErr := Some err\<rparr>) (rs_span s) (Some err))"

definition recordLocalStatus :: "requestState \<Rightarrow> int \<Rightarrow> requestState" where
  "recordLocalStatus s statusCode = (if rs_statusCode s = 0 then s\<lparr>rs_statusCode := statusCode\<rparr> else s)"

definition recordUpstreamFailure :: "requestState \<Rightarrow> int \<Rightarrow> go_error option \<Rightarrow> requestState" where
  "recordUpstreamFailure s statusCode err =
     recordSpanError (s\<lparr>rs_statusCode := statusCode, rs_upstreamErr := err\<rparr>) (rs_span s) err"

subsection \<open>The outcome\<close>

definition hasSuccessfulHTTPStatus :: "requestState \<Rightarrow> bool" where
  "hasSuccessfulHTTPStatus s \<longleftrightarrow> rs_statusCode s \<ge> 200 \<and> rs_statusCode s < 300"

definition responseTerminated :: "bodyResult \<Rightarrow> genai_Response option \<Rightarrow> bool" where
  "responseTerminated res parsed \<longleftrightarrow>
     br_sawDone res \<or> (case parsed of Some p \<Rightarrow> gp_terminal p | None \<Rightarrow> False)"

definition cancel_error :: "go_error option \<Rightarrow> bool" where
  "cancel_error err \<longleftrightarrow> errors_Is err ErrCanceled \<or> errors_Is err ErrDeadlineExceeded"

definition request_outcome :: "requestState \<Rightarrow> request_env \<Rightarrow> bodyResult \<Rightarrow> genai_Response option \<Rightarrow> Outcome" where
  "request_outcome s env res parsed =
     (let cause = re_cause env;
          cancelled = (cause \<noteq> None \<or> cancel_error (br_err res) \<or> re_writeErr env \<noteq> None)
      in if rs_panicRecorded s then OutcomeInternalError
         else if errors_Is cause ErrForcedClose then OutcomeShutdown
         else if cause \<noteq> None then OutcomeClientCancel
         else if rs_upstreamErr s \<noteq> None then OutcomeUpstreamError
         else if br_err res \<noteq> None \<and> \<not> cancel_error (br_err res) then OutcomeUpstreamError
         else if rs_statusCode s \<ge> 400 then OutcomeUpstreamError
         else if (case parsed of Some p \<Rightarrow> gp_failed p | None \<Rightarrow> False) then OutcomeUpstreamError
         else if (case parsed of Some p \<Rightarrow> gp_incomplete p | None \<Rightarrow> False) then OutcomeIncomplete
         else if cancelled then OutcomeClientCancel
         else if rs_encoding s \<noteq> [] \<or> br_truncated res \<or> br_streamLimited res \<or> br_dropped res > 0
         then OutcomeObservationLimited
         else if rs_serverSentEvents s \<and> hasSuccessfulHTTPStatus s \<and> \<not> responseTerminated res parsed
         then OutcomeIncomplete
         else OutcomeSuccess)"

definition phaseAttrs :: "requestState \<Rightarrow> Outcome \<Rightarrow> attribute list" where
  "phaseAttrs s out =
     rs_dims s @ attr_if (rs_statusCode s \<noteq> 0) (AttrStatusCode, IntVal (rs_statusCode s)) @
     [(AttrOutcome, StrVal (outcome_text out))]"

definition errorType :: "requestState \<Rightarrow> Outcome \<Rightarrow> bytes" where
  "errorType s out =
     (if out = OutcomeInternalError then ''panic''
      else if rs_statusCode s \<ge> 400 then itoa (rs_statusCode s)
      else outcome_text out)"

definition request_errorMessage ::
    "requestState \<Rightarrow> genai_Response option \<Rightarrow> Outcome \<Rightarrow> bodyResult \<Rightarrow> bytes" where
  "request_errorMessage s parsed out res =
     (case rs_panicErr s of
        Some e \<Rightarrow> Truncate (''handler panic: '' @ err_text e)
      | None \<Rightarrow>
          (case rs_upstreamErr s of
             Some e \<Rightarrow> Truncate (err_text e)
           | None \<Rightarrow>
               if (case parsed of Some p \<Rightarrow> gp_failed p \<and> gp_message p \<noteq> [] | None \<Rightarrow> False)
               then gp_message (the parsed)
               else (case br_err res of
                       Some e \<Rightarrow> Truncate (''upstream response body: '' @ err_text e)
                     | None \<Rightarrow> outcome_text out)))"

fun add_reasons :: "bytes list \<Rightarrow> bytes list \<Rightarrow> bytes list" where
  "add_reasons reasons [] = reasons"
| "add_reasons reasons (r # rs) = add_reasons (if r = [] \<or> r \<in> set reasons then reasons else reasons @ [r]) rs"

definition request_finishReasons :: "bodyResult \<Rightarrow> genai_Response option \<Rightarrow> bytes list" where
  "request_finishReasons res parsed =
     (let reasons = add_reasons [] (map so_finishReason (br_streamOutputs res))
      in case parsed of Some p \<Rightarrow> add_reasons reasons (gp_finishReasons p) | None \<Rightarrow> reasons)"

subsection \<open>Spans while the response streams\<close>

definition recordTimeToFirstToken :: "requestState \<Rightarrow> go_time \<Rightarrow> requestState" where
  "recordTimeToFirstToken s at =
     (if rs_timeToFirstTokenOnce s then s
      else
        let s1 = s\<lparr>rs_timeToFirstTokenOnce := True\<rparr>
        in if \<not> hasSuccessfulHTTPStatus s1 then s1
           else
             let (s2, span) = start_child s1 SpanTimeToFirstToken (rs_start s1) (phaseAttrs s1 OutcomeSuccess)
             in on_tracer s2 (EndSpan span (Some at)))"

definition streamOutputOutcome :: "requestState \<Rightarrow> StreamOutput \<Rightarrow> Outcome \<Rightarrow> Outcome" where
  "streamOutputOutcome s output fallback =
     (if rs_statusCode s \<ge> 400 \<or> so_failed output then OutcomeUpstreamError
      else if so_protocolIncomplete output then OutcomeIncomplete
      else if so_observationLimited output then OutcomeObservationLimited
      else if \<not> so_complete output \<and> fallback = OutcomeSuccess then OutcomeIncomplete
      else if \<not> so_complete output then fallback
      else OutcomeSuccess)"

definition output_fields :: "StreamOutput \<Rightarrow> attribute list" where
  "output_fields output =
     attr_if (so_hasChoiceIndex output) (AttrChoiceIndex, IntVal (so_choiceIndex output)) @
     attr_if (so_hasOutputIndex output) (AttrOutputIndex, IntVal (so_outputIndex output)) @
     attr_if (so_hasContentIndex output) (AttrContentIndex, IntVal (so_contentIndex output)) @
     attr_if (so_hasToolCallIndex output) (AttrToolCallIndex, IntVal (so_toolCallIndex output)) @
     attr_if (so_toolCallID output \<noteq> []) (AttrToolCallID, StrVal (so_toolCallID output)) @
     attr_if (so_itemID output \<noteq> []) (AttrOutputItemID, StrVal (so_itemID output)) @
     attr_if (so_reasoning output \<noteq> []) (AttrResponseBodyReasoningContent, StrVal (so_reasoning output)) @
     attr_if (so_content output \<noteq> []) (AttrResponseBodyContent, StrVal (so_content output)) @
     attr_if (so_refusal output \<noteq> []) (AttrResponseBodyRefusal, StrVal (so_refusal output)) @
     attr_if (so_toolType output \<noteq> []) (AttrResponseBodyType, StrVal (so_toolType output)) @
     attr_if (so_name output \<noteq> []) (AttrResponseBodyName, StrVal (so_name output)) @
     attr_if (so_arguments output \<noteq> []) (AttrResponseBodyArguments, StrVal (so_arguments output)) @
     attr_if (so_finishReason output \<noteq> []) (AttrResponseBodyFinishReason, StrVal (so_finishReason output)) @
     attr_if (so_truncated output) (AttrTraceResponseBodyTruncated, BoolVal True) @
     attr_if (\<not> so_complete output) (AttrResponseIncomplete, BoolVal True) @
     attr_if (so_failed output \<and> so_errorMessage output \<noteq> []) (AttrUpstreamError, StrVal (so_errorMessage output))"

definition output_attrs :: "requestState \<Rightarrow> StreamOutput \<Rightarrow> Outcome \<Rightarrow> attribute list" where
  "output_attrs s output out =
     phaseAttrs s out @ output_fields output @ attr_if (outcome_failed out) (AttrErrorType, StrVal (errorType s out))"

definition output_span_name :: "StreamOutputKind \<Rightarrow> bytes" where
  "output_span_name kind =
     (case kind of StreamOutputReasoning \<Rightarrow> SpanReasoning | StreamOutputToolCall \<Rightarrow> SpanToolCall | _ \<Rightarrow> SpanResponse)"

text \<open>Start and end of the span of an output, the zero time being 0.\<close>

definition output_times :: "StreamOutput \<Rightarrow> go_time \<times> go_time" where
  "output_times output =
     (let start = (if so_start output = 0 then so_end output else so_start output);
          end = (if so_end output = 0 \<or> so_end output < start then start else so_end output)
      in (start, end))"

definition emitStreamOutput :: "requestState \<Rightarrow> StreamOutput \<Rightarrow> Outcome \<Rightarrow> requestState" where
  "emitStreamOutput s output out =
     (if \<not> is_recording s then s
      else
        let (start, end) = output_times output;
            (s1, span) = start_child s (output_span_name (so_kind output)) start (output_attrs s output out);
            s2 = (if outcome_failed out then
                    on_tracer s1 (SetStatusError span
                      (if so_errorMessage output \<noteq> [] then so_errorMessage output else outcome_text out))
                  else s1)
        in on_tracer s2 (EndSpan span (Some end)))"

definition recordStreamOutput :: "requestState \<Rightarrow> StreamOutput \<Rightarrow> requestState" where
  "recordStreamOutput s output =
     (if \<not> is_recording s then s
      else if rs_ended s then s
      else emitStreamOutput s output (streamOutputOutcome s output OutcomeSuccess))"

subsection \<open>The end of the request\<close>

definition applyStatus :: "requestState \<Rightarrow> nat \<Rightarrow> Outcome \<Rightarrow> bodyResult \<Rightarrow> requestState" where
  "applyStatus s span out res =
     (if \<not> outcome_failed out then s
      else
        let s1 = on_tracer s (SetAttributes span [(AttrErrorType, StrVal (outcome_text out))]);
            s2 = (if br_err res \<noteq> None then recordSpanError s1 span (br_err res) else s1)
        in on_tracer s2 (SetStatusError span (outcome_text out)))"

definition emitPhaseSpans :: "requestState \<Rightarrow> bodyResult \<Rightarrow> Outcome \<Rightarrow> requestState" where
  "emitPhaseSpans s res out =
     (if br_firstByte res = 0 \<or> br_firstToken res = 0 then s
      else if \<not> rs_serverSentEvents s \<or> \<not> hasSuccessfulHTTPStatus s then s
      else
        let (s1, span) = start_child s SpanGeneration (br_firstToken res)
              (phaseAttrs s out @ [(AttrServerSentEventsChunkCount, IntVal (int (br_chunks res)))]);
            s2 = applyStatus s1 span out res
        in on_tracer s2 (EndSpan span (Some (br_lastByte res))))"

definition parsed_attrs :: "genai_Response \<Rightarrow> attribute list" where
  "parsed_attrs p =
     (let model = responseModelIdentifier (gp_model p)
      in attr_if (model \<noteq> []) (AttrResponseModel, StrVal model)) @
     attr_if (gp_id p \<noteq> []) (AttrResponseID, StrVal (Truncate (gp_id p))) @
     (case gp_inputTokens p of Some n \<Rightarrow> [(AttrInputTokens, IntVal n)] | None \<Rightarrow> []) @
     (case gp_outputTokens p of Some n \<Rightarrow> [(AttrOutputTokens, IntVal n)] | None \<Rightarrow> []) @
     (case gp_timings p of
        None \<Rightarrow> []
      | Some t \<Rightarrow>
          (case tm_promptMS t of Some x \<Rightarrow> [(AttrTimingsPromptMS, FloatVal x)] | None \<Rightarrow> []) @
          (case tm_predictedMS t of Some x \<Rightarrow> [(AttrTimingsPredictedMS, FloatVal x)] | None \<Rightarrow> []) @
          (case tm_predictedPerSecond t of Some x \<Rightarrow> [(AttrTimingsPredictedPerSecond, FloatVal x)] | None \<Rightarrow> []) @
          (case tm_cacheN t of Some n \<Rightarrow> [(AttrTimingsCacheN, IntVal n)] | None \<Rightarrow> []))"

definition outcome_attrs :: "Outcome \<Rightarrow> genai_Response option \<Rightarrow> attribute list" where
  "outcome_attrs out parsed =
     (case out of
        OutcomeIncomplete \<Rightarrow> [(AttrResponseIncomplete, BoolVal True)]
      | OutcomeClientCancel \<Rightarrow> [(AttrClientDisconnected, BoolVal True)]
      | OutcomeShutdown \<Rightarrow> [(AttrShutdownInterrupted, BoolVal True)]
      | OutcomeUpstreamError \<Rightarrow>
          (case parsed of
             Some p \<Rightarrow> attr_if (gp_failed p) (AttrUpstreamError, StrVal (gp_message p))
           | None \<Rightarrow> [])
      | _ \<Rightarrow> [])"

definition setServerAttributes :: "requestState \<Rightarrow> bodyResult \<Rightarrow> genai_Response option \<Rightarrow> Outcome \<Rightarrow> requestState" where
  "setServerAttributes s res parsed out =
     (let attrs1 =
            [(AttrOutcome, StrVal (outcome_text out))] @
            attr_if (rs_statusCode s \<noteq> 0) (AttrStatusCode, IntVal (rs_statusCode s)) @
            (if rs_serverSentEvents s then
               [(AttrServerSentEventsChunkCount, IntVal (int (br_chunks res)))] @
               attr_if (br_dropped res > 0) (AttrServerSentEventsDroppedLineCount, IntVal (int (br_dropped res)))
             else []) @
            attr_if (br_truncated res \<or> br_streamLimited res \<or> br_dropped res > 0) (AttrResponseBodyTruncated, BoolVal True) @
            attr_if (rs_encoding s \<noteq> []) (AttrResponseEncoding, StrVal (rs_encoding s)) @
            outcome_attrs out parsed @
            attr_if (outcome_failed out) (AttrErrorType, StrVal (errorType s out));
          s1 = (if outcome_failed out then
                  on_tracer (if br_err res \<noteq> None then recordSpanError s (rs_span s) (br_err res) else s)
                    (SetStatusError (rs_span s) (request_errorMessage s parsed out res))
                else s);
          reasons = request_finishReasons res parsed;
          attrs2 = attrs1 @ attr_if (reasons \<noteq> []) (AttrResponseFinishReasons, StrsVal reasons) @
            (case parsed of Some p \<Rightarrow> parsed_attrs p | None \<Rightarrow> [])
      in on_tracer s1 (SetAttributes (rs_span s) attrs2))"

definition exchange_attrs :: "requestState \<Rightarrow> responseSnapshot \<Rightarrow> attribute list" where
  "exchange_attrs s response =
     (let body_truncated = attr_if (rp_bodyTruncated response) (AttrTraceResponseBodyTruncated, BoolVal True);
          (requestHeaders, requestHeadersLimited) = requestHeaderAttributes (rs_requestHeader s);
          (responseHeaders, responseHeadersLimited) = responseHeaderAttributes (rp_header response)
      in traceBodyAttributes AttrRequestBody AttrTraceRequestBodySplitLimited (rs_requestBody s) (rs_requestBodyTruncated s) @
         attr_if (rs_requestBodyTruncated s) (AttrTraceRequestBodyTruncated, BoolVal True) @
         (if rs_encoding s \<noteq> [] then
            [(AttrResponseBody, StrVal (traceBody (rp_body response)))] @ body_truncated
          else if \<not> rs_serverSentEvents s then
            traceBodyAttributes AttrResponseBody AttrTraceResponseBodySplitLimited (rp_body response)
              (rp_bodyTruncated response) @ body_truncated
          else []) @
         requestHeaders @ attr_if requestHeadersLimited (AttrTraceRequestHeaderLimited, BoolVal True) @
         responseHeaders @ attr_if responseHeadersLimited (AttrTraceResponseHeaderLimited, BoolVal True))"

definition setExchangeAttributes :: "requestState \<Rightarrow> request_env \<Rightarrow> requestState" where
  "setExchangeAttributes s env =
     (if \<not> is_recording s then s
      else on_tracer s (SetAttributes (rs_span s) (exchange_attrs s (re_snapshot env))))"

definition emit_rest :: "Outcome \<Rightarrow> requestState \<Rightarrow> StreamOutput \<Rightarrow> requestState" where
  "emit_rest out s output = emitStreamOutput s output (streamOutputOutcome s output out)"

definition end_request :: "requestState \<Rightarrow> request_env \<Rightarrow> requestState" where
  "end_request s env =
     (if rs_ended s then s
      else
        let s0 = s\<lparr>rs_ended := True\<rparr>;
            res = (case rs_body s0 of Some r \<Rightarrow> r | None \<Rightarrow> no_bodyResult);
            parsed = ParseResponse (br_payload res);
            out = request_outcome s0 env res parsed;
            s1 = foldl (emit_rest out) s0 (br_streamOutputs res);
            s2 = emitPhaseSpans s1 res out;
            s3 = setServerAttributes s2 res parsed out;
            s4 = setExchangeAttributes s3 env
        in (on_tracer s4 (EndSpan (rs_span s4) None))\<lparr>rs_spanEnded := True\<rparr>)"

text \<open>\<open>observe\<close>: the panic of the handler, if there was one, is recorded before the request ends.\<close>

definition finish_observed :: "requestState \<Rightarrow> panic_value option \<Rightarrow> request_env \<Rightarrow> requestState" where
  "finish_observed s panic env =
     (case panic of Some p \<Rightarrow> end_request (recordPanic s p) env | None \<Rightarrow> end_request s env)"

end
