(* ===== verification/Proxy_Handler.thy ===== *)
theory Proxy_Handler
  imports Request_State Route Sessions Admission
begin

text \<open>
  The handler of \<open>internal/proxy/proxy.go\<close> around the reverse proxy: what \<open>ServeHTTP\<close> does with a
  request before it is proxied, what \<open>modifyResponse\<close> and \<open>errorHandler\<close> do with the answer, and
  the transport that carries a request upstream under a client span.

  Not under \<open>src/\<close>, and so arguments of the definitions: the propagator (\<open>extract\<close>, \<open>inject\<close>), the
  parser of hexadecimal trace IDs (\<open>hex_id\<close>, none when the ID is malformed or zero), and what the
  base transport answers. Of the standard library SHA-256, the lower case of text that is
  not ASCII and \<open>mime.ParseMediaType\<close> are arguments as well. A header is a list of canonical names
  with their values, without repeated names. A span context that came in with a request is an
  opaque byte string, empty when it is not valid; a trace ID is its bytes, empty for none.
\<close>

subsection \<open>Headers\<close>

definition header_get :: "bytes \<Rightarrow> http_header \<Rightarrow> bytes" where
  "header_get name h = (case al_lookup h name of Some (v # vs) \<Rightarrow> v | _ \<Rightarrow> [])"

definition header_values_of :: "bytes \<Rightarrow> http_header \<Rightarrow> bytes list" where
  "header_values_of name h = (case al_lookup h name of Some vs \<Rightarrow> vs | None \<Rightarrow> [])"

definition header_set :: "bytes \<Rightarrow> bytes \<Rightarrow> http_header \<Rightarrow> http_header" where
  "header_set name v h = al_put name [v] h"

lemma header_del_lookup [simp]: "al_lookup (header_del name h) k = (if k = name then None else al_lookup h k)"
  by (simp add: header_del_def al_delete_def [symmetric])

definition stripTraceContextHeaders :: "http_header \<Rightarrow> http_header" where
  "stripTraceContextHeaders h = header_del ''Tracestate'' (header_del ''Traceparent'' h)"

definition stripTraceHeaders :: "http_header \<Rightarrow> http_header" where
  "stripTraceHeaders h = header_del ''Baggage'' (stripTraceContextHeaders h)"

subsection \<open>The upstream and the parameters of a request as attributes\<close>

text \<open>\<open>url.URL\<close>: its scheme and its host with the port; \<open>Hostname\<close> and \<open>Port\<close> split the host.\<close>

record url =
  ur_scheme :: bytes
  ur_host :: bytes

fun last_colon :: "bytes \<Rightarrow> (bytes \<times> bytes) option" where
  "last_colon [] = None"
| "last_colon (c # cs) =
     (case last_colon cs of
        Some (host, port) \<Rightarrow> Some (c # host, port)
      | None \<Rightarrow> if c = CHR '':'' then Some ([], cs) else None)"

definition splitHostPort :: "bytes \<Rightarrow> bytes \<times> bytes" where
  "splitHostPort hostPort =
     (let (host, port) =
            (case last_colon hostPort of
               Some (host, port) \<Rightarrow> if list_all digit port then (host, port) else (hostPort, [])
             | None \<Rightarrow> (hostPort, []))
      in (if has_prefix ''['' host \<and> has_suffix '']'' host then trim_suffix '']'' (trim_prefix ''['' host) else host, port))"

definition upstreamAttributes :: "url option \<Rightarrow> attribute list" where
  "upstreamAttributes upstream =
     (case upstream of
        None \<Rightarrow> []
      | Some u \<Rightarrow>
          let (host, port0) = splitHostPort (ur_host u);
              port = (if port0 \<noteq> [] then port0 else if ur_scheme u = ''https'' then ''443''
                      else if ur_scheme u = ''http'' then ''80'' else [])
          in if host = [] then []
             else [(''server.address'', StrVal host)] @
               (case atoi port of Some number \<Rightarrow> [(''server.port'', IntVal number)] | None \<Rightarrow> []))"

definition int_attr :: "bytes \<Rightarrow> int option \<Rightarrow> attribute list" where
  "int_attr key v = (case v of Some n \<Rightarrow> [(key, IntVal n)] | None \<Rightarrow> [])"

definition float_attr :: "bytes \<Rightarrow> bytes option \<Rightarrow> attribute list" where
  "float_attr key v = (case v of Some x \<Rightarrow> [(key, FloatVal x)] | None \<Rightarrow> [])"

definition requestParameterAttributes :: "RequestParameters \<Rightarrow> attribute list" where
  "requestParameterAttributes params =
     int_attr AttrRequestMaxTokens (rp_maxTokens params) @
     float_attr AttrRequestTemperature (rp_temperature params) @
     float_attr AttrRequestTopP (rp_topP params) @
     int_attr AttrRequestTopK (rp_topK params) @
     float_attr AttrRequestFrequencyPenalty (rp_frequencyPenalty params) @
     float_attr AttrRequestPresencePenalty (rp_presencePenalty params) @
     int_attr AttrRequestSeed (rp_seed params) @
     int_attr AttrRequestChoiceCount (rp_choiceCount params) @
     attr_if (length (rp_stopSequences params) > 0) (AttrRequestStopSequences, StrsVal (rp_stopSequences params)) @
     attr_if (rp_outputType params \<noteq> []) (AttrOutputType, StrVal (rp_outputType params))"

subsection \<open>Requests\<close>

record incoming_request =
  in_method :: bytes
  in_path :: bytes
  in_host :: bytes
  in_http :: http_request

definition traceRequestHeader :: "incoming_request \<Rightarrow> http_header" where
  "traceRequestHeader r =
     (let h0 = hr_header (in_http r);
          h1 = (if in_host r \<noteq> [] then header_set ''Host'' (in_host r) h0 else h0);
          h2 = (if hr_contentLength (in_http r) > 0 \<and> header_get ''Content-Length'' h1 = []
                then header_set ''Content-Length'' (itoa (hr_contentLength (in_http r))) h1 else h1)
      in if length (hr_transferEncoding (in_http r)) > 0 \<and> header_get ''Transfer-Encoding'' h2 = []
         then al_put ''Transfer-Encoding'' (hr_transferEncoding (in_http r)) h2 else h2)"

text \<open>What the handler itself answers: the header, the status and the body.\<close>

datatype reply = Reply (rep_header: http_header) (rep_status: int) (rep_body: bytes)

definition http_Error :: "http_header \<Rightarrow> bytes \<Rightarrow> int \<Rightarrow> reply" where
  "http_Error h text code =
     Reply (header_set ''X-Content-Type-Options'' ''nosniff''
              (header_set ''Content-Type'' ''text/plain; charset=utf-8'' (header_del ''Content-Length'' h)))
       code (text @ [CHR 0x0A])"

text \<open>\<open>http.StatusText\<close> of the error statuses.\<close>

definition status_texts :: "(int \<times> bytes) list" where
  "status_texts =
     [(400, ''Bad Request''), (401, ''Unauthorized''), (402, ''Payment Required''), (403, ''Forbidden''),
      (404, ''Not Found''), (405, ''Method Not Allowed''), (406, ''Not Acceptable''),
      (407, ''Proxy Authentication Required''), (408, ''Request Timeout''), (409, ''Conflict''), (410, ''Gone''),
      (411, ''Length Required''), (412, ''Precondition Failed''), (413, ''Request Entity Too Large''),
      (414, ''Request URI Too Long''), (415, ''Unsupported Media Type''),
      (416, ''Requested Range Not Satisfiable''), (417, ''Expectation Failed''),
      (418, ''I'' @ [CHR 0x27] @ ''m a teapot''), (421, ''Misdirected Request''), (422, ''Unprocessable Entity''),
      (423, ''Locked''), (424, ''Failed Dependency''), (425, ''Too Early''), (426, ''Upgrade Required''),
      (428, ''Precondition Required''), (429, ''Too Many Requests''), (431, ''Request Header Fields Too Large''),
      (451, ''Unavailable For Legal Reasons''), (500, ''Internal Server Error''), (501, ''Not Implemented''),
      (502, ''Bad Gateway''), (503, ''Service Unavailable''), (504, ''Gateway Timeout''),
      (505, ''HTTP Version Not Supported''), (506, ''Variant Also Negotiates''), (507, ''Insufficient Storage''),
      (508, ''Loop Detected''), (510, ''Not Extended''), (511, ''Network Authentication Required'')]"

definition StatusText :: "int \<Rightarrow> bytes" where
  "StatusText code = (case al_lookup status_texts code of Some t \<Rightarrow> t | None \<Rightarrow> [])"

definition rejectOverload :: "http_header \<Rightarrow> reply" where
  "rejectOverload h =
     http_Error (header_set ''Retry-After'' ''1'' (header_set ''Connection'' ''close'' h)) (StatusText 503) 503"

subsection \<open>Models\<close>

definition MaxModelLength :: nat where "MaxModelLength = 128"

definition oversizedModel :: bytes where "oversizedModel = ''(oversized)''"

definition boundedModel :: "genai_Request \<Rightarrow> bytes \<times> bool" where
  "boundedModel req =
     (if \<not> gr_modelKnown req then ([], False)
      else if length (gr_model req) > MaxModelLength then (oversizedModel, True)
      else (gr_model req, True))"

subsection \<open>Trace contexts and sessions\<close>

record handler_opts =
  ho_modelInSpanName :: bool
  ho_requestBodyLimit :: nat
  ho_trustTraceContext :: bool
  ho_sessionTraceIDRoots :: bool
  ho_upstream :: "url option"

definition sessionTraceID :: "(bytes \<Rightarrow> bytes option) \<Rightarrow> (bytes \<Rightarrow> bytes) \<Rightarrow> bytes \<Rightarrow> bytes option" where
  "sessionTraceID hex_id sha256 sessionID0 =
     (let sessionID = trim_space sessionID0;
          hexID = filter (\<lambda>c. c \<noteq> CHR ''-'') sessionID
      in if sessionID = [] then None
         else case (if length hexID = 32 then hex_id hexID else None) of
           Some traceID \<Rightarrow> Some traceID
         | None \<Rightarrow> Some (take 16 (sha256 sessionID)))"

definition sessionKey ::
    "(bytes \<Rightarrow> bytes option) \<Rightarrow> (bytes \<Rightarrow> bytes) \<Rightarrow> handler_opts \<Rightarrow> http_header \<Rightarrow> (bytes \<times> bytes) option" where
  "sessionKey hex_id sha256 opts header =
     (if \<not> ho_trustTraceContext opts \<or> \<not> ho_sessionTraceIDRoots opts then None
      else
        let sid = trim_space (header_get ''X-Session-Id'' header)
        in if sid = [] then None
           else case sessionTraceID hex_id sha256 sid of None \<Rightarrow> None | Some traceID \<Rightarrow> Some (sid, traceID))"

text \<open>What a context says about tracing: the span context it carries, its baggage, a requested trace ID.\<close>

record trace_context =
  tc_remote :: bytes
  tc_baggage :: bytes
  tc_traceID :: bytes

type_synonym extractor = "http_header \<Rightarrow> bytes \<times> bytes"

text \<open>
  The context a request is traced in, the span context to link to, and whether the server
  span is a new root. The request comes from the HTTP server without a span or baggage of its
  own.
\<close>

definition traceContext ::
    "(bytes \<Rightarrow> bytes option) \<Rightarrow> (bytes \<Rightarrow> bytes) \<Rightarrow> extractor \<Rightarrow> handler_opts \<Rightarrow> http_header \<Rightarrow>
      trace_context \<times> bytes \<times> bool" where
  "traceContext hex_id sha256 extract opts header =
     (let (remote, baggage) = extract header
      in if ho_trustTraceContext opts then
           (case sessionKey hex_id sha256 opts header of
              Some (_, traceID) \<Rightarrow> (\<lparr>tc_remote = remote, tc_baggage = baggage, tc_traceID = traceID\<rparr>, remote, True)
            | None \<Rightarrow> (\<lparr>tc_remote = remote, tc_baggage = baggage, tc_traceID = []\<rparr>, [], False))
         else (\<lparr>tc_remote = [], tc_baggage = [], tc_traceID = []\<rparr>, remote, True))"

subsection \<open>\<open>ServeHTTP\<close>\<close>

text \<open>
  What happens to a request: it is refused, passed through, or proxied with a request state.
  The registry of sessions is there when session roots are enabled; it and the request state
  write to one tracer.
\<close>

record observed_request =
  oq_state :: requestState
  oq_request :: http_request
  oq_writer :: observedWriter
  oq_flush :: bool
  oq_session :: "bytes option"
  oq_link :: bytes
  oq_baggage :: bytes

datatype served = Rejected reply | PassThrough nat | Instrumented nat observed_request

text \<open>
  The parent of the server span: a session, a remote span, or none. The source takes the span of a
  session only if \<open>parent.IsValid()\<close>; it always is, as the program traces with the SDK, whose spans have
  the IDs of the generator of \<open>internal/tracing/tracing.go\<close>, and these are never zero (\<open>new_ids_terminate\<close>
  of theory \<open>Tracing_Safety\<close>).
\<close>

definition server_parent :: "trace_context \<Rightarrow> bool \<Rightarrow> nat option \<Rightarrow> span_parent" where
  "server_parent ctx newRoot session =
     (case session of
        Some i \<Rightarrow> ChildOf i
      | None \<Rightarrow> if newRoot \<or> tc_remote ctx = [] then NewRoot (tc_traceID ctx) else RemoteParent (tc_remote ctx))"

text \<open>The session of a request: its span, the attributes it gives, and its ID, to be released.\<close>

definition serve_session ::
    "(bytes \<Rightarrow> bytes option) \<Rightarrow> (bytes \<Rightarrow> bytes) \<Rightarrow> handler_opts \<Rightarrow> go_time \<Rightarrow> bytes \<Rightarrow> http_header \<Rightarrow> sessionRegistry \<Rightarrow>
      sessionRegistry \<times> nat option \<times> attribute list \<times> bytes option" where
  "serve_session hex_id sha256 opts start model header reg =
     (if \<not> ho_sessionTraceIDRoots opts then (reg, None, [], None)
      else case sessionKey hex_id sha256 opts header of
        None \<Rightarrow> (reg, None, [], None)
      | Some (sid, traceID) \<Rightarrow>
          (case acquire reg sid traceID start model (header_get ''User-Agent'' header) of
             (reg1, None) \<Rightarrow> (reg1, None, [], None)
           | (reg1, Some span) \<Rightarrow>
               (reg1, Some span, [(''session.id'', StrVal sid), (AttrConversationID, StrVal sid)], Some sid)))"

text \<open>
  The instrumented part once the session is acquired, \<open>session\<close> being what \<open>serve_session\<close> gave: the
  server span is started and the request state created. \<open>oq_session\<close> is the session to release at
  the end, \<open>oq_link\<close> the span context the server span links to if there is one.
\<close>

definition serve_start ::
    "(bytes \<Rightarrow> bytes option) \<Rightarrow> (bytes \<Rightarrow> bytes) \<Rightarrow> extractor \<Rightarrow> handler_opts \<Rightarrow> bool \<Rightarrow> go_time \<Rightarrow> writer \<Rightarrow>
      incoming_request \<Rightarrow> bytes \<Rightarrow> nat \<Rightarrow> http_request \<Rightarrow> genai_Request \<Rightarrow>
      nat option \<times> attribute list \<times> bytes option \<Rightarrow> sessionRegistry \<Rightarrow> sessionRegistry \<times> served" where
  "serve_start hex_id sha256 extract opts sampled start w r op slot http req session0 reg1 =
     (let (requestBody, requestBodyTruncated) = boundedTraceBody (gr_body req);
          (model, modelOK) = boundedModel req;
          inferenceName = (if modelOK then op @ '' '' @ model else op);
          name = (if ho_modelInSpanName opts then inferenceName else op);
          (ctx, incoming, newRoot) = traceContext hex_id sha256 extract opts (hr_header http);
          (session, sessionAttrs, held) = session0;
          dims = [(AttrOperationName, StrVal op)] @
            attr_if (gr_streamKnown req) (AttrRequestStream, BoolVal (gr_stream req)) @
            attr_if modelOK (AttrRequestModel, StrVal model);
          attrs = [(AttrProviderName, StrVal System), (AttrHTTPMethod, StrVal (in_method r)),
                   (AttrURLPath, StrVal (in_path r))] @ dims @ sessionAttrs @
            upstreamAttributes (ho_upstream opts) @ requestParameterAttributes (gr_parameters req);
          (t, span) = start_span (rg_tracer reg1) name (server_parent ctx newRoot session) start attrs;
          (observed0, flush) = newObservedWriter w;
          observed = setCapture observed0 sampled;
          st = \<lparr>rs_span = span, rs_tracer = t, rs_sampled = sampled, rs_spanEnded = False, rs_start = start,
                rs_dims = dims, rs_inferenceAttrs = attrs, rs_inferenceSpanName = inferenceName,
                rs_requestHeader = traceRequestHeader r, rs_requestBody = requestBody,
                rs_requestBodyTruncated = (gr_bodyTruncated req \<or> requestBodyTruncated), rs_ended = False,
                rs_statusCode = 0, rs_serverSentEvents = False, rs_encoding = [], rs_body = None,
                rs_panicRecorded = False, rs_panicErr = None, rs_upstreamErr = None,
                rs_timeToFirstTokenOnce = False\<rparr>
      in (reg1\<lparr>rg_tracer := t\<rparr>,
          Instrumented slot \<lparr>oq_state = st, oq_request = http, oq_writer = observed, oq_flush = flush,
            oq_session = held, oq_link = incoming, oq_baggage = tc_baggage ctx\<rparr>))"

definition serve_instrumented ::
    "(bytes \<Rightarrow> bytes option) \<Rightarrow> (bytes \<Rightarrow> bytes) \<Rightarrow> extractor \<Rightarrow> handler_opts \<Rightarrow> bool \<Rightarrow> go_time \<Rightarrow> writer \<Rightarrow>
      incoming_request \<Rightarrow> bytes \<Rightarrow> nat \<Rightarrow> sessionRegistry \<Rightarrow> sessionRegistry \<times> served" where
  "serve_instrumented hex_id sha256 extract opts sampled start w r op slot reg =
     (let (http, req, _) = PeekRequest (in_http r) (ho_requestBodyLimit opts);
          (reg1, session) =
            serve_session hex_id sha256 opts start (fst (boundedModel req)) (hr_header http) reg
      in serve_start hex_id sha256 extract opts sampled start w r op slot http req session reg1)"

definition serveHTTP ::
    "(bytes \<Rightarrow> bytes option) \<Rightarrow> (bytes \<Rightarrow> bytes) \<Rightarrow> extractor \<Rightarrow> handler_opts \<Rightarrow> bool \<Rightarrow> go_time \<Rightarrow> writer \<Rightarrow>
      http_header \<Rightarrow> incoming_request \<Rightarrow> handler \<Rightarrow> sessionRegistry \<Rightarrow> handler \<times> sessionRegistry \<times> served" where
  "serveHTTP hex_id sha256 extract opts sampled start w responseHeader r h reg =
     (let (op, instrumented) = instrumented_op (in_path r) (in_method r);
          (h1, admitted) = admitRequest h instrumented
      in case admitted of
           None \<Rightarrow> (h1, reg, Rejected (rejectOverload responseHeader))
         | Some slot \<Rightarrow>
             if \<not> instrumented then (h1, reg, PassThrough slot)
             else
               let (reg1, res) = serve_instrumented hex_id sha256 extract opts sampled start w r op slot reg
               in (h1, reg1, res))"

subsection \<open>The answer of upstream\<close>

definition to_lower :: "(bytes \<Rightarrow> bytes) \<Rightarrow> bytes \<Rightarrow> bytes" where
  "to_lower unicode_lower s = (if list_all (\<lambda>c. byte c < 128) s then ascii_lower s else unicode_lower s)"

text \<open>No letter of \<open>identity\<close> folds to a character outside ASCII.\<close>

definition contentEncoding :: "(bytes \<Rightarrow> bytes) \<Rightarrow> http_header \<Rightarrow> bytes" where
  "contentEncoding unicode_lower header =
     join_with '', ''
       (map (to_lower unicode_lower)
         (filter (\<lambda>coding. coding \<noteq> [] \<and> ascii_lower coding \<noteq> ''identity'')
           (concat (map (\<lambda>val. map trim_space (split_char (CHR '','') val)) (header_values_of ''Content-Encoding'' header)))))"

definition isEventStream :: "(bytes \<Rightarrow> bytes option) \<Rightarrow> bytes \<Rightarrow> bool" where
  "isEventStream parse_media_type contentType \<longleftrightarrow>
     (case parse_media_type contentType of None \<Rightarrow> False | Some mediaType \<Rightarrow> mediaType = ''text/event-stream'')"

record upstream_response =
  ur_status :: int
  ur_header :: http_header
  ur_hasBody :: bool

text \<open>The observer that replaces the body, if it has one to observe, and the writer.\<close>

definition modifyResponse ::
    "(bytes \<Rightarrow> bytes) \<Rightarrow> (bytes \<Rightarrow> bytes option) \<Rightarrow> requestState option \<Rightarrow> observedWriter \<Rightarrow> upstream_response \<Rightarrow>
      requestState option \<times> observedWriter \<times> bodyObserver option" where
  "modifyResponse unicode_lower parse_media_type st w res =
     (case st of
        None \<Rightarrow> (None, w, None)
      | Some s \<Rightarrow>
          let encoding = contentEncoding unicode_lower (ur_header res);
              serverSentEvents = isEventStream parse_media_type (header_get ''Content-Type'' (ur_header res));
              s1 = responseStarted s (ur_status res) serverSentEvents encoding;
              w1 = (if serverSentEvents \<and> encoding = [] then disableBodyCapture w else w)
          in if ur_status res = 101 \<or> \<not> ur_hasBody res then (Some s1, w1, None)
             else (Some s1, w1, Some (newBodyObserver serverSentEvents (encoding \<noteq> []))))"

text \<open>The answer to a request that could not be proxied, none when the client is gone.\<close>

definition errorHandler ::
    "requestState option \<Rightarrow> http_header \<Rightarrow> go_error option \<Rightarrow> go_error \<Rightarrow> requestState option \<times> reply option" where
  "errorHandler st header cause err =
     (if errors_Is cause ErrForcedClose then
        (map_option (\<lambda>s. recordLocalStatus s 503) st, Some (rejectOverload header))
      else if cause \<noteq> None \<or> errors_Is (Some err) ErrCanceled then (st, None)
      else if errors_Is (Some err) ErrDeadlineExceeded then
        (map_option (\<lambda>s. recordUpstreamFailure s 504 (Some err)) st, Some (Reply header 504 []))
      else (map_option (\<lambda>s. recordUpstreamFailure s 502 (Some err)) st, Some (Reply header 502 [])))"

subsection \<open>The transport\<close>

text \<open>
  The calls on the client span once the base transport has answered with an error or a status.
\<close>

definition inference_calls :: "requestState \<Rightarrow> nat \<Rightarrow> go_error option \<Rightarrow> go_error + int \<Rightarrow> requestState" where
  "inference_calls s span cause res =
     (case res of
        Inl err \<Rightarrow>
          if errors_Is cause ErrForcedClose then
            on_tracer s (SetAttributes span [(AttrOutcome, StrVal (outcome_text OutcomeShutdown))])
          else if cause \<noteq> None \<or> errors_Is (Some err) ErrCanceled then
            on_tracer s (SetAttributes span [(AttrOutcome, StrVal (outcome_text OutcomeClientCancel))])
          else
            on_tracer
              (recordSpanError
                (on_tracer s (SetAttributes span
                  [(AttrOutcome, StrVal (outcome_text OutcomeUpstreamError)), (AttrErrorType, StrVal ''transport_error'')]))
                span (Some err))
              (SetStatusError span (Truncate (err_text err)))
      | Inr status \<Rightarrow>
          let s1 = on_tracer s (SetAttributes span
                [(AttrStatusCode, IntVal status), (AttrOutcome, StrVal (outcome_text OutcomeSuccess))])
          in if status \<ge> 400 then
               on_tracer
                 (on_tracer s1 (SetAttributes span
                   [(AttrOutcome, StrVal (outcome_text OutcomeUpstreamError)), (AttrErrorType, StrVal (itoa status))]))
                 (SetStatusError span (StatusText status))
             else s1)"

text \<open>
  \<open>RoundTrip\<close> of an instrumented request: the request sent upstream has the header it returns,
  \<open>inject\<close> being given the client span and the baggage of the context.
\<close>

definition outgoing_header ::
    "(nat \<Rightarrow> bytes \<Rightarrow> http_header \<Rightarrow> http_header) \<Rightarrow> bool \<Rightarrow> bytes \<Rightarrow> nat \<Rightarrow> http_header \<Rightarrow> http_header" where
  "outgoing_header inject trust baggage span header =
     (let h1 = stripTraceContextHeaders header;
          h2 = (if trust then h1 else header_del ''Baggage'' h1)
      in inject span baggage h2)"

text \<open>
  The client span is started before the base transport is called and ended after it has returned.
  \<open>roundTrip\<close> is both with the call in between, \<open>res\<close> being what the base transport returns, or none when
  it panics: \<open>span.End\<close> is not deferred, so nothing is done to the client span any more.
\<close>

definition transport_start :: "requestState \<Rightarrow> go_time \<Rightarrow> requestState \<times> nat" where
  "transport_start s now = start_child s (rs_inferenceSpanName s) now (rs_inferenceAttrs s)"

definition transport_end :: "requestState \<Rightarrow> nat \<Rightarrow> go_error option \<Rightarrow> go_error + int \<Rightarrow> requestState" where
  "transport_end s span cause res = on_tracer (inference_calls s span cause res) (EndSpan span None)"

definition roundTrip ::
    "(nat \<Rightarrow> bytes \<Rightarrow> http_header \<Rightarrow> http_header) \<Rightarrow> bool \<Rightarrow> bytes \<Rightarrow> requestState \<Rightarrow> http_header \<Rightarrow> go_time \<Rightarrow>
      go_error option \<Rightarrow> (go_error + int) option \<Rightarrow> requestState \<times> http_header" where
  "roundTrip inject trust baggage s header now cause res =
     (let (s1, span) = transport_start s now
      in (case res of Some r \<Rightarrow> transport_end s1 span cause r | None \<Rightarrow> s1,
          outgoing_header inject trust baggage span header))"

text \<open>\<open>RoundTrip\<close> of a request that is passed through.\<close>

definition passthrough_header :: "bool \<Rightarrow> http_header \<Rightarrow> http_header" where
  "passthrough_header trust header = (if trust then header else stripTraceHeaders header)"

end
