(* ===== verification/Request_Safety.thy ===== *)
theory Request_Safety
  imports Proxy_Handler "HOL-Library.Multiset"
begin

text \<open>
  The request state over any sequence of its operations: its spans are started and ended
  exactly once, the outcome says what happened, and, together with the body observer, every
  output of a stream becomes one span.
\<close>

subsection \<open>Outcomes\<close>

definition clean_request :: "requestState \<Rightarrow> request_env \<Rightarrow> bodyResult \<Rightarrow> genai_Response option \<Rightarrow> bool" where
  "clean_request s env res parsed \<longleftrightarrow>
     \<not> rs_panicRecorded s \<and> re_cause env = None \<and> rs_upstreamErr s = None \<and> br_err res = None \<and>
     rs_statusCode s < 400 \<and> re_writeErr env = None \<and>
     (case parsed of Some p \<Rightarrow> \<not> gp_failed p \<and> \<not> gp_incomplete p | None \<Rightarrow> True)"

definition seen_whole :: "requestState \<Rightarrow> bodyResult \<Rightarrow> bool" where
  "seen_whole s res \<longleftrightarrow>
     rs_encoding s = [] \<and> \<not> br_truncated res \<and> \<not> br_streamLimited res \<and> br_dropped res = 0"

definition stream_open :: "requestState \<Rightarrow> bodyResult \<Rightarrow> genai_Response option \<Rightarrow> bool" where
  "stream_open s res parsed \<longleftrightarrow>
     rs_serverSentEvents s \<and> rs_statusCode s \<ge> 200 \<and> rs_statusCode s < 300 \<and>
     \<not> br_sawDone res \<and> (case parsed of Some p \<Rightarrow> \<not> gp_terminal p | None \<Rightarrow> True)"

text \<open>
  C9: a request is reported as successful exactly when nothing went wrong: no panic, no
  cancellation, no error on either side, no error status or failed response, the whole response
  was observed, and a successful event stream has ended. It is reported as only partly
  observed exactly when nothing went wrong but the response was not seen whole.
\<close>

theorem outcome_success_exact:
  "(request_outcome s env res parsed = OutcomeSuccess \<longleftrightarrow>
      clean_request s env res parsed \<and> seen_whole s res \<and> \<not> stream_open s res parsed) \<and>
   (request_outcome s env res parsed = OutcomeObservationLimited \<longleftrightarrow>
      clean_request s env res parsed \<and> \<not> seen_whole s res) \<and>
   (request_outcome s env res parsed = OutcomeShutdown \<longleftrightarrow>
      \<not> rs_panicRecorded s \<and> errors_Is (re_cause env) ErrForcedClose) \<and>
   (request_outcome s env res parsed = OutcomeInternalError \<longleftrightarrow> rs_panicRecorded s)"
proof -
  have none: "cancel_error None = False" "errors_Is None k = False" for k by (simp_all add: cancel_error_def errors_Is_def)
  show ?thesis
    by (cases parsed)
      (auto simp: request_outcome_def clean_request_def seen_whole_def stream_open_def hasSuccessfulHTTPStatus_def
        responseTerminated_def Let_def none)
qed

subsection \<open>Spans\<close>

datatype request_op =
    OpStarted int bool bytes | OpBodyDone bodyResult | OpFirstToken go_time | OpOutput StreamOutput
  | OpLocalStatus int | OpUpstreamFailure int "go_error option"
  | OpRoundTrip go_time "go_error option" "go_error + int" | OpPanic panic_value | OpEnd request_env

fun request_step :: "requestState \<Rightarrow> request_op \<Rightarrow> requestState" where
  "request_step s (OpStarted code sse encoding) = responseStarted s code sse encoding"
| "request_step s (OpBodyDone res) = bodyDone s res"
| "request_step s (OpFirstToken at) = recordTimeToFirstToken s at"
| "request_step s (OpOutput output) = recordStreamOutput s output"
| "request_step s (OpLocalStatus code) = recordLocalStatus s code"
| "request_step s (OpUpstreamFailure code err) = recordUpstreamFailure s code err"
| "request_step s (OpRoundTrip now cause res) = fst (roundTrip (\<lambda>_ _ h. h) True [] s [] now cause (Some res))"
| "request_step s (OpPanic p) = recordPanic s p"
| "request_step s (OpEnd env) = end_request s env"

text \<open>
  The spans of a tracer that are open besides the span of the request: they do not change.
  Times are those of the calls; a span that ends at a given time does not end before it starts.
\<close>

definition span_balance :: "nat multiset \<Rightarrow> requestState \<Rightarrow> bool" where
  "span_balance others s \<longleftrightarrow>
     tracer_ok (rs_tracer s) \<and>
     mset (ended_spans (rs_tracer s)) + (if rs_spanEnded s then {#} else {#rs_span s#}) + others =
       mset (started_spans (rs_tracer s))"

definition request_inv :: "nat multiset \<Rightarrow> requestState \<Rightarrow> bool" where
  "request_inv others s \<longleftrightarrow> span_balance others s \<and> (rs_spanEnded s \<longleftrightarrow> rs_ended s) \<and>
     (rs_spanEnded s \<longrightarrow> rs_span s \<in> set (ended_spans (rs_tracer s)))"

lemma on_tracer_simps [simp]:
  "rs_tracer (on_tracer s c) = trace_call (rs_tracer s) c" "rs_span (on_tracer s c) = rs_span s"
  "rs_spanEnded (on_tracer s c) = rs_spanEnded s" "rs_ended (on_tracer s c) = rs_ended s"
  "rs_sampled (on_tracer s c) = rs_sampled s" "rs_statusCode (on_tracer s c) = rs_statusCode s"
  "rs_dims (on_tracer s c) = rs_dims s" "rs_body (on_tracer s c) = rs_body s"
  by (simp_all add: on_tracer_def)

text \<open>A call that neither starts nor ends a span.\<close>

lemma span_balance_call:
  "started c = None \<Longrightarrow> ended c = None \<Longrightarrow> span_balance others (on_tracer s c) \<longleftrightarrow> span_balance others s"
  by (simp add: span_balance_def tracer_ok_def)

lemma span_balance_quiet [simp]:
  "span_balance others (on_tracer s (SetAttributes i attrs)) \<longleftrightarrow> span_balance others s"
  "span_balance others (on_tracer s (SetStatusError i m)) \<longleftrightarrow> span_balance others s"
  "span_balance others (on_tracer s (RecordError i m)) \<longleftrightarrow> span_balance others s"
  "span_balance others (recordSpanError s i err) \<longleftrightarrow> span_balance others s"
  by (simp_all add: span_balance_call recordSpanError_def split: option.split)

text \<open>A child span with quiet calls until its end.\<close>

lemma span_balance_end: "span_balance (others + {#i#}) s \<Longrightarrow> span_balance others (on_tracer s (EndSpan i at))"
  by (auto simp: span_balance_def tracer_ok_def ac_simps)

lemma span_balance_start:
  assumes "span_balance others s" and "start_child s name start attrs = (s1, i)"
  shows "span_balance (others + {#i#}) s1"
  using assms by (auto simp: span_balance_def start_child_def start_span_def tracer_ok_def Let_def)

lemma span_balance_child:
  assumes "span_balance others s" and "start_child s name start attrs = (s1, i)"
    and "span_balance (others + {#i#}) s1 \<Longrightarrow> span_balance (others + {#i#}) s2"
  shows "span_balance others (on_tracer s2 (EndSpan i at))"
  by (rule span_balance_end [OF assms(3) [OF span_balance_start [OF assms(1,2)]]])

lemma recordSpanError_frame [simp]:
  "rs_span (recordSpanError s i err) = rs_span s" "rs_spanEnded (recordSpanError s i err) = rs_spanEnded s"
  "rs_ended (recordSpanError s i err) = rs_ended s" "rs_sampled (recordSpanError s i err) = rs_sampled s"
  "ended_spans (rs_tracer (recordSpanError s i err)) = ended_spans (rs_tracer s)"
  "extends cs (tr_calls (rs_tracer s)) \<Longrightarrow> extends cs (tr_calls (rs_tracer (recordSpanError s i err)))"
  by (simp_all add: recordSpanError_def split: option.split)

lemma start_child_frame:
  assumes "start_child s name start attrs = (s1, i)"
  shows "rs_span s1 = rs_span s" "rs_spanEnded s1 = rs_spanEnded s" "rs_ended s1 = rs_ended s" "rs_sampled s1 = rs_sampled s"
    and "ended_spans (rs_tracer s1) = ended_spans (rs_tracer s)" "extends (tr_calls (rs_tracer s)) (tr_calls (rs_tracer s1))"
  using assms by (auto simp: start_child_def start_span_def Let_def split: prod.splits)

text \<open>An operation that keeps the balance and leaves the request's own span alone.\<close>

definition keeps_span :: "requestState \<Rightarrow> requestState \<Rightarrow> bool" where
  "keeps_span s s' \<longleftrightarrow>
     rs_span s' = rs_span s \<and> rs_spanEnded s' = rs_spanEnded s \<and> rs_ended s' = rs_ended s \<and> rs_sampled s' = rs_sampled s \<and>
     set (ended_spans (rs_tracer s)) \<subseteq> set (ended_spans (rs_tracer s')) \<and>
     extends (tr_calls (rs_tracer s)) (tr_calls (rs_tracer s')) \<and>
     (\<forall>others. span_balance others s \<longrightarrow> span_balance others s')"

lemma keeps_span_refl [simp]: "keeps_span s s"
  by (simp add: keeps_span_def)

lemma keeps_span_trans: "keeps_span s t \<Longrightarrow> keeps_span t u \<Longrightarrow> keeps_span s u"
  by (auto simp: keeps_span_def intro: extends_trans)

lemma child_span_keeps:
  assumes "start_child s name start attrs = (s1, i)" and "keeps_span s1 s2"
  shows "keeps_span s (on_tracer s2 (EndSpan i at))"
  using assms span_balance_child [OF _ assms(1)] start_child_frame [OF assms(1)]
  by (auto simp: keeps_span_def intro: extends_snoc extends_trans)

lemma keeps_span_quiet [simp]:
  "keeps_span s (on_tracer s (SetAttributes i attrs))" "keeps_span s (on_tracer s (SetStatusError i m))"
  "keeps_span s (recordSpanError s i err)"
  by (simp_all add: keeps_span_def)

lemma emitStreamOutput_keeps: "keeps_span s (emitStreamOutput s output out)"
proof -
  obtain start till where times: "output_times output = (start, till)" by (cases "output_times output")
  obtain s1 i where c: "start_child s (output_span_name (so_kind output)) start (output_attrs s output out) = (s1, i)"
    by (cases "start_child s (output_span_name (so_kind output)) start (output_attrs s output out)")
  show ?thesis by (simp add: emitStreamOutput_def times c child_span_keeps [OF c] Let_def)
qed

lemma emit_rest_keeps: "keeps_span s (foldl (emit_rest out) s outs)"
proof (induction outs arbitrary: s)
  case (Cons x outs)
  from keeps_span_trans [OF emitStreamOutput_keeps Cons] show ?case by (simp add: emit_rest_def)
qed simp

lemma applyStatus_keeps: "keeps_span s (applyStatus s i out res)"
  by (simp add: applyStatus_def keeps_span_def Let_def)

lemma emitPhaseSpans_keeps: "keeps_span s (emitPhaseSpans s res out)"
proof -
  let ?attrs = "phaseAttrs s out @ [(AttrServerSentEventsChunkCount, IntVal (int (br_chunks res)))]"
  obtain s1 i where c: "start_child s SpanGeneration (br_firstToken res) ?attrs = (s1, i)"
    by (cases "start_child s SpanGeneration (br_firstToken res) ?attrs")
  show ?thesis by (simp add: emitPhaseSpans_def c child_span_keeps [OF c applyStatus_keeps])
qed

lemma recordTimeToFirstToken_keeps: "keeps_span s (recordTimeToFirstToken s at)"
proof -
  let ?s = "s\<lparr>rs_timeToFirstTokenOnce := True\<rparr>"
  let ?c = "start_child ?s SpanTimeToFirstToken (rs_start s) (phaseAttrs ?s OutcomeSuccess)"
  obtain s1 i where c: "?c = (s1, i)" by (cases ?c)
  have once: "keeps_span s ?s" by (simp add: keeps_span_def span_balance_def)
  show ?thesis
    using keeps_span_trans [OF once child_span_keeps [OF c keeps_span_refl]] once
    by (simp add: recordTimeToFirstToken_def c Let_def)
qed

lemma inference_calls_keeps: "keeps_span s (inference_calls s i cause res)"
  by (cases res) (simp_all add: inference_calls_def keeps_span_def Let_def)

lemma roundTrip_keeps: "keeps_span s (fst (roundTrip inject trust baggage s header now cause (Some res)))"
proof -
  obtain s1 i where c: "start_child s (rs_inferenceSpanName s) now (rs_inferenceAttrs s) = (s1, i)"
    by (cases "start_child s (rs_inferenceSpanName s) now (rs_inferenceAttrs s)")
  show ?thesis
    by (simp add: roundTrip_def transport_start_def transport_end_def c child_span_keeps [OF c inference_calls_keeps])
qed

text \<open>
  A base transport that panics leaves the client span open: nothing else ends it, as the request state
  does not know it.
\<close>

lemma panicking_transport_leaks:
  "fst (roundTrip inject trust baggage s header now cause None) = s1 \<Longrightarrow>
   mset (started_spans (rs_tracer s1)) = mset (started_spans (rs_tracer s)) + {#tr_next (rs_tracer s)#} \<and>
   ended_spans (rs_tracer s1) = ended_spans (rs_tracer s)"
  by (auto simp: roundTrip_def transport_start_def start_child_def start_span_def Let_def)

lemma setServerAttributes_keeps: "keeps_span s (setServerAttributes s res parsed out)"
  by (simp add: setServerAttributes_def keeps_span_def Let_def)

lemma setExchangeAttributes_keeps: "keeps_span s (setExchangeAttributes s env)"
  by (simp add: setExchangeAttributes_def keeps_span_def)

definition ends_request :: "request_op \<Rightarrow> bool" where
  "ends_request op \<longleftrightarrow> (case op of OpEnd env \<Rightarrow> True | _ \<Rightarrow> False)"

lemma request_step_keeps: "\<not> ends_request op \<Longrightarrow> keeps_span s (request_step s op)"
proof (cases op)
  case (OpPanic p)
  have "keeps_span s (s\<lparr>rs_panicRecorded := True, rs_panicErr := e\<rparr>)" for e
    by (simp add: keeps_span_def span_balance_def)
  from keeps_span_trans [OF this keeps_span_quiet(3)] OpPanic show ?thesis
    by (simp add: recordPanic_def Let_def)
next
  case (OpUpstreamFailure code err)
  have "keeps_span s (s\<lparr>rs_statusCode := code, rs_upstreamErr := err\<rparr>)"
    by (simp add: keeps_span_def span_balance_def)
  from keeps_span_trans [OF this keeps_span_quiet(3)] OpUpstreamFailure show ?thesis
    by (simp add: recordUpstreamFailure_def)
qed (simp_all add: ends_request_def recordTimeToFirstToken_keeps emitStreamOutput_keeps recordStreamOutput_def
  roundTrip_keeps,
  simp_all add: keeps_span_def span_balance_def responseStarted_def bodyDone_def recordLocalStatus_def)

lemma before_end_keeps:
  "keeps_span (s\<lparr>rs_ended := True\<rparr>)
     (setExchangeAttributes (setServerAttributes (emitPhaseSpans
        (foldl (emit_rest out) (s\<lparr>rs_ended := True\<rparr>) outs) res out) res parsed out) env)"
  by (meson keeps_span_trans emit_rest_keeps emitPhaseSpans_keeps setServerAttributes_keeps setExchangeAttributes_keeps)

lemma end_request_inv:
  assumes "request_inv others s"
  shows "request_inv others (end_request s env)"
proof (cases "rs_ended s")
  case False
  define res where "res = (case rs_body s of Some r \<Rightarrow> r | None \<Rightarrow> no_bodyResult)"
  define parsed where "parsed = ParseResponse (br_payload res)"
  define out where "out = request_outcome (s\<lparr>rs_ended := True\<rparr>) env res parsed"
  let ?s4 = "setExchangeAttributes (setServerAttributes (emitPhaseSpans
        (foldl (emit_rest out) (s\<lparr>rs_ended := True\<rparr>) (br_streamOutputs res)) res out) res parsed out) env"
  from assms False have open_span: "\<not> rs_spanEnded s" by (simp add: request_inv_def)
  have "span_balance others (s\<lparr>rs_ended := True\<rparr>) = span_balance others s" by (simp add: span_balance_def)
  with assms have "span_balance others (s\<lparr>rs_ended := True\<rparr>)" by (simp add: request_inv_def)
  with open_span before_end_keeps [of s out "br_streamOutputs res" res parsed env]
  have "span_balance others ?s4" "\<not> rs_spanEnded ?s4" "rs_ended ?s4" by (simp_all add: keeps_span_def)
  then have "request_inv others ((on_tracer ?s4 (EndSpan (rs_span ?s4) None))\<lparr>rs_spanEnded := True\<rparr>)"
    by (simp add: request_inv_def span_balance_def tracer_ok_def ac_simps)
  moreover have "end_request s env = (on_tracer ?s4 (EndSpan (rs_span ?s4) None))\<lparr>rs_spanEnded := True\<rparr>"
    using False by (simp add: end_request_def Let_def res_def parsed_def out_def)
  ultimately show ?thesis by simp
qed (simp add: end_request_def assms)

lemma end_request_frame: "rs_span (end_request s env) = rs_span s" "rs_ended (end_request s env)"
  using before_end_keeps by (simp_all add: end_request_def Let_def keeps_span_def)

lemma request_step_inv: "request_inv others s \<Longrightarrow> request_inv others (request_step s op)"
proof (cases "ends_request op")
  case True
  then show "request_inv others s \<Longrightarrow> ?thesis" by (auto simp: ends_request_def end_request_inv split: request_op.splits)
next
  case False
  from request_step_keeps [OF this, of s] show "request_inv others s \<Longrightarrow> ?thesis"
    by (auto simp: request_inv_def keeps_span_def)
qed

interpretation request: invariant_machine request_step "request_inv others" for others
  by unfold_locales (rule request_step_inv)

lemma request_step_frame:
  "rs_span (request_step s op) = rs_span s" "rs_ended (request_step s op) \<longleftrightarrow> rs_ended s \<or> ends_request op"
proof -
  have "rs_span (request_step s op) = rs_span s \<and> (rs_ended (request_step s op) \<longleftrightarrow> rs_ended s \<or> ends_request op)"
  proof (cases "ends_request op")
    case True
    then show ?thesis by (auto simp: ends_request_def end_request_frame split: request_op.splits)
  next
    case False
    with request_step_keeps [OF this, of s] show ?thesis by (simp add: keeps_span_def)
  qed
  then show "rs_span (request_step s op) = rs_span s" "rs_ended (request_step s op) \<longleftrightarrow> rs_ended s \<or> ends_request op"
    by simp_all
qed

lemma request_run_frame:
  "rs_span (foldl request_step s ops) = rs_span s \<and>
   (rs_ended (foldl request_step s ops) \<longleftrightarrow> rs_ended s \<or> list_ex ends_request ops)"
  by (induction ops arbitrary: s) (auto simp: request_step_frame)

text \<open>
  The balance in terms of sets: nothing is ended twice, and the spans still open are the request's
  own, until its end, and those that were open before.
\<close>

lemma span_balance_sets:
  assumes "span_balance others s"
  shows "distinct (ended_spans (rs_tracer s))"
    and "set (started_spans (rs_tracer s)) =
           set (ended_spans (rs_tracer s)) \<union> (if rs_spanEnded s then {} else {rs_span s}) \<union> set_mset others"
    and "i \<in># others \<Longrightarrow> i \<notin> set (ended_spans (rs_tracer s))"
    and "\<not> rs_spanEnded s \<Longrightarrow> rs_span s \<notin> set (ended_spans (rs_tracer s))"
proof -
  obtain os where os: "mset os = others" using ex_mset by blast
  let ?own = "if rs_spanEnded s then [] else [rs_span s]"
  have sum: "mset (ended_spans (rs_tracer s) @ ?own @ os) = mset (started_spans (rs_tracer s))"
    using assms os by (auto simp: span_balance_def ac_simps)
  have "distinct (ended_spans (rs_tracer s) @ ?own @ os)"
    using assms mset_eq_imp_distinct_iff [OF sum] by (simp add: span_balance_def tracer_ok_def)
  moreover have "set (ended_spans (rs_tracer s) @ ?own @ os) = set (started_spans (rs_tracer s))"
    by (rule mset_eq_setD [OF sum])
  ultimately show "distinct (ended_spans (rs_tracer s))"
    and "set (started_spans (rs_tracer s)) =
           set (ended_spans (rs_tracer s)) \<union> (if rs_spanEnded s then {} else {rs_span s}) \<union> set_mset others"
    and "i \<in># others \<Longrightarrow> i \<notin> set (ended_spans (rs_tracer s))"
    and "\<not> rs_spanEnded s \<Longrightarrow> rs_span s \<notin> set (ended_spans (rs_tracer s))"
    using os by auto
qed

text \<open>
  C3: however the operations of a request interleave, every span below it is ended, no span is
  ended twice, and its server span is ended exactly when \<open>end\<close> has been called, however often.
  Spans of others that were open stay open. The calls of the base transport return, with a response
  or an error; one that panics is in \<open>panicking_transport_leaks\<close>.
\<close>

theorem request_spans_balanced:
  assumes "request_inv others s" and "\<not> rs_ended s"
  shows "let t = rs_tracer (foldl request_step s ops) in
    distinct (ended_spans t) \<and>
    (rs_span s \<in> set (ended_spans t) \<longleftrightarrow> list_ex ends_request ops) \<and>
    set (started_spans t) - {rs_span s} - set_mset others \<subseteq> set (ended_spans t) \<and>
    set_mset others \<inter> set (ended_spans t) = {}"
proof -
  let ?s = "foldl request_step s ops"
  have inv: "request_inv others ?s" by (rule request.inv_run [OF assms(1)])
  then have bal: "span_balance others ?s" by (simp add: request_inv_def)
  have frame: "rs_span ?s = rs_span s" "rs_spanEnded ?s \<longleftrightarrow> list_ex ends_request ops"
    using request_run_frame [of s ops] assms(2) inv by (simp_all add: request_inv_def)
  have "rs_span s \<in> set (ended_spans (rs_tracer ?s)) \<longleftrightarrow> list_ex ends_request ops"
    using span_balance_sets(4) [OF bal] inv frame by (auto simp: request_inv_def)
  then show ?thesis
    using span_balance_sets(1-3) [OF bal] frame by (auto simp: Let_def split: if_splits)
qed

definition example_request :: requestState where
  "example_request =
     \<lparr>rs_span = 1, rs_tracer = \<lparr>tr_next = 2, tr_calls =
        [StartSpan 0 ''session'' (NewRoot []) 5 [], StartSpan 1 ''chat'' (ChildOf 0) 7 []]\<rparr>,
      rs_sampled = True, rs_spanEnded = False, rs_start = 7, rs_dims = [(''gen_ai.operation.name'', StrVal ''chat'')],
      rs_inferenceAttrs = [], rs_inferenceSpanName = ''chat'', rs_requestHeader = [],
      rs_requestBody = [], rs_requestBodyTruncated = False, rs_ended = False, rs_statusCode = 0,
      rs_serverSentEvents = False, rs_encoding = [], rs_body = None, rs_panicRecorded = False, rs_panicErr = None,
      rs_upstreamErr = None, rs_timeToFirstTokenOnce = False\<rparr>"

definition example_env :: request_env where
  "example_env =
     \<lparr>re_cause = None, re_writeErr = None, re_snapshot = \<lparr>rp_header = [], rp_body = [], rp_bodyTruncated = False\<rparr>\<rparr>"

definition example_request_ops :: "request_op list" where
  "example_request_ops =
     [OpRoundTrip 8 None (Inr 200), OpStarted 200 True [], OpFirstToken 9, OpOutput (output_of_kind StreamOutputResponse),
      OpEnd example_env, OpFirstToken 11, OpEnd example_env]"

lemma example_request_inv: "request_inv {#0#} example_request"
  by (simp add: request_inv_def span_balance_def tracer_ok_def example_request_def started_spans_def ended_spans_def
    map_filter_def upt_rec numeral_2_eq_2)

theorem request_spans_balanced_witness:
  "let t = rs_tracer (foldl request_step example_request example_request_ops) in
    distinct (ended_spans t) \<and> 1 \<in> set (ended_spans t) \<and> 0 \<notin> set (ended_spans t)"
proof -
  have "rs_span example_request = 1" "\<not> rs_ended example_request" "list_ex ends_request example_request_ops"
    by (simp_all add: example_request_def example_request_ops_def ends_request_def)
  with request_spans_balanced [OF example_request_inv, of example_request_ops] show ?thesis
    by (auto simp: Let_def)
qed

end
