(* ===== verification/Exchange.thy ===== *)
theory Exchange
  imports Request_Safety
begin

text \<open>
  One exchange: the body observer reports to the request state through the callbacks that
  \<open>modifyResponse\<close> sets (\<open>internal/proxy/proxy.go\<close>), and the request ends. Every output the stream
  accumulator found is one span.
\<close>

subsection \<open>Composition\<close>

text \<open>
  The callbacks of one read: \<open>onTimeToFirstToken\<close>, \<open>onStreamOutput\<close> and \<open>onDone\<close>. The request state
  keeps nothing that would make their order within one read matter, besides the order of the
  calls on the tracer: a first token comes before the outputs of the same event here, and
  before those of the same read.
\<close>

definition report_body :: "bodyObserver \<Rightarrow> bodyObserver \<Rightarrow> requestState \<Rightarrow> requestState" where
  "report_body b b' s =
     foldl bodyDone
       (foldl recordStreamOutput
         (foldl recordTimeToFirstToken s (drop (length (bo_tokenCalls b)) (bo_tokenCalls b')))
         (drop (length (bo_outputCalls b)) (bo_outputCalls b')))
       (drop (length (bo_doneCalls b)) (bo_doneCalls b'))"

definition exchange_step :: "bodyObserver \<times> requestState \<Rightarrow> body_op \<Rightarrow> bodyObserver \<times> requestState" where
  "exchange_step bs op = (let b' = body_step (fst bs) op in (b', report_body (fst bs) b' (snd bs)))"

subsection \<open>The callbacks only accumulate\<close>

definition later :: "bodyObserver \<Rightarrow> bodyObserver \<Rightarrow> bool" where
  "later b b' \<longleftrightarrow>
     extends (bo_outputCalls b) (bo_outputCalls b') \<and> extends (bo_doneCalls b) (bo_doneCalls b')"

lemma later_refl [simp]: "later b b"
  by (simp add: later_def)

lemma later_trans: "later b c \<Longrightarrow> later c d \<Longrightarrow> later b d"
  by (auto simp: later_def intro: extends_trans)

lemma checkFirstToken_calls [simp]:
  "bo_outputCalls (checkFirstToken b d outs at) = bo_outputCalls b"
  "bo_doneCalls (checkFirstToken b d outs at) = bo_doneCalls b"
  by (simp_all add: checkFirstToken_def)

lemma observeStreamPayload_later: "later b (observeStreamPayload clock b ev)"
  by (simp add: observeStreamPayload_def later_def Let_def split: prod.split)

lemma payloads_later: "later b (foldl (observeStreamPayload clock) b evs)"
proof (induction evs arbitrary: b)
  case (Cons ev evs)
  from later_trans [OF observeStreamPayload_later Cons] show ?case by simp
qed simp

lemma run_parser_later: "later b (run_parser clock b q)"
  using payloads_later [of "b\<lparr>bo_parser := q\<rparr>"] by (simp add: run_parser_def later_def)

lemma observe_bytes_later: "later b (observe_bytes clock b p)"
  using run_parser_later by (simp add: observe_bytes_def) (simp add: later_def)

lemma observed_later:
  "bo_outputCalls c = bo_outputCalls b \<Longrightarrow> bo_doneCalls c = bo_doneCalls b \<Longrightarrow> later b (observe_bytes clock c p)"
  using observe_bytes_later [of c clock p] by (simp add: later_def)

lemma body_done_later: "later b (body_done b err clock)"
  by (simp add: body_done_def later_def Let_def split: prod.split)

lemma body_step_later: "later b (body_step b op)"
proof (cases op)
  case (BodyRead p err now clock)
  define b1 where "b1 = (if length p > 0 then
      let first = (bo_first b = 0);
          b2 = (if first then b\<lparr>bo_first := now\<rparr> else b);
          b3 = b2\<lparr>bo_last := now, bo_now := now\<rparr>;
          b4 = (if first \<and> \<not> bo_stream b3 \<and> \<not> bo_opaque b3 then markFirstToken b3 now else b3)
      in observe_bytes clock b4 p
    else b)"
  have "later b b1"
    unfolding b1_def Let_def by (auto intro!: observed_later)
  moreover have eq: "body_step b op =
      (case err of None \<Rightarrow> b1
       | Some e \<Rightarrow> if errors_Is err ErrEOF then
             body_done (if bo_stream b1 then run_parser clock b1 (finish_parser (bo_parser b1)) else b1) None clock
           else body_done b1 err clock)"
    by (simp only: BodyRead body_step.simps body_read_def b1_def Let_def)
  have "later b1 (body_step b op)"
    unfolding eq using later_trans [OF run_parser_later body_done_later] body_done_later
    by (simp split: option.split)
  ultimately show ?thesis by (rule later_trans)
qed (simp add: body_close_def body_done_later)

subsection \<open>Outputs as spans\<close>

definition output_span_names :: "bytes list" where
  "output_span_names = [SpanReasoning, SpanResponse, SpanToolCall]"

fun is_output_start :: "span_call \<Rightarrow> bool" where
  "is_output_start (StartSpan i name parent start attrs) \<longleftrightarrow> name \<in> set output_span_names"
| "is_output_start c \<longleftrightarrow> False"

text \<open>
  The span of an output: its name says its kind, it is a child of the request's span, it starts
  when the output did, and its attributes hold the output's fields.
\<close>

fun reports_output :: "nat \<Rightarrow> StreamOutput \<Rightarrow> span_call \<Rightarrow> bool" where
  "reports_output request output (StartSpan i name parent start attrs) \<longleftrightarrow>
     name = output_span_name (so_kind output) \<and> parent = ChildOf request \<and>
     start = (if so_start output = 0 then so_end output else so_start output) \<and>
     contains_sub (output_fields output) attrs"
| "reports_output request output c \<longleftrightarrow> False"

lemma contains_sub_middle [simp]: "contains_sub sub (pre @ sub @ post)"
proof (induction pre)
  case Nil
  then show ?case by (cases "sub @ post") (simp_all, metis has_prefix_append)
qed simp

definition emits_outputs :: "requestState \<Rightarrow> outputs \<Rightarrow> requestState \<Rightarrow> bool" where
  "emits_outputs s outs s' \<longleftrightarrow>
     keeps_span s s' \<and>
     (\<exists>cs. tr_calls (rs_tracer s') = tr_calls (rs_tracer s) @ cs \<and>
           list_all2 (reports_output (rs_span s)) outs (filter is_output_start cs))"

lemma emits_outputs_trans:
  assumes "emits_outputs s os1 t" and "emits_outputs t os2 u"
  shows "emits_outputs s (os1 @ os2) u"
proof -
  from assms obtain cs1 cs2 where
    "tr_calls (rs_tracer t) = tr_calls (rs_tracer s) @ cs1" "tr_calls (rs_tracer u) = tr_calls (rs_tracer t) @ cs2"
    "list_all2 (reports_output (rs_span s)) os1 (filter is_output_start cs1)"
    "list_all2 (reports_output (rs_span t)) os2 (filter is_output_start cs2)"
    by (auto simp: emits_outputs_def)
  moreover from assms have "rs_span t = rs_span s" by (simp add: emits_outputs_def keeps_span_def)
  ultimately have "tr_calls (rs_tracer u) = tr_calls (rs_tracer s) @ cs1 @ cs2 \<and>
      list_all2 (reports_output (rs_span s)) (os1 @ os2) (filter is_output_start (cs1 @ cs2))"
    by (simp add: list_all2_appendI)
  with assms show ?thesis by (auto simp: emits_outputs_def intro: keeps_span_trans)
qed

lemma emits_outputs_refl [simp]: "emits_outputs s [] s"
  by (simp add: emits_outputs_def)

lemma emits_nothing_trans: "emits_outputs s [] t \<Longrightarrow> emits_outputs t outs u \<Longrightarrow> emits_outputs s outs u"
  using emits_outputs_trans [of s "[]"] by simp

lemma emits_outputs_recording: "emits_outputs s outs s' \<Longrightarrow> is_recording s' = is_recording s \<and> rs_ended s' = rs_ended s"
  by (simp add: emits_outputs_def keeps_span_def is_recording_def)

text \<open>Operations that start no output span.\<close>

lemma span_names [simp]:
  "SpanTimeToFirstToken \<notin> set output_span_names" "SpanGeneration \<notin> set output_span_names"
  "output_span_name kind \<in> set output_span_names"
  by (simp_all add: output_span_names_def output_span_name_def SpanTimeToFirstToken_def SpanGeneration_def
    SpanReasoning_def SpanResponse_def SpanToolCall_def split: StreamOutputKind.split)

lemma emits_nothing_call:
  "\<not> is_output_start c \<Longrightarrow> keeps_span s (on_tracer s c) \<Longrightarrow> emits_outputs s [] (on_tracer s c)"
  by (simp add: emits_outputs_def)

lemma emits_nothing_quiet [simp]:
  "emits_outputs s [] t \<Longrightarrow> emits_outputs s [] (on_tracer t (SetAttributes i attrs))"
  "emits_outputs s [] t \<Longrightarrow> emits_outputs s [] (on_tracer t (SetStatusError i m))"
  "emits_outputs s [] t \<Longrightarrow> emits_outputs s [] (recordSpanError t i err)"
  by (auto simp: recordSpanError_def keeps_span_def emits_nothing_call intro!: emits_nothing_trans [of s t]
    split: option.split)

lemma emits_nothing_frame:
  "rs_tracer s' = rs_tracer s \<Longrightarrow> rs_span s' = rs_span s \<Longrightarrow> rs_spanEnded s' = rs_spanEnded s \<Longrightarrow>
   rs_ended s' = rs_ended s \<Longrightarrow> rs_sampled s' = rs_sampled s \<Longrightarrow> emits_outputs s [] s'"
  by (simp add: emits_outputs_def keeps_span_def span_balance_def)

text \<open>A child span around operations that start no output span.\<close>

lemma emits_child:
  assumes "start_child s name start attrs = (s1, i)" and "emits_outputs s1 [] s2"
  shows "name \<notin> set output_span_names \<Longrightarrow> emits_outputs s [] (on_tracer s2 (EndSpan i at))"
    and "name \<in> set output_span_names \<Longrightarrow>
      reports_output (rs_span s) output (StartSpan i name (ChildOf (rs_span s)) start attrs) \<Longrightarrow>
      emits_outputs s [output] (on_tracer s2 (EndSpan i at))"
proof -
  from assms(2) obtain cs where cs: "tr_calls (rs_tracer s2) = tr_calls (rs_tracer s1) @ cs" "filter is_output_start cs = []"
    and k: "keeps_span s1 s2" by (auto simp: emits_outputs_def)
  from assms(1) have "tr_calls (rs_tracer s1) = tr_calls (rs_tracer s) @ [StartSpan i name (ChildOf (rs_span s)) start attrs]"
    by (auto simp: start_child_def start_span_def Let_def)
  with cs have calls: "tr_calls (rs_tracer (on_tracer s2 (EndSpan i at))) =
      tr_calls (rs_tracer s) @ [StartSpan i name (ChildOf (rs_span s)) start attrs] @ cs @ [EndSpan i at]" by simp
  show "name \<notin> set output_span_names \<Longrightarrow> emits_outputs s [] (on_tracer s2 (EndSpan i at))"
    using child_span_keeps [OF assms(1) k] calls cs(2) by (auto simp: emits_outputs_def)
  show "name \<in> set output_span_names \<Longrightarrow>
      reports_output (rs_span s) output (StartSpan i name (ChildOf (rs_span s)) start attrs) \<Longrightarrow>
      emits_outputs s [output] (on_tracer s2 (EndSpan i at))"
    unfolding emits_outputs_def using child_span_keeps [OF assms(1) k] calls cs(2)
    by (intro conjI exI [of _ "[StartSpan i name (ChildOf (rs_span s)) start attrs] @ cs @ [EndSpan i at]"])
      (simp_all del: reports_output.simps)
qed

lemma applyStatus_emits: "emits_outputs s [] (applyStatus s i out res)"
  by (simp add: applyStatus_def Let_def)

lemma emitPhaseSpans_emits: "emits_outputs s [] (emitPhaseSpans s res out)"
proof -
  let ?attrs = "phaseAttrs s out @ [(AttrServerSentEventsChunkCount, IntVal (int (br_chunks res)))]"
  obtain s1 i where c: "start_child s SpanGeneration (br_firstToken res) ?attrs = (s1, i)"
    by (cases "start_child s SpanGeneration (br_firstToken res) ?attrs")
  show ?thesis
    using emits_child(1) [OF c applyStatus_emits] by (simp add: emitPhaseSpans_def c Let_def)
qed

lemma recordTimeToFirstToken_emits: "emits_outputs s [] (recordTimeToFirstToken s at)"
proof -
  let ?s = "s\<lparr>rs_timeToFirstTokenOnce := True\<rparr>"
  let ?c = "start_child ?s SpanTimeToFirstToken (rs_start s) (phaseAttrs ?s OutcomeSuccess)"
  obtain s1 i where c: "?c = (s1, i)" by (cases ?c)
  have once: "emits_outputs s [] ?s" by (simp add: emits_nothing_frame)
  have "emits_outputs ?s [] (on_tracer s1 (EndSpan i (Some at)))"
    by (rule emits_child(1) [OF c emits_outputs_refl]) simp
  with emits_nothing_trans [OF once] once show ?thesis by (simp add: recordTimeToFirstToken_def c Let_def)
qed

lemma setServerAttributes_emits: "emits_outputs s [] (setServerAttributes s res parsed out)"
  by (simp add: setServerAttributes_def Let_def)

lemma setExchangeAttributes_emits: "emits_outputs s [] (setExchangeAttributes s env)"
  by (simp add: setExchangeAttributes_def)

lemma bodyDone_emits: "emits_outputs s [] (bodyDone s res)"
  by (simp add: bodyDone_def emits_nothing_frame)

lemma emitStreamOutput_emits:
  assumes "is_recording s"
  shows "emits_outputs s [output] (emitStreamOutput s output out)"
proof -
  obtain start till where times: "output_times output = (start, till)" by (cases "output_times output")
  obtain s1 i where c: "start_child s (output_span_name (so_kind output)) start (output_attrs s output out) = (s1, i)"
    by (cases "start_child s (output_span_name (so_kind output)) start (output_attrs s output out)")
  have "reports_output (rs_span s) output
      (StartSpan i (output_span_name (so_kind output)) (ChildOf (rs_span s)) start (output_attrs s output out))"
    using times by (simp add: output_times_def output_attrs_def Let_def)
  then have "emits_outputs s [output] (on_tracer s2 (EndSpan i at))" if "emits_outputs s1 [] s2" for s2 at
    using emits_child(2) [OF c that] by simp
  with assms show ?thesis by (simp add: emitStreamOutput_def times c Let_def)
qed

lemma outputs_emit:
  assumes "is_recording s"
  shows "emits_outputs s outs (foldl (emit_rest out) s outs)"
  using assms
proof (induction outs arbitrary: s)
  case (Cons x outs)
  note first = emitStreamOutput_emits [OF Cons.prems, of x "streamOutputOutcome s x out"]
  with Cons have "is_recording (emit_rest out s x)" by (simp add: emit_rest_def emits_outputs_recording [OF first])
  from emits_outputs_trans [OF first] Cons.IH [OF this] show ?case by (simp add: emit_rest_def)
qed simp

lemma recordStreamOutputs_emit:
  assumes "is_recording s" and "\<not> rs_ended s"
  shows "emits_outputs s outs (foldl recordStreamOutput s outs)"
  using assms
proof (induction outs arbitrary: s)
  case (Cons x outs)
  note first = emitStreamOutput_emits [OF Cons.prems(1), of x "streamOutputOutcome s x OutcomeSuccess"]
  have step: "recordStreamOutput s x = emitStreamOutput s x (streamOutputOutcome s x OutcomeSuccess)"
    using Cons.prems by (simp add: recordStreamOutput_def)
  from emits_outputs_recording [OF first] Cons.prems
  have "is_recording (recordStreamOutput s x)" "\<not> rs_ended (recordStreamOutput s x)" by (simp_all add: step)
  from emits_outputs_trans [OF first] Cons.IH [OF this] show ?case by (simp add: step)
qed simp

lemma foldl_emits_nothing: "(\<And>s x. emits_outputs s [] (f s x)) \<Longrightarrow> emits_outputs s [] (foldl f s xs)"
proof (induction xs arbitrary: s)
  case (Cons x xs)
  from emits_nothing_trans [OF Cons.prems Cons.IH [OF Cons.prems]] show ?case by simp
qed simp

lemma report_body_emits:
  assumes "is_recording s" and "\<not> rs_ended s"
  shows "emits_outputs s (drop (length (bo_outputCalls b)) (bo_outputCalls b')) (report_body b b' s)"
proof -
  define s1 where "s1 = foldl recordTimeToFirstToken s (drop (length (bo_tokenCalls b)) (bo_tokenCalls b'))"
  have first: "emits_outputs s [] s1"
    unfolding s1_def by (rule foldl_emits_nothing) (rule recordTimeToFirstToken_emits)
  from emits_outputs_recording [OF this] assms have "is_recording s1" "\<not> rs_ended s1" by simp_all
  note outs = recordStreamOutputs_emit [OF this, of "drop (length (bo_outputCalls b)) (bo_outputCalls b')"]
  have "emits_outputs s2 [] (foldl bodyDone s2 rs)" for s2 rs
    by (rule foldl_emits_nothing) (rule bodyDone_emits)
  from emits_nothing_trans [OF first emits_outputs_trans [OF outs this]] show ?thesis
    by (simp add: report_body_def s1_def)
qed

lemma report_body_result:
  "rs_body (report_body b b' s) =
     (if length (bo_doneCalls b) < length (bo_doneCalls b') then Some (last (bo_doneCalls b')) else rs_body s)"
proof -
  have token: "rs_body (foldl recordTimeToFirstToken s xs) = rs_body s" for s xs
    by (induction xs arbitrary: s)
      (simp_all add: recordTimeToFirstToken_def start_child_def Let_def split: prod.split)
  have out: "rs_body (emitStreamOutput s x o') = rs_body s" for s x o'
    by (simp add: emitStreamOutput_def start_child_def Let_def split: prod.split)
  have outs: "rs_body (foldl recordStreamOutput s xs) = rs_body s" for s xs
    by (induction xs arbitrary: s) (simp_all add: recordStreamOutput_def out)
  have fin: "rs_body (foldl bodyDone s rs) = (if rs = [] then rs_body s else Some (last rs))" for s rs
    by (induction rs arbitrary: s) (simp_all add: bodyDone_def)
  show ?thesis by (simp add: report_body_def fin outs token last_drop)
qed

subsection \<open>A whole exchange\<close>

lemma exchange_run:
  assumes "is_recording s" and "\<not> rs_ended s"
    and "rs_body s = (if bo_doneCalls b = [] then None else Some (last (bo_doneCalls b)))"
    and "foldl exchange_step (b, s) ops = (b', s')"
  shows "b' = foldl body_step b ops \<and> later b b' \<and>
    emits_outputs s (drop (length (bo_outputCalls b)) (bo_outputCalls b')) s' \<and>
    rs_body s' = (if bo_doneCalls b' = [] then None else Some (last (bo_doneCalls b')))"
  using assms
proof (induction ops arbitrary: b s)
  case (Cons op ops)
  define b1 where "b1 = body_step b op"
  define s1 where "s1 = report_body b b1 s"
  have run: "foldl exchange_step (b1, s1) ops = (b', s')"
    using Cons.prems(4) by (simp add: exchange_step_def [of "(b, s)"] b1_def s1_def Let_def)
  have step: "emits_outputs s (drop (length (bo_outputCalls b)) (bo_outputCalls b1)) s1"
    unfolding s1_def by (rule report_body_emits [OF Cons.prems(1,2)])
  have b1: "later b b1" unfolding b1_def by (rule body_step_later)
  from b1 have "length (bo_doneCalls b) < length (bo_doneCalls b1) \<longleftrightarrow> bo_doneCalls b1 \<noteq> bo_doneCalls b"
    by (auto simp: later_def extends_def)
  then have "rs_body s1 = (if bo_doneCalls b1 = [] then None else Some (last (bo_doneCalls b1)))"
    using b1 Cons.prems(3) by (auto simp: s1_def report_body_result later_def extends_def)
  note IH = Cons.IH [OF _ _ this run]
  from emits_outputs_recording [OF step] Cons.prems(1,2) have "is_recording s1" "\<not> rs_ended s1" by simp_all
  note rest = IH [OF this, THEN conjunct1] IH [OF this, THEN conjunct2, THEN conjunct1]
    IH [OF this, THEN conjunct2, THEN conjunct2, THEN conjunct1]
    IH [OF this, THEN conjunct2, THEN conjunct2, THEN conjunct2]
  have "drop (length (bo_outputCalls b)) (bo_outputCalls b') =
      drop (length (bo_outputCalls b)) (bo_outputCalls b1) @ drop (length (bo_outputCalls b1)) (bo_outputCalls b')"
    using b1 rest(2) by (auto simp: later_def extends_def)
  with emits_outputs_trans [OF step rest(3)] later_trans [OF b1 rest(2)] rest(1,4) show ?case
    by (auto simp: b1_def)
qed simp

lemma end_request_emits:
  assumes "is_recording s" and "\<not> rs_ended s"
  shows "\<exists>cs. tr_calls (rs_tracer (end_request s env)) = tr_calls (rs_tracer s) @ cs \<and>
    list_all2 (reports_output (rs_span s)) (case rs_body s of Some r \<Rightarrow> br_streamOutputs r | None \<Rightarrow> [])
      (filter is_output_start cs)"
proof -
  define res where "res = (case rs_body s of Some r \<Rightarrow> r | None \<Rightarrow> no_bodyResult)"
  define parsed where "parsed = ParseResponse (br_payload res)"
  define s0 where "s0 = s\<lparr>rs_ended := True\<rparr>"
  define out where "out = request_outcome s0 env res parsed"
  define s3 where "s3 = setServerAttributes (emitPhaseSpans (foldl (emit_rest out) s0 (br_streamOutputs res)) res out) res parsed out"
  have "is_recording s0" using assms by (simp add: s0_def is_recording_def)
  from emits_outputs_trans [OF outputs_emit [OF this, of "br_streamOutputs res" out]
      emits_nothing_trans [OF emitPhaseSpans_emits setServerAttributes_emits]]
  have "emits_outputs s0 (br_streamOutputs res) s3" by (simp add: s3_def)
  from emits_outputs_trans [OF this setExchangeAttributes_emits]
  have all: "emits_outputs s0 (br_streamOutputs res) (setExchangeAttributes s3 env)" by simp
  have "tr_calls (rs_tracer (end_request s env)) =
      tr_calls (rs_tracer (setExchangeAttributes s3 env)) @ [EndSpan (rs_span (setExchangeAttributes s3 env)) None]"
    using assms by (simp add: end_request_def Let_def res_def parsed_def out_def s0_def s3_def on_tracer_def)
  moreover have "(case rs_body s of Some r \<Rightarrow> br_streamOutputs r | None \<Rightarrow> []) = br_streamOutputs res"
    by (simp add: res_def no_bodyResult_def split: option.split)
  moreover have "rs_span s0 = rs_span s" "rs_tracer s0 = rs_tracer s" by (simp_all add: s0_def)
  ultimately show ?thesis using all by (auto simp: emits_outputs_def)
qed

text \<open>
  C1: when a sampled request ends, its trace has exactly one span for every output the observer
  of its response body found, in their order: a child of the server span, named by the kind of
  the output, started when the output did, with the fields of the output as attributes. None is
  lost or reported twice, however the body was read and whatever the outcome.
\<close>

theorem every_output_is_one_span:
  assumes "is_recording s" and "\<not> rs_ended s" and "rs_body s = None"
  shows "let (b, s1) = foldl exchange_step (newBodyObserver stream isopaque, s) ops;
             new_calls = drop (length (tr_calls (rs_tracer s))) (tr_calls (rs_tracer (end_request s1 env)))
         in list_all2 (reports_output (rs_span s)) (all_outputs b) (filter is_output_start new_calls)"
proof -
  let ?b0 = "newBodyObserver stream isopaque"
  obtain b s1 where run: "foldl exchange_step (?b0, s) ops = (b, s1)" by (cases "foldl exchange_step (?b0, s) ops")
  have new: "bo_doneCalls ?b0 = []" "bo_outputCalls ?b0 = []" by (simp_all add: newBodyObserver_def)
  from exchange_run [OF assms(1,2) _ run] assms(3) new
  have b: "b = foldl body_step ?b0 ops" and emitted: "emits_outputs s (bo_outputCalls b) s1"
    and body: "rs_body s1 = (if bo_doneCalls b = [] then None else Some (last (bo_doneCalls b)))" by auto
  have "body_inv b" unfolding b by (rule body.inv_run [OF newBodyObserver_inv])
  then have "length (bo_doneCalls b) \<le> 1" by (simp add: body_inv_def)
  then have last: "concat (map br_streamOutputs (bo_doneCalls b)) =
      (case rs_body s1 of Some r \<Rightarrow> br_streamOutputs r | None \<Rightarrow> [])"
    by (cases "bo_doneCalls b") (simp_all add: body)
  from emits_outputs_recording [OF emitted] assms have "is_recording s1" "\<not> rs_ended s1" by simp_all
  from end_request_emits [OF this, of env] emitted last show ?thesis
    by (auto simp: run all_outputs_def emits_outputs_def keeps_span_def list_all2_appendI)
qed

definition example_stream :: "body_op list" where
  "example_stream =
     [BodyRead ''data: {'' None 8 9, BodyRead [] (Some (GoError [ErrEOF] ''EOF'')) 10 11, BodyClose 12]"

theorem every_output_is_one_span_witness:
  "let (b, s1) = foldl exchange_step (newBodyObserver True False, example_request) example_stream;
       new_calls = drop 2 (tr_calls (rs_tracer (end_request s1 example_env)))
   in list_all2 (reports_output 1) (all_outputs b) (filter is_output_start new_calls)"
proof -
  have "is_recording example_request" "\<not> rs_ended example_request" "rs_body example_request = None"
    "length (tr_calls (rs_tracer example_request)) = 2" "rs_span example_request = 1"
    by (simp_all add: example_request_def is_recording_def)
  with every_output_is_one_span [of example_request True False example_stream example_env] show ?thesis by simp
qed

subsection \<open>Finish reasons\<close>

lemma set_add_reasons: "set (add_reasons reasons rs) = set reasons \<union> (set rs - {[]})"
  by (induction reasons rs rule: add_reasons.induct) auto

text \<open>
  The server span lists the finish reasons of the outputs in the result and of the last payload.
  An output that was reported while the stream ran is never in the result, so its finish
  reason is lost when the last payload does not repeat it, as the usage chunk that ends a chat
  stream does not.
\<close>

lemma reported_finish_reasons_dropped:
  assumes "b = foldl body_step (newBodyObserver stream isopaque) ops"
    and "output \<in> set (bo_outputCalls b)" and "res \<in> set (bo_doneCalls b)"
  shows "output_identity output \<notin> set (map output_identity (br_streamOutputs res)) \<and>
    set (request_finishReasons res parsed) =
      (so_finishReason ` set (br_streamOutputs res) \<union>
       (case parsed of Some p \<Rightarrow> set (gp_finishReasons p) | None \<Rightarrow> {})) - {[]}"
proof -
  have "body_inv b" unfolding assms(1) by (rule body.inv_run [OF newBodyObserver_inv])
  then have "reports (a_limit fresh_acc) fresh_acc (all_outputs b) (bo_accumulator b)" by (simp add: body_inv_def)
  from new_reports_outputs(1) [OF this] have "distinct (map output_identity (all_outputs b))" .
  with assms(2,3) have "output_identity output \<notin> set (map output_identity (br_streamOutputs res))"
    by (auto simp: all_outputs_def)
  then show ?thesis by (auto simp: request_finishReasons_def Let_def set_add_reasons split: option.splits)
qed

lemma usage_chunk_has_no_finish_reason:
  "map_option gp_finishReasons (ParseResponse ''{\"choices\":[],\"usage\":{\"prompt_tokens\":6}}'') = Some []"
  by code_simp

end
