(* ===== verification/Proxy_Safety.thy ===== *)
theory Proxy_Safety
  imports Exchange
begin

text \<open>
  What the handler promises to the client and to upstream: tracing headers of a client that is
  not trusted have no effect, a session groups its requests under one span, and a failure to
  proxy is answered and reported alike.
\<close>

subsection \<open>Serving a request\<close>

lemma traceContext_untrusted:
  "\<not> ho_trustTraceContext opts \<Longrightarrow>
   traceContext hex_id sha256 extract opts header =
     (\<lparr>tc_remote = [], tc_baggage = [], tc_traceID = []\<rparr>, fst (extract header), True)"
  by (simp add: traceContext_def split: prod.split)

lemma traceContext_session:
  "sessionKey hex_id sha256 opts header = Some (sid, tid) \<Longrightarrow>
   traceContext hex_id sha256 extract opts header =
     (\<lparr>tc_remote = fst (extract header), tc_baggage = snd (extract header), tc_traceID = tid\<rparr>, fst (extract header), True)"
  by (simp add: traceContext_def sessionKey_def Let_def split: prod.split if_splits)

lemma sessionKey_untrusted [simp]: "\<not> ho_trustTraceContext opts \<Longrightarrow> sessionKey hex_id sha256 opts header = None"
  by (simp add: sessionKey_def)

text \<open>
  What \<open>serve_instrumented\<close> does, in terms of the header of the request after \<open>PeekRequest\<close>, which
  is the header of the request without its \<open>Content-Length\<close> at most.
\<close>

lemma serve_instrumented_span:
  assumes "serve_instrumented hex_id sha256 extract opts sampled start w r op slot reg = (reg', Instrumented n q)"
    and "hr_header (fst (PeekRequest (in_http r) (ho_requestBodyLimit opts))) = header"
    and "traceContext hex_id sha256 extract opts header = (ctx, incoming, newRoot)"
    and "serve_session hex_id sha256 opts start (fst (boundedModel (fst (snd (PeekRequest (in_http r) (ho_requestBodyLimit opts))))))
           header reg = (reg1, session, sattrs, held)"
  shows "n = slot" and "oq_link q = incoming" and "oq_baggage q = tc_baggage ctx" and "oq_session q = held"
    and "rs_tracer (oq_state q) = rg_tracer reg'"
    and "\<exists>name attrs. (rg_tracer reg', rs_span (oq_state q)) =
           start_span (rg_tracer reg1) name (server_parent ctx newRoot session) start attrs"
    and "rg_sessions reg' = rg_sessions reg1"
    and "\<not> rs_ended (oq_state q)" "\<not> rs_spanEnded (oq_state q)" "rs_body (oq_state q) = None"
proof -
  have start: "start_span (rg_tracer reg1) name p start attrs = (t, i) \<Longrightarrow>
      \<exists>name attrs. (t, i) = start_span (rg_tracer reg1) name p start attrs" for name p attrs t i
    by metis
  from assms show "\<exists>name attrs. (rg_tracer reg', rs_span (oq_state q)) =
       start_span (rg_tracer reg1) name (server_parent ctx newRoot session) start attrs"
    by (auto simp: serve_instrumented_def serve_start_def Let_def split: prod.splits intro: start)
qed (use assms in \<open>auto simp: serve_instrumented_def serve_start_def Let_def split: prod.splits\<close>)

lemma peek_header:
  "k \<noteq> ''Content-Length'' \<Longrightarrow> al_lookup (hr_header (fst (PeekRequest http limit))) k = al_lookup (hr_header http) k"
  by (simp add: PeekRequest_def Let_def split: option.split prod.split)

text \<open>The last call on a tracer: the server span that was started.\<close>

definition started_last :: "tracer \<Rightarrow> nat \<Rightarrow> span_parent \<Rightarrow> bool" where
  "started_last t i parent \<longleftrightarrow>
     (case rev (tr_calls t) of StartSpan j name p start attrs # _ \<Rightarrow> j = i \<and> p = parent | _ \<Rightarrow> False)"

lemma started_last_start: "start_span t name p start attrs = (t', i) \<Longrightarrow> started_last t' i p"
  by (auto simp: start_span_def started_last_def)

text \<open>
  C19: the tracing headers of a client that is not trusted have no effect: its server span is the
  root of a new trace and at most links to the client's span, no session is opened, the request
  carries no baggage, and what goes upstream has none of the client's \<open>traceparent\<close>, \<open>tracestate\<close>
  and \<open>baggage\<close>; every other header stays. The same holds of the header of a request that is passed
  through, to which nothing is added.
\<close>

theorem untrusted_trace_headers_ignored:
  assumes "\<not> ho_trustTraceContext opts"
    and "serve_instrumented hex_id sha256 extract opts sampled start w r op slot reg = (reg', Instrumented n q)"
  shows "started_last (rg_tracer reg') (rs_span (oq_state q)) (NewRoot []) \<and>
    rg_sessions reg' = rg_sessions reg \<and> oq_session q = None \<and> oq_baggage q = [] \<and>
    outgoing_header inject (ho_trustTraceContext opts) (oq_baggage q) span header =
      inject span [] (filter (\<lambda>e. fst e \<notin> {''Traceparent'', ''Tracestate'', ''Baggage''}) header) \<and>
    passthrough_header (ho_trustTraceContext opts) header =
      filter (\<lambda>e. fst e \<notin> {''Traceparent'', ''Tracestate'', ''Baggage''}) header"
proof -
  let ?header = "hr_header (fst (PeekRequest (in_http r) (ho_requestBodyLimit opts)))"
  have ctx: "traceContext hex_id sha256 extract opts ?header =
      (\<lparr>tc_remote = [], tc_baggage = [], tc_traceID = []\<rparr>, fst (extract ?header), True)"
    by (rule traceContext_untrusted [OF assms(1)])
  have session: "serve_session hex_id sha256 opts start model ?header reg = (reg, None, [], None)" for model
    using assms(1) by (simp add: serve_session_def)
  note served = serve_instrumented_span [OF assms(2) refl ctx session]
  from served(6) have "started_last (rg_tracer reg') (rs_span (oq_state q)) (NewRoot [])"
    by (auto simp: server_parent_def dest: started_last_start [OF sym])
  moreover have "header_del ''Baggage'' (stripTraceContextHeaders header) =
      filter (\<lambda>e. fst e \<notin> {''Traceparent'', ''Tracestate'', ''Baggage''}) header"
    by (auto simp: stripTraceContextHeaders_def header_del_def intro: filter_cong)
  ultimately show ?thesis using served(3,4,7) assms(1)
    by (simp add: outgoing_header_def passthrough_header_def stripTraceHeaders_def Let_def)
qed

definition example_incoming :: incoming_request where
  "example_incoming =
     \<lparr>in_method = ''POST'', in_path = ''/v1/embeddings'', in_host = ''localhost'',
      in_http = \<lparr>hr_body = None, hr_contentLength = 0, hr_transferEncoding = [],
        hr_header = [(''Traceparent'', [''00-aa-bb-01'']), (''X-Session-Id'', ['' s1 '']), (''User-Agent'', [''cli''])],
        hr_getBody = None\<rparr>\<rparr>"

definition example_opts :: "bool \<Rightarrow> handler_opts" where
  "example_opts trust =
     \<lparr>ho_modelInSpanName = False, ho_requestBodyLimit = 4, ho_trustTraceContext = trust,
      ho_sessionTraceIDRoots = True, ho_upstream = Some \<lparr>ur_scheme = ''http'', ur_host = ''llama:8080''\<rparr>\<rparr>"

text \<open>An example propagator: it reads and writes \<open>traceparent\<close> as it is.\<close>

definition example_extract :: extractor where
  "example_extract header = (header_get ''Traceparent'' header, [])"

definition example_inject :: "nat \<Rightarrow> bytes \<Rightarrow> http_header \<Rightarrow> http_header" where
  "example_inject span baggage h = header_set ''Traceparent'' (itoa (int span)) h"

definition example_serve :: "bool \<Rightarrow> sessionRegistry \<times> served" where
  "example_serve trust =
     serve_instrumented (\<lambda>_. None) (\<lambda>s. replicate 32 (CHR ''d'')) example_extract (example_opts trust) True 5
       (Writer True True None) example_incoming ''embeddings'' 0 (newSessionRegistry new_tracer 0)"

definition example_served :: "bool \<Rightarrow> observed_request" where
  "example_served trust = (case snd (example_serve trust) of Instrumented n q \<Rightarrow> q | _ \<Rightarrow> undefined)"

lemma example_serve_eq: "example_serve trust = (fst (example_serve trust), Instrumented 0 (example_served trust))"
  by (simp add: example_served_def example_serve_def serve_instrumented_def serve_start_def Let_def split: prod.split)

theorem untrusted_trace_headers_ignored_witness:
  "started_last (rg_tracer (fst (example_serve False))) (rs_span (oq_state (example_served False))) (NewRoot []) \<and>
   outgoing_header example_inject False (oq_baggage (example_served False)) 7 [(''Traceparent'', [''x'']), (''Accept'', [''y''])] =
     [(''Accept'', [''y'']), (''Traceparent'', [''7''])]"
proof -
  have untrusted: "ho_trustTraceContext (example_opts False) = False" by (simp add: example_opts_def)
  have header: "example_inject 7 [] (filter (\<lambda>e. fst e \<notin> {''Traceparent'', ''Tracestate'', ''Baggage''})
      [(''Traceparent'', [''x'']), (''Accept'', [''y''])]) = [(''Accept'', [''y'']), (''Traceparent'', [''7''])]"
    by code_simp
  have "\<not> ho_trustTraceContext (example_opts False)" by (simp add: untrusted)
  note served = untrusted_trace_headers_ignored [OF this example_serve_eq [of False, unfolded example_serve_def [of False]],
        of example_inject 7 "[(''Traceparent'', [''x'']), (''Accept'', [''y''])]"]
  show ?thesis using served unfolding untrusted header example_serve_def by blast
qed

subsection \<open>Sessions\<close>

definition ids_ok :: "sessionRegistry \<Rightarrow> bool" where
  "ids_ok reg \<longleftrightarrow> list_all (\<lambda>e. ss_id (snd e) = fst e) (rg_sessions reg)"

lemma ids_ok_lookup: "ids_ok reg \<Longrightarrow> al_lookup (rg_sessions reg) sid = Some s \<Longrightarrow> ss_id s = sid"
  by (auto simp: ids_ok_def list_all_iff dest!: al_lookup_in)

lemma observed_model_frame [simp]:
  "ss_id (observeModel s m) = ss_id s" "ss_span (observeModel s m) = ss_span s" "ss_refs (observeModel s m) = ss_refs s"
  "ss_requests (observeModel s m) = ss_requests s"
  by (simp_all add: observeModel_def)

lemma acquire_session:
  assumes "ids_ok reg" and "\<not> rg_closed reg" and "acquire reg sid tid start model agent = (reg', res)"
  shows "\<exists>s. res = Some (ss_span s) \<and> al_lookup (rg_sessions reg') sid = Some s \<and>
    (case al_lookup (rg_sessions reg) sid of
       Some s0 \<Rightarrow> ss_span s = ss_span s0 \<and> ss_refs s = ss_refs s0 + 1 \<and> ss_requests s = ss_requests s0 + 1
     | None \<Rightarrow> ss_refs s = 1 \<and> ss_requests s = 1)"
proof -
  obtain r1 s0 where live: "live_or_new reg sid tid start = (r1, s0)" by (cases "live_or_new reg sid tid start")
  have s0: "ss_id s0 = sid" "case al_lookup (rg_sessions reg) sid of Some s \<Rightarrow> s0 = s | None \<Rightarrow> ss_refs s0 = 0 \<and> ss_requests s0 = 0"
    using live ids_ok_lookup [OF assms(1), of sid]
    by (auto simp: live_or_new_def Let_def split: option.splits prod.splits)
  define s1 where "s1 = s0\<lparr>ss_refs := ss_refs s0 + 1, ss_requests := ss_requests s0 + 1\<rparr>"
  define s2 where "s2 = observeModel (if start > ss_last s1 then s1\<lparr>ss_last := start\<rparr> else s1) model"
  define s3 where "s3 = (if ss_userAgent s2 = [] then s2\<lparr>ss_userAgent := agent\<rparr> else s2)\<lparr>ss_timer := None\<rparr>"
  have "reg' = put_session r1 s3" "res = Some (ss_span s3)"
    using assms(2,3) unfolding acquire_def live prod.case Let_def s3_def s2_def s1_def by (auto simp only: if_False prod.inject)
  moreover have "ss_id s3 = ss_id s0" "ss_span s3 = ss_span s0" "ss_refs s3 = ss_refs s0 + 1" "ss_requests s3 = ss_requests s0 + 1"
    by (simp_all add: s1_def s2_def s3_def)
  ultimately show ?thesis using s0 by (simp add: put_session_def split: option.splits)
qed

text \<open>
  A request that names a session is traced in it: while the registry is open, its server span
  is a child of the one span of that session, which the request holds until it releases it, and
  the session counts it; once the registry is closed it is the root of the trace that
  belongs to the session's ID. It links to the span the client sent, if there is one.
\<close>

lemma session_groups_requests:
  assumes "serve_instrumented hex_id sha256 extract opts sampled start w r op slot reg = (reg', Instrumented n q)"
    and "sessionKey hex_id sha256 opts (hr_header (fst (PeekRequest (in_http r) (ho_requestBodyLimit opts)))) = Some (sid, tid)"
    and "ids_ok reg"
  shows "oq_link q = fst (extract (hr_header (fst (PeekRequest (in_http r) (ho_requestBodyLimit opts))))) \<and>
    (if rg_closed reg then started_last (rg_tracer reg') (rs_span (oq_state q)) (NewRoot tid) \<and> oq_session q = None
     else \<exists>s. al_lookup (rg_sessions reg') sid = Some s \<and> oq_session q = Some sid \<and>
       started_last (rg_tracer reg') (rs_span (oq_state q)) (ChildOf (ss_span s)) \<and>
       (case al_lookup (rg_sessions reg) sid of
          Some s0 \<Rightarrow> ss_span s = ss_span s0 \<and> ss_refs s = ss_refs s0 + 1 \<and> ss_requests s = ss_requests s0 + 1
        | None \<Rightarrow> ss_refs s = 1 \<and> ss_requests s = 1))"
proof -
  let ?header = "hr_header (fst (PeekRequest (in_http r) (ho_requestBodyLimit opts)))"
  let ?model = "fst (boundedModel (fst (snd (PeekRequest (in_http r) (ho_requestBodyLimit opts)))))"
  obtain reg1 res where acq: "acquire reg sid tid start ?model (header_get ''User-Agent'' ?header) = (reg1, res)"
    by (cases "acquire reg sid tid start ?model (header_get ''User-Agent'' ?header)")
  have roots: "ho_sessionTraceIDRoots opts" using assms(2) by (simp add: sessionKey_def split: if_splits)
  obtain session sattrs held where
    serve: "serve_session hex_id sha256 opts start ?model ?header reg = (reg1, session, sattrs, held)"
      "session = res" "held = (if res = None then None else Some sid)"
    using acq assms(2) roots by (cases res) (simp_all add: serve_session_def)
  note served = serve_instrumented_span [OF assms(1) refl traceContext_session [OF assms(2)] serve(1)]
  have root: "started_last (rg_tracer reg') (rs_span (oq_state q))
      (case res of Some i \<Rightarrow> ChildOf i | None \<Rightarrow> NewRoot tid)"
    using served(6) serve(2) by (auto simp: server_parent_def dest!: started_last_start [OF sym] split: option.splits)
  show ?thesis
  proof (cases "rg_closed reg")
    case True
    with acq have "res = None" by (simp add: acquire_def)
    with True root served(2,4) serve(3) show ?thesis by simp
  next
    case False
    from acquire_session [OF assms(3) False acq] root served(2,4,7) serve(3) False show ?thesis by auto
  qed
qed

lemma session_groups_requests_witness:
  "\<exists>s. al_lookup (rg_sessions (fst (example_serve True))) ''s1'' = Some s \<and>
     oq_session (example_served True) = Some ''s1'' \<and> ss_refs s = 1 \<and>
     oq_link (example_served True) = ''00-aa-bb-01'' \<and>
     started_last (rg_tracer (fst (example_serve True))) (rs_span (oq_state (example_served True))) (ChildOf (ss_span s))"
proof -
  have header: "hr_header (fst (PeekRequest (in_http example_incoming) (ho_requestBodyLimit (example_opts True)))) =
      [(''Traceparent'', [''00-aa-bb-01'']), (''X-Session-Id'', ['' s1 '']), (''User-Agent'', [''cli''])]"
    by (simp add: PeekRequest_def example_incoming_def)
  have key: "sessionKey (\<lambda>_. None) (\<lambda>s. replicate 32 (CHR ''d'')) (example_opts True)
      (hr_header (fst (PeekRequest (in_http example_incoming) (ho_requestBodyLimit (example_opts True))))) =
      Some (''s1'', replicate 16 (CHR ''d''))"
    unfolding header by code_simp
  have reg: "ids_ok (newSessionRegistry new_tracer 0)" "\<not> rg_closed (newSessionRegistry new_tracer 0)"
    "al_lookup (rg_sessions (newSessionRegistry new_tracer 0)) ''s1'' = None"
    by (simp_all add: ids_ok_def newSessionRegistry_def)
  have link: "fst (example_extract [(''Traceparent'', [''00-aa-bb-01'']), (''X-Session-Id'', ['' s1 '']), (''User-Agent'', [''cli''])]) =
      ''00-aa-bb-01''"
    by code_simp
  from session_groups_requests [OF example_serve_eq [of True, unfolded example_serve_def [of True]] key reg(1)] reg(2,3)
  show ?thesis unfolding header link example_serve_def by auto
qed

subsection \<open>Failures\<close>

definition unanswered :: "requestState \<Rightarrow> bool" where
  "unanswered s \<longleftrightarrow> rs_statusCode s = 0 \<and> \<not> rs_panicRecorded s \<and> rs_upstreamErr s = None \<and>
     \<not> rs_serverSentEvents s \<and> rs_encoding s = [] \<and> rs_body s = None"

lemma no_result_parsed [simp]: "ParseResponse (br_payload no_bodyResult) = None"
  by code_simp

text \<open>
  C21: a request that could not be proxied is answered and reported alike: 503 and \<open>shutdown\<close> when the
  proxy closed it, nothing and \<open>client_cancel\<close> when the client is gone, 504 or 502 and
  \<open>upstream_error\<close> when upstream failed. The exception is a transport that reports a cancellation
  although nobody cancelled the request: nothing is answered and the request is a success.
\<close>

theorem failure_answered_as_reported:
  assumes "unanswered s" and "re_writeErr env = None"
  shows "let (st, answer) = errorHandler (Some s) header (re_cause env) err
    in (map_option (\<lambda>s'. request_outcome s' env no_bodyResult (ParseResponse (br_payload no_bodyResult))) st,
        map_option rep_status answer) =
       (if errors_Is (re_cause env) ErrForcedClose then (Some OutcomeShutdown, Some 503)
        else if re_cause env \<noteq> None then (Some OutcomeClientCancel, None)
        else if errors_Is (Some err) ErrCanceled then (Some OutcomeSuccess, None)
        else (Some OutcomeUpstreamError, Some (if errors_Is (Some err) ErrDeadlineExceeded then 504 else 502)))"
proof -
  have none: "errors_Is None k = False" "cancel_error None = False" for k by (simp_all add: errors_Is_def cancel_error_def)
  have failure: "request_outcome (recordUpstreamFailure s code (Some err)) env no_bodyResult None = OutcomeUpstreamError"
    if "re_cause env = None" for code
    using assms(1) that none
    by (simp add: request_outcome_def recordUpstreamFailure_def recordSpanError_def on_tracer_def unanswered_def Let_def)
  have quiet: "request_outcome s env no_bodyResult None = OutcomeSuccess" if "re_cause env = None"
    using assms that none
    by (simp add: request_outcome_def unanswered_def no_bodyResult_def hasSuccessfulHTTPStatus_def Let_def)
  have calm: "\<not> rs_panicRecorded s" using assms(1) by (simp add: unanswered_def)
  have forced: "request_outcome (recordLocalStatus s 503) env no_bodyResult None = OutcomeShutdown"
    if "errors_Is (re_cause env) ErrForcedClose"
    using calm that by (simp add: request_outcome_def recordLocalStatus_def Let_def)
  have gone: "request_outcome s env no_bodyResult None = OutcomeClientCancel"
    if "\<not> errors_Is (re_cause env) ErrForcedClose" "re_cause env \<noteq> None"
    using calm that by (simp add: request_outcome_def Let_def)
  show ?thesis
  proof (cases "re_cause env")
    case None
    with failure quiet show ?thesis by (simp add: errorHandler_def none)
  next
    case (Some c)
    with forced gone show ?thesis by (simp add: errorHandler_def rejectOverload_def http_Error_def)
  qed
qed

theorem failure_answered_as_reported_witness:
  "map_option rep_status (snd (errorHandler (Some example_request) [] None (GoError [ErrDeadlineExceeded] ''timeout''))) =
     Some 504"
proof -
  have "unanswered example_request" "re_writeErr example_env = None" "re_cause example_env = None"
    by (simp_all add: unanswered_def example_request_def example_env_def)
  with failure_answered_as_reported [of example_request example_env "[]" "GoError [ErrDeadlineExceeded] ''timeout''"]
  show ?thesis by (simp add: errors_Is_def Let_def split: prod.splits)
qed

text \<open>
  The client span of such a request says \<open>client_cancel\<close>, its server span \<open>success\<close>.
\<close>

definition cancelled_transport :: go_error where
  "cancelled_transport = GoError [ErrCanceled] ''context canceled''"

lemma cancelled_transport_is_success:
  "SetAttributes 2 [(AttrOutcome, StrVal (outcome_text OutcomeClientCancel))] \<in>
     set (tr_calls (rs_tracer (fst (roundTrip example_inject False [] example_request [] 8 None (Some (Inl cancelled_transport)))))) \<and>
   (let s = fst (roundTrip example_inject False [] example_request [] 8 None (Some (Inl cancelled_transport)));
        (st, answer) = errorHandler (Some s) [] None cancelled_transport
    in answer = None \<and> request_outcome (the st) example_env no_bodyResult None = OutcomeSuccess)"
  by code_simp

end
