(* ===== verification/Config.thy ===== *)
theory Config
  imports Go_Numbers Trace_Attributes
begin

text \<open>
  The configuration of the proxy (\<open>internal/config/config.go\<close>): its defaults, where its file is
  looked for, its validation, and the redaction of the errors of the YAML library.

  Not under \<open>src/\<close>, and so arguments: the YAML decoder, whose two \<open>Decode\<close> calls are their
  results; the file system (\<open>stat\<close>, \<open>open_file\<close>); and, of the standard library, \<open>url.Parse\<close> and how
  \<open>fmt\<close> prints a \<open>float64\<close>. An error is its text. A map is a list of pairs without repeated
  keys, and a loop over it may meet the pairs in any order. A finite \<open>float64\<close> is its
  significand and its binary exponent. The strings that are compared after \<open>strings.ToLower\<close>
  have no letter that a character outside ASCII has as its lower case.
\<close>

datatype go_float = NaN | Infinity bool | Finite int int

definition float_below_zero :: "go_float \<Rightarrow> bool" where
  "float_below_zero x \<longleftrightarrow> (case x of Finite m e \<Rightarrow> m < 0 | Infinity neg \<Rightarrow> neg | NaN \<Rightarrow> False)"

definition float_above :: "int \<Rightarrow> go_float \<Rightarrow> bool" where
  "float_above n x \<longleftrightarrow>
     (case x of
        Finite m e \<Rightarrow> if e \<ge> 0 then m * 2 ^ nat e > n else m > n * 2 ^ nat (- e)
      | Infinity neg \<Rightarrow> \<not> neg
      | NaN \<Rightarrow> False)"

record parsed_url =
  pu_scheme :: bytes
  pu_user :: bool
  pu_host :: bytes
  pu_path :: bytes
  pu_rawQuery :: bytes
  pu_forceQuery :: bool

type_synonym url_parser = "bytes \<Rightarrow> parsed_url option"
type_synonym 'a or_error = "bytes + 'a"

subsection \<open>The configuration\<close>

definition OTLPProtocolHTTP :: bytes where "OTLPProtocolHTTP = ''http/protobuf''"
definition OTLPProtocolGRPC :: bytes where "OTLPProtocolGRPC = ''grpc''"

record OpenTelemetry =
  ot_serviceName :: bytes
  ot_protocol :: bytes
  ot_endpoint :: bytes
  ot_headers :: "(bytes \<times> bytes) list"
  ot_resourceAttributes :: "(bytes \<times> bytes) list"

record Config =
  cf_listen :: bytes
  cf_upstream :: bytes
  cf_samplePercent :: go_float
  cf_modelInSpanName :: bool
  cf_trustTraceContext :: bool
  cf_maxConcurrentRequests :: int
  cf_maxConcurrentPassthroughRequests :: int
  cf_requestBodyLimitMiB :: int
  cf_requestReadTimeout :: go_time
  cf_sessionIdleTimeout :: go_time
  cf_otel :: OpenTelemetry
  cf_upstreamURL :: "parsed_url option"
  cf_path :: bytes

definition Defaults :: Config where
  "Defaults =
     \<lparr>cf_listen = ''127.0.0.1:8081'', cf_upstream = ''http://127.0.0.1:8080'', cf_samplePercent = Finite 100 0,
      cf_modelInSpanName = False, cf_trustTraceContext = True, cf_maxConcurrentRequests = 16,
      cf_maxConcurrentPassthroughRequests = 128, cf_requestBodyLimitMiB = 4,
      cf_requestReadTimeout = 30 * 1000000000, cf_sessionIdleTimeout = 5 * 60 * 1000000000,
      cf_otel = \<lparr>ot_serviceName = ''llamaproxy'', ot_protocol = OTLPProtocolHTTP, ot_endpoint = ''http://127.0.0.1:4318'',
        ot_headers = [], ot_resourceAttributes = []\<rparr>,
      cf_upstreamURL = None, cf_path = []\<rparr>"

definition NormalizeOTLPProtocol :: "bytes \<Rightarrow> bytes" where
  "NormalizeOTLPProtocol protocol =
     (let p = ascii_lower (trim_space protocol)
      in if p = [] then OTLPProtocolHTTP
         else if p = ''http'' \<or> p = ''https'' \<or> p = ''http/protobuf'' then OTLPProtocolHTTP
         else if p = ''grpc'' then OTLPProtocolGRPC
         else trim_space protocol)"

definition RequestBodyLimit :: "Config \<Rightarrow> int" where
  "RequestBodyLimit c = wrap64 (cf_requestBodyLimitMiB c * 2 ^ 20)"

definition carriesSecrets :: "Config \<Rightarrow> bool" where
  "carriesSecrets c \<longleftrightarrow> length (ot_headers (cf_otel c)) > 0"

text \<open>\<open>SecretsExposed\<close>: the permission bits of the file, if others can read or write it; \<open>stat_mode\<close> are its bits.\<close>

definition SecretsExposed :: "(bytes \<Rightarrow> nat option) \<Rightarrow> Config \<Rightarrow> nat \<times> bool" where
  "SecretsExposed stat_mode c =
     (if cf_path c = [] \<or> \<not> carriesSecrets c then (0, False)
      else case stat_mode (cf_path c) of
        None \<Rightarrow> (0, False)
      | Some mode \<Rightarrow> let perm = mode mod 512 in (perm, perm mod 64 \<noteq> 0))"

subsection \<open>Validation\<close>

definition token_char :: "char \<Rightarrow> bool" where
  "token_char c \<longleftrightarrow>
     (0x61 \<le> byte c \<and> byte c \<le> 0x7A) \<or> (0x41 \<le> byte c \<and> byte c \<le> 0x5A) \<or> (0x30 \<le> byte c \<and> byte c \<le> 0x39) \<or>
     c \<in> set (''!#$%&*+-.^_`|~'' @ [CHR 0x27])"

definition ValidHeaderName :: "bytes \<Rightarrow> bool" where
  "ValidHeaderName name \<longleftrightarrow> name \<noteq> [] \<and> list_all token_char name"

definition ValidHeaderValue :: "bytes \<Rightarrow> bool" where
  "ValidHeaderValue val \<longleftrightarrow> list_all (\<lambda>c. c = CHR 0x09 \<or> \<not> (byte c < 0x20 \<or> byte c = 0x7F)) val"

definition validateHTTPURL :: "url_parser \<Rightarrow> bytes \<Rightarrow> bytes \<Rightarrow> parsed_url or_error" where
  "validateHTTPURL parse field raw =
     (case parse raw of
        None \<Rightarrow> Inl (field @ '': invalid URL'')
      | Some u \<Rightarrow>
          if pu_user u then Inl (field @ '': must not contain credentials'')
          else if pu_scheme u \<noteq> ''http'' \<and> pu_scheme u \<noteq> ''https'' then Inl (field @ '': scheme must be http or https'')
          else if pu_host u = [] then Inl (field @ '': missing host'')
          else if pu_rawQuery u \<noteq> [] \<or> pu_forceQuery u \<or> CHR ''#'' \<in> set raw
          then Inl (field @ '': must not contain a query or fragment'')
          else Inr u)"

definition quoted :: "bytes \<Rightarrow> bytes" where
  "quoted s = CHR 0x22 # s @ [CHR 0x22]"

fun validate_headers :: "(bytes \<times> bytes) list \<Rightarrow> unit or_error" where
  "validate_headers [] = Inr ()"
| "validate_headers ((name, val) # hs) =
     (if \<not> ValidHeaderName name then Inl ''otel.headers: contains an invalid header name''
      else if \<not> ValidHeaderValue val then Inl ''otel.headers: contains an invalid header value''
      else validate_headers hs)"

fun validate_resource :: "(bytes \<times> bytes) list \<Rightarrow> unit or_error" where
  "validate_resource [] = Inr ()"
| "validate_resource ((key, _) # rs) =
     (if key = ''service.name''
      then Inl ''otel.resource_attributes: service.name is reserved; set it through otel.service_name''
      else if has_prefix ''telemetry.sdk.'' key
      then Inl ''otel.resource_attributes: telemetry.sdk.* is reserved for the SDK''
      else validate_resource rs)"

definition validate_endpoint :: "url_parser \<Rightarrow> OpenTelemetry \<Rightarrow> unit or_error" where
  "validate_endpoint parse ot =
     (if ot_endpoint ot = [] then Inr ()
      else case validateHTTPURL parse ''otel.endpoint'' (ot_endpoint ot) of
        Inl e \<Rightarrow> Inl e
      | Inr u \<Rightarrow>
          if ot_protocol ot = OTLPProtocolGRPC \<and> pu_path u \<noteq> [] \<and> pu_path u \<noteq> ''/''
          then Inl ''otel.endpoint: must not carry a path when otel.protocol is grpc'' else Inr ())"

definition validate_limits :: "(go_float \<Rightarrow> bytes) \<Rightarrow> Config \<Rightarrow> unit or_error" where
  "validate_limits show_float c =
     (if cf_samplePercent c = NaN \<or> (case cf_samplePercent c of Infinity neg \<Rightarrow> True | _ \<Rightarrow> False)
      then Inl (''sample_percent: must be a finite number, got '' @ show_float (cf_samplePercent c))
      else if float_below_zero (cf_samplePercent c) \<or> float_above 100 (cf_samplePercent c)
      then Inl (''sample_percent: must be within 0..100, got '' @ show_float (cf_samplePercent c))
      else if cf_maxConcurrentRequests c \<le> 0 then Inl ''max_concurrent_requests: must be greater than zero''
      else if cf_maxConcurrentPassthroughRequests c \<le> 0
      then Inl ''max_concurrent_passthrough_requests: must be greater than zero''
      else if cf_requestBodyLimitMiB c \<le> 0 then Inl ''request_body_limit_mib: must be greater than zero''
      else if cf_requestBodyLimitMiB c > 512
      then Inl (''request_body_limit_mib: must be at most 512, got '' @ itoa (cf_requestBodyLimitMiB c))
      else if cf_requestReadTimeout c \<le> 0 then Inl ''request_read_timeout: must be greater than zero''
      else if cf_sessionIdleTimeout c \<le> 0 then Inl ''session_idle_timeout: must be greater than zero''
      else if trim_space (ot_serviceName (cf_otel c)) = [] then Inl ''otel.service_name: must not be empty''
      else if ot_protocol (cf_otel c) \<noteq> OTLPProtocolHTTP \<and> ot_protocol (cf_otel c) \<noteq> OTLPProtocolGRPC
      then Inl (''otel.protocol: must be '' @ quoted OTLPProtocolHTTP @ '' or '' @ quoted OTLPProtocolGRPC)
      else Inr ())"

text \<open>The first error of the checks, in the order of the code; otherwise the parsed upstream is stored.\<close>

definition and_then :: "unit or_error \<Rightarrow> 'a or_error \<Rightarrow> 'a or_error" where
  "and_then a b = (case a of Inl e \<Rightarrow> Inl e | Inr u \<Rightarrow> b)"

definition validate :: "url_parser \<Rightarrow> (go_float \<Rightarrow> bytes) \<Rightarrow> Config \<Rightarrow> Config or_error" where
  "validate parse show_float c =
     (if cf_listen c = [] then Inl ''listen: must not be empty''
      else if cf_upstream c = [] then Inl ''upstream: must not be empty''
      else case validateHTTPURL parse ''upstream'' (cf_upstream c) of
        Inl e \<Rightarrow> Inl e
      | Inr u \<Rightarrow>
          let c1 = c\<lparr>cf_upstreamURL := Some u\<rparr>
          in and_then (validate_limits show_float c1)
               (and_then (validate_endpoint parse (cf_otel c1))
                 (and_then (validate_headers (ot_headers (cf_otel c1)))
                   (and_then (validate_resource (ot_resourceAttributes (cf_otel c1))) (Inr c1)))))"

subsection \<open>Errors of the YAML library\<close>

definition nonspace :: "char \<Rightarrow> bool" where
  "nonspace c \<longleftrightarrow> c \<notin> set [CHR 0x09, CHR 0x0A, CHR 0x0C, CHR 0x0D, CHR 0x20]"

text \<open>
  The three regular expressions, as the groups of their match. A word ends at the first white
  space, and the type at the end of a message is what follows its last white space.
\<close>

definition match_linePrefix :: "bytes \<Rightarrow> (bytes \<times> bytes) option" where
  "match_linePrefix msg =
     (if \<not> has_prefix ''line '' msg then None
      else
        let rest = trim_prefix ''line '' msg; n = takeWhile digit rest; tl = dropWhile digit rest
        in if n \<noteq> [] \<and> has_prefix '': '' tl \<and> CHR 0x0A \<notin> set (trim_prefix '': '' tl)
           then Some (n, trim_prefix '': '' tl) else None)"

definition last_word :: "bytes \<Rightarrow> bytes" where
  "last_word s = rev (takeWhile nonspace (rev s))"

definition match_cannotType :: "bytes \<Rightarrow> (bytes \<times> bytes) option" where
  "match_cannotType msg =
     (if \<not> has_prefix ''cannot unmarshal '' msg then None
      else
        let rest = trim_prefix ''cannot unmarshal '' msg;
            tag = takeWhile nonspace rest; tl = dropWhile nonspace rest; t = last_word tl
        in if tag \<noteq> [] \<and> t \<noteq> [] \<and> has_prefix '' '' tl \<and> has_suffix ('' into '' @ t) tl \<and>
              CHR 0x0A \<notin> set (trim_suffix ('' into '' @ t) tl)
           then Some (tag, t) else None)"

definition match_unknownField :: "bytes \<Rightarrow> bytes option" where
  "match_unknownField msg =
     (if \<not> has_prefix ''field '' msg then None
      else
        let rest = trim_prefix ''field '' msg; tl = dropWhile nonspace rest
        in if takeWhile nonspace rest \<noteq> [] \<and> has_prefix '' not found in type '' tl then
             let t = trim_prefix '' not found in type '' tl
             in if t \<noteq> [] \<and> list_all nonspace t then Some t else None
           else None)"

definition yamlStandardTags :: "bytes list" where
  "yamlStandardTags =
     [''!!str'', ''!!int'', ''!!float'', ''!!bool'', ''!!null'', ''!!seq'', ''!!map'', ''!!binary'',
      ''!!timestamp'', ''!!merge'']"

definition safe_body :: "bytes \<Rightarrow> bytes" where
  "safe_body msg =
     (case match_cannotType msg of
        Some (tag, t) \<Rightarrow>
          if tag \<in> set yamlStandardTags then ''cannot unmarshal '' @ tag @ '' into '' @ t
          else ''cannot unmarshal into '' @ t
      | None \<Rightarrow>
          (case match_unknownField msg of
             Some t \<Rightarrow> ''unknown key in type '' @ t
           | None \<Rightarrow> ''invalid YAML''))"

definition safeYAMLMessage :: "bytes \<Rightarrow> bytes" where
  "safeYAMLMessage msg =
     (case match_linePrefix msg of
        Some (n, rest) \<Rightarrow> ''line '' @ n @ '': '' @ safe_body rest
      | None \<Rightarrow> safe_body msg)"

text \<open>An error of the decoder: a \<open>yaml.TypeError\<close> with its lines, or any other with its text.\<close>

datatype yaml_error = YamlTypeError "bytes list" | YamlError bytes

definition redactYAMLError :: "yaml_error \<Rightarrow> bytes" where
  "redactYAMLError err =
     (case err of
        YamlTypeError lines \<Rightarrow> ''yaml: '' @ join_with ''; '' (map safeYAMLMessage lines)
      | YamlError msg \<Rightarrow> ''yaml: '' @ safeYAMLMessage (trim_prefix ''yaml: '' msg))"

subsection \<open>Loading\<close>

text \<open>
  What the decoder answers: the first call fills the configuration it is given, the second looks
  for another document. An error says whether it is \<open>io.EOF\<close>.
\<close>

datatype 'a decoded = Decoded 'a | DecodeEOF | DecodeFailed yaml_error

definition parse_config :: "(Config \<Rightarrow> Config decoded) \<Rightarrow> unit decoded \<Rightarrow> Config \<Rightarrow> Config or_error" where
  "parse_config decode next base =
     (case decode base of
        DecodeEOF \<Rightarrow> Inr base
      | DecodeFailed err \<Rightarrow> Inl (redactYAMLError err)
      | Decoded c \<Rightarrow>
          (case next of
             DecodeEOF \<Rightarrow> Inr c
           | DecodeFailed err \<Rightarrow> Inl (redactYAMLError err)
           | Decoded _ \<Rightarrow> Inl ''file contains more than one YAML document''))"

text \<open>\<open>os.Stat\<close>: the file is there, it does not exist, or another error.\<close>

datatype stat_result = Exists | NotExist bytes | StatError bytes

definition LocalPath :: bytes where "LocalPath = ''config.yaml''"
definition SystemPath :: bytes where "SystemPath = ''/etc/llama-otel-proxy/config.yaml''"

definition config_error :: "bytes \<Rightarrow> bytes \<Rightarrow> bytes" where
  "config_error path err = ''config '' @ path @ '': '' @ err"

fun find_first :: "(bytes \<Rightarrow> stat_result) \<Rightarrow> bytes list \<Rightarrow> bytes or_error" where
  "find_first stat [] = Inr []"
| "find_first stat (p # ps) =
     (case stat p of
        Exists \<Rightarrow> Inr p
      | NotExist _ \<Rightarrow> find_first stat ps
      | StatError e \<Rightarrow> Inl (config_error p e))"

definition find_config :: "(bytes \<Rightarrow> stat_result) \<Rightarrow> bytes \<Rightarrow> bytes or_error" where
  "find_config stat explicitPath =
     (if explicitPath \<noteq> [] then
        (case stat explicitPath of
           Exists \<Rightarrow> Inr explicitPath
         | NotExist e \<Rightarrow> Inl (config_error explicitPath e)
         | StatError e \<Rightarrow> Inl (config_error explicitPath e))
      else find_first stat [LocalPath, SystemPath])"

text \<open>A file that could be opened is what the decoder answers on it.\<close>

record config_env =
  ce_stat :: "bytes \<Rightarrow> stat_result"
  ce_open :: "bytes \<Rightarrow> ((Config \<Rightarrow> Config decoded) \<times> unit decoded) or_error"
  ce_url :: url_parser
  ce_show :: "go_float \<Rightarrow> bytes"

definition load_file :: "config_env \<Rightarrow> bytes \<Rightarrow> Config or_error" where
  "load_file env path =
     (if path = [] then Inr Defaults
      else case ce_open env path of
        Inl e \<Rightarrow> Inl (config_error path e)
      | Inr (decode, next) \<Rightarrow>
          (case parse_config decode next Defaults of
             Inl e \<Rightarrow> Inl (config_error path e)
           | Inr c \<Rightarrow> Inr (c\<lparr>cf_path := path\<rparr>)))"

definition Load :: "config_env \<Rightarrow> bytes \<Rightarrow> Config or_error" where
  "Load env explicitPath =
     (case find_config (ce_stat env) explicitPath of
        Inl e \<Rightarrow> Inl e
      | Inr path \<Rightarrow>
          (case load_file env path of
             Inl e \<Rightarrow> Inl e
           | Inr c0 \<Rightarrow>
               let c = c0\<lparr>cf_otel := (cf_otel c0)\<lparr>ot_protocol := NormalizeOTLPProtocol (ot_protocol (cf_otel c0))\<rparr>\<rparr>
               in case validate (ce_url env) (ce_show env) c of
                    Inl e \<Rightarrow> Inl (if path \<noteq> [] then config_error path e else e)
                  | Inr c' \<Rightarrow> Inr c'))"

end
