(* ===== verification/Reverse_Proxy.thy ===== *)
theory Reverse_Proxy
  imports Proxy_Safety Config
begin

text \<open>
  What the reverse proxy that \<open>New\<close> of \<open>internal/proxy/proxy.go\<close> makes sends upstream: its \<open>Rewrite\<close>
  function with the parts of \<open>net/http/httputil\<close> it uses, \<open>SetURL\<close> and \<open>SetXForwarded\<close>; what
  \<open>ReverseProxy.ServeHTTP\<close> of that package does to a request before and after it, the hop-by-hop headers
  included; what the transport of the proxy does to its header; and its buffer pool.

  Of the standard library, the cleaning of a query (\<open>clean\<close>) and \<open>URL.EscapedPath\<close> (\<open>escaped\<close>, of a path
  and its raw form) are arguments.
\<close>

subsection \<open>URLs\<close>

text \<open>The URL of a request or of the upstream: \<open>url\<close> with a path, its raw form if it has one, and a query.\<close>

record full_url = url +
  fu_path :: bytes
  fu_rawPath :: bytes
  fu_rawQuery :: bytes

definition singleJoiningSlash :: "bytes \<Rightarrow> bytes \<Rightarrow> bytes" where
  "singleJoiningSlash a b =
     (if has_suffix ''/'' a \<and> has_prefix ''/'' b then a @ drop 1 b
      else if \<not> has_suffix ''/'' a \<and> \<not> has_prefix ''/'' b then a @ ''/'' @ b
      else a @ b)"

definition joinURLPath :: "(bytes \<Rightarrow> bytes \<Rightarrow> bytes) \<Rightarrow> full_url \<Rightarrow> full_url \<Rightarrow> bytes \<times> bytes" where
  "joinURLPath escaped a b =
     (if fu_rawPath a = [] \<and> fu_rawPath b = [] then (singleJoiningSlash (fu_path a) (fu_path b), [])
      else
        let apath = escaped (fu_path a) (fu_rawPath a);
            bpath = escaped (fu_path b) (fu_rawPath b)
        in if has_suffix ''/'' apath \<and> has_prefix ''/'' bpath then (fu_path a @ drop 1 (fu_path b), apath @ drop 1 bpath)
           else if \<not> has_suffix ''/'' apath \<and> \<not> has_prefix ''/'' bpath
           then (fu_path a @ ''/'' @ fu_path b, apath @ ''/'' @ bpath)
           else (fu_path a @ fu_path b, apath @ bpath))"

definition rewriteRequestURL :: "(bytes \<Rightarrow> bytes \<Rightarrow> bytes) \<Rightarrow> full_url \<Rightarrow> full_url \<Rightarrow> full_url" where
  "rewriteRequestURL escaped target u =
     (let (path, rawPath) = joinURLPath escaped target u
      in \<lparr>ur_scheme = ur_scheme target, ur_host = ur_host target, fu_path = path, fu_rawPath = rawPath,
          fu_rawQuery =
            (if fu_rawQuery target = [] \<or> fu_rawQuery u = [] then fu_rawQuery target @ fu_rawQuery u
             else fu_rawQuery target @ ''&'' @ fu_rawQuery u)\<rparr>)"

subsection \<open>The request sent upstream\<close>

text \<open>
  A request as the reverse proxy is given it: \<open>cr_clientIP\<close> is the host of \<open>RemoteAddr\<close> if it has the
  form \<open>net.SplitHostPort\<close> reads.
\<close>

record client_request = incoming_request +
  cr_url :: full_url
  cr_clientIP :: "bytes option"
  cr_tls :: bool

record outgoing_request =
  og_url :: full_url
  og_host :: bytes
  og_header :: http_header

definition SetURL :: "(bytes \<Rightarrow> bytes \<Rightarrow> bytes) \<Rightarrow> full_url \<Rightarrow> outgoing_request \<Rightarrow> outgoing_request" where
  "SetURL escaped target out = out\<lparr>og_url := rewriteRequestURL escaped target (og_url out), og_host := []\<rparr>"

definition SetXForwarded :: "client_request \<Rightarrow> http_header \<Rightarrow> http_header" where
  "SetXForwarded c h =
     (let prior = header_values_of ''X-Forwarded-For'' h;
          h1 = (case cr_clientIP c of
                  Some ip \<Rightarrow> header_set ''X-Forwarded-For'' (concat (map (\<lambda>v. v @ '', '') prior) @ ip) h
                | None \<Rightarrow> header_del ''X-Forwarded-For'' h)
      in header_set ''X-Forwarded-Proto'' (if cr_tls c then ''https'' else ''http'')
           (header_set ''X-Forwarded-Host'' (in_host c) h1))"

text \<open>\<open>Rewrite\<close>, \<open>instrumented\<close> when the context of the request has a request state.\<close>

definition Rewrite ::
    "(bytes \<Rightarrow> bytes \<Rightarrow> bytes) \<Rightarrow> full_url \<Rightarrow> bool \<Rightarrow> client_request \<Rightarrow> outgoing_request \<Rightarrow> outgoing_request" where
  "Rewrite escaped upstream instrumented c out =
     (let out1 = SetURL escaped upstream out;
          out2 = out1\<lparr>og_header := SetXForwarded c (og_header out1)\<rparr>
      in if instrumented then out2\<lparr>og_header := header_set ''Accept-Encoding'' ''identity'' (og_header out2)\<rparr> else out2)"

subsection \<open>Hop-by-hop headers\<close>

text \<open>\<open>http.CanonicalHeaderKey\<close>: names that are no tokens stay as they are.\<close>

definition lower_char :: "char \<Rightarrow> char" where
  "lower_char c = (if 0x41 \<le> byte c \<and> byte c \<le> 0x5A then char_of (byte c + 0x20) else c)"

fun canonical_words :: "bool \<Rightarrow> bytes \<Rightarrow> bytes" where
  "canonical_words upper [] = []"
| "canonical_words upper (c # cs) = (if upper then ascii_upper c else lower_char c) # canonical_words (c = CHR ''-'') cs"

definition CanonicalHeaderKey :: "bytes \<Rightarrow> bytes" where
  "CanonicalHeaderKey s = (if list_all token_char s then canonical_words True s else s)"

text \<open>The names a \<open>Connection\<close> header lists; a comma separates them.\<close>

definition list_items :: "(char \<Rightarrow> bool) \<Rightarrow> bytes list \<Rightarrow> bytes list" where
  "list_items space vs =
     map (\<lambda>s. rev (dropWhile space (rev (dropWhile space s)))) (concat (map (split_char (CHR '','')) vs))"

definition connection_names :: "http_header \<Rightarrow> bytes list" where
  "connection_names h = map CanonicalHeaderKey (filter (\<lambda>s. s \<noteq> []) (list_items json_space (header_values_of ''Connection'' h)))"

text \<open>\<open>httpguts.HeaderValuesContainsToken\<close>.\<close>

definition contains_token :: "bytes list \<Rightarrow> bytes \<Rightarrow> bool" where
  "contains_token vs token \<longleftrightarrow>
     list_ex (\<lambda>s. ascii_lower s = ascii_lower token) (list_items (\<lambda>c. c = CHR '' '' \<or> c = CHR 0x09) vs)"

definition hop_headers :: "bytes list" where
  "hop_headers =
     [''Connection'', ''Proxy-Connection'', ''Keep-Alive'', ''Proxy-Authenticate'', ''Proxy-Authorization'', ''Te'',
      ''Trailer'', ''Transfer-Encoding'', ''Upgrade'']"

definition removeHopByHopHeaders :: "http_header \<Rightarrow> http_header" where
  "removeHopByHopHeaders h = foldl (\<lambda>h k. header_del k h) h (connection_names h @ hop_headers)"

definition upgradeType :: "http_header \<Rightarrow> bytes" where
  "upgradeType h = (if contains_token (header_values_of ''Connection'' h) ''Upgrade'' then header_get ''Upgrade'' h else [])"

subsection \<open>The whole way upstream\<close>

definition strip_forwarding :: "http_header \<Rightarrow> http_header" where
  "strip_forwarding h =
     header_del ''X-Forwarded-Proto'' (header_del ''X-Forwarded-Host''
       (header_del ''X-Forwarded-For'' (header_del ''Forwarded'' h)))"

definition hop_by_hop :: "http_header \<Rightarrow> http_header" where
  "hop_by_hop h =
     (let h1 = removeHopByHopHeaders h;
          h2 = (if contains_token (header_values_of ''Te'' h) ''trailers'' then header_set ''Te'' ''trailers'' h1 else h1)
      in if upgradeType h \<noteq> []
         then header_set ''Upgrade'' (upgradeType h) (header_set ''Connection'' ''Upgrade'' h2) else h2)"

text \<open>\<open>ReverseProxy.ServeHTTP\<close> up to the transport; a protocol that is not printable is not proxied.\<close>

definition reverse_proxy ::
    "(bytes \<Rightarrow> bytes) \<Rightarrow> (bytes \<Rightarrow> bytes \<Rightarrow> bytes) \<Rightarrow> full_url \<Rightarrow> bool \<Rightarrow> client_request \<Rightarrow> outgoing_request option" where
  "reverse_proxy clean escaped upstream instrumented c =
     (let u = cr_url c; h = hr_header (in_http c);
          out0 = \<lparr>og_url = u\<lparr>fu_rawQuery := clean (fu_rawQuery u)\<rparr>, og_host = in_host c,
                  og_header = strip_forwarding (hop_by_hop h)\<rparr>;
          out = Rewrite escaped upstream instrumented c out0
      in if \<not> list_all (\<lambda>x. 0x20 \<le> byte x \<and> byte x \<le> 0x7E) (upgradeType h) then None
         else Some (if al_lookup (og_header out) ''User-Agent'' = None
                    then out\<lparr>og_header := header_set ''User-Agent'' [] (og_header out)\<rparr> else out))"



definition connection_headers :: "http_header \<Rightarrow> bytes set" where
  "connection_headers h = set (connection_names h) \<union> set hop_headers"

definition trace_headers :: "bytes set" where
  "trace_headers = {''Traceparent'', ''Tracestate'', ''Baggage''}"



lemma lookup_set [simp]: "al_lookup (header_set k v h) k' = (if k' = k then Some [v] else al_lookup h k')"
  by (simp add: header_set_def)






text \<open>The transport changes the headers of a trace only.\<close>

lemma trace_headers_mem [simp]: "''Traceparent'' \<in> trace_headers" "''Tracestate'' \<in> trace_headers" "''Baggage'' \<in> trace_headers"
  by (simp_all add: trace_headers_def)



lemma connection_headers_mem [simp]:
  "''Upgrade'' \<in> connection_headers h" "''Connection'' \<in> connection_headers h" "''Te'' \<in> connection_headers h"
  by (simp_all add: connection_headers_def hop_headers_def)









text \<open>With an upstream that has no path of its own the path and the query stay as they are.\<close>

lemma upstream_path_kept:
  assumes "fu_path upstream \<in> {[], ''/''}" and "fu_rawPath upstream = []" and "fu_rawQuery upstream = []"
    and "fu_rawPath (cr_url c) = []" and "has_prefix ''/'' (fu_path (cr_url c))"
    and "reverse_proxy clean escaped upstream instrumented c = Some out"
  shows "og_url out =
    \<lparr>ur_scheme = ur_scheme upstream, ur_host = ur_host upstream, fu_path = fu_path (cr_url c), fu_rawPath = [],
     fu_rawQuery = clean (fu_rawQuery (cr_url c))\<rparr>"
  using assms
  by (auto simp: reverse_proxy_def Rewrite_def SetURL_def rewriteRequestURL_def joinURLPath_def singleJoiningSlash_def
    has_prefix_iff has_suffix_def Let_def split: if_splits)

subsection \<open>The buffer pool\<close>

text \<open>
  A buffer is its identity and its length. \<open>sync.Pool\<close> offers any buffer it has kept or none, and
  may drop what it keeps.
\<close>

record bufferPool =
  bp_kept :: "(nat \<times> nat) list"
  bp_next :: nat

definition newBufferPool :: bufferPool where
  "newBufferPool = \<lparr>bp_kept = [], bp_next = 0\<rparr>"

definition bufferSize :: nat where "bufferSize = 32 * 1024"

definition pool_get :: "(nat \<times> nat) option \<Rightarrow> bufferPool \<Rightarrow> bufferPool \<times> nat \<times> nat" where
  "pool_get offered p =
     (case offered of
        Some b \<Rightarrow> (p\<lparr>bp_kept := remove1 b (bp_kept p)\<rparr>, b)
      | None \<Rightarrow> (p\<lparr>bp_next := Suc (bp_next p)\<rparr>, bp_next p, bufferSize))"

definition pool_put :: "nat \<times> nat \<Rightarrow> bufferPool \<Rightarrow> bufferPool" where
  "pool_put b p = p\<lparr>bp_kept := b # bp_kept p\<rparr>"

text \<open>The pool with the buffers that responses are being copied with.\<close>

inductive pool_step :: "bufferPool \<times> (nat \<times> nat) list \<Rightarrow> bufferPool \<times> (nat \<times> nat) list \<Rightarrow> bool" where
  get: "offered = None \<or> (\<exists>b \<in> set (bp_kept p). offered = Some b) \<Longrightarrow> pool_get offered p = (p', b) \<Longrightarrow>
    pool_step (p, used) (p', b # used)"
| put: "b \<in> set used \<Longrightarrow> pool_step (p, used) (pool_put b p, remove1 b used)"
| drop: "pool_step (p, used) (p\<lparr>bp_kept := remove1 b (bp_kept p)\<rparr>, used)"

definition buffers_ok :: "nat \<Rightarrow> (nat \<times> nat) list \<Rightarrow> bool" where
  "buffers_ok n bs \<longleftrightarrow> distinct (map fst bs) \<and> (\<forall>b \<in> set bs. fst b < n \<and> snd b = bufferSize)"

definition pool_inv :: "bufferPool \<times> (nat \<times> nat) list \<Rightarrow> bool" where
  "pool_inv pu = buffers_ok (bp_next (fst pu)) (bp_kept (fst pu) @ snd pu)"

lemma buffers_ok_perm: "mset xs = mset ys \<Longrightarrow> buffers_ok n xs = buffers_ok n ys"
proof -
  assume xs: "mset xs = mset ys"
  then have "mset (map fst xs) = mset (map fst ys)" by simp
  then have "distinct (map fst xs) = distinct (map fst ys)" by (rule mset_eq_imp_distinct_iff)
  with mset_eq_setD [OF xs] show ?thesis by (simp add: buffers_ok_def)
qed

lemma buffers_ok_remove1:
  assumes "buffers_ok n (xs @ ys)"
  shows "buffers_ok n (remove1 b xs @ ys)"
proof -
  have "set (remove1 b xs) \<subseteq> set xs" by (rule set_remove1_subset)
  moreover have "distinct (map fst (remove1 b xs))"
    using assms by (simp add: buffers_ok_def distinct_map inj_on_def distinct_remove1)
  ultimately show ?thesis using assms unfolding buffers_ok_def map_append distinct_append set_append set_map by blast
qed

lemma buffers_ok_fresh:
  assumes "buffers_ok n (xs @ ys)"
  shows "buffers_ok (Suc n) (xs @ (n, bufferSize) # ys)"
proof -
  have less: "\<forall>b \<in> set (xs @ ys). fst b < n" using assms by (simp add: buffers_ok_def)
  then have "n \<notin> fst ` set (xs @ ys)" by (metis (no_types, lifting) image_iff less_irrefl)
  with assms less show ?thesis by (simp add: buffers_ok_def less_Suc_eq image_Un)
qed

lemma pool_step_inv:
  assumes "pool_inv pu" and "pool_step pu qv"
  shows "pool_inv qv"
  using assms(2)
proof cases
  case (get offered p p' b used)
  show ?thesis
  proof (cases offered)
    case None
    with get assms(1) buffers_ok_fresh show ?thesis by (auto simp: pool_get_def pool_inv_def)
  next
    case (Some a)
    with get have b: "a = b" "b \<in> set (bp_kept p)" "p' = p\<lparr>bp_kept := remove1 b (bp_kept p)\<rparr>" by (auto simp: pool_get_def)
    then have "mset (remove1 b (bp_kept p) @ b # used) = mset (bp_kept p @ used)" by simp
    from buffers_ok_perm [OF this] b get(1,2) assms(1) show ?thesis by (simp add: pool_inv_def)
  qed
next
  case (put b used p)
  then have "mset ((b # bp_kept p) @ remove1 b used) = mset (bp_kept p @ used)" by simp
  from buffers_ok_perm [OF this] put(1,2) assms(1) show ?thesis by (simp add: pool_inv_def pool_put_def)
next
  case (drop p used b)
  with assms(1) buffers_ok_remove1 show ?thesis by (simp add: pool_inv_def)
qed

interpretation buffers: transition_system pool_step "\<lambda>pu. pu = (newBufferPool, [])" pool_inv
  by unfold_locales (simp_all add: pool_step_inv, simp add: pool_inv_def buffers_ok_def newBufferPool_def)

text \<open>No two responses are copied with one buffer at the same time, and every buffer has its full size.\<close>

lemma buffers_not_shared:
  assumes "pool_step\<^sup>*\<^sup>* (newBufferPool, []) (p, used)"
  shows "distinct (map fst used)" "b \<in> set used \<Longrightarrow> snd b = bufferSize"
  using buffers.reachable_inv [OF refl assms] by (auto simp: pool_inv_def buffers_ok_def)

end
