(* ===== verification/Session_Sharing.thy ===== *)
theory Session_Sharing
  imports Session_Safety Request_Safety
begin

text \<open>
  The session registry (\<open>internal/proxy/session.go\<close>) on a tracer that requests write to as well:
  what its operations keep of a session in use, and what the operations of a request
  (\<open>internal/proxy/state.go\<close>) keep of the registry.
\<close>

subsection \<open>Sessions in use\<close>

text \<open>The log of calls grows, and a session that is referred to stays, with its span, until the registry is closed.\<close>

definition keeps_sessions :: "sessionRegistry \<Rightarrow> sessionRegistry \<Rightarrow> bool" where
  "keeps_sessions r r' \<longleftrightarrow>
     extends (tr_calls (rg_tracer r)) (tr_calls (rg_tracer r')) \<and> (rg_closed r \<longrightarrow> rg_closed r') \<and>
     (\<forall>k s. \<not> rg_closed r' \<longrightarrow> al_lookup (rg_sessions r) k = Some s \<longrightarrow> ss_refs s > 0 \<longrightarrow>
        (\<exists>s'. al_lookup (rg_sessions r') k = Some s' \<and> ss_span s' = ss_span s))"

lemma keeps_sessions_refl [simp]: "keeps_sessions r r"
  by (simp add: keeps_sessions_def)

lemma finishLocked_extends: "extends (tr_calls (rg_tracer r)) (tr_calls (rg_tracer (finishLocked r s reason)))"
  by (simp add: finishLocked_eq)

lemma evict_rounds_extends: "extends (tr_calls (rg_tracer r)) (tr_calls (rg_tracer (evict_rounds n r)))"
proof (induction n r rule: evict_rounds.induct)
  case (2 n r)
  have "extends (tr_calls (rg_tracer r)) (tr_calls (rg_tracer (evict_rounds n (finishLocked r s SessionEndEvicted))))"
    if "length (rg_sessions r) \<ge> maxTrackedSessions" "oldest_idle None (rg_sessions r) = Some s" for s
    using extends_trans [OF finishLocked_extends "2.IH" [OF that]] .
  then show ?case by (simp split: option.split)
qed simp

lemma evictLocked_keeps:
  assumes "registry_inv_among others timed r"
  shows "keeps_sessions r (evictLocked r)"
proof -
  have ev: "evicts others timed r (evictLocked r)" by (rule evictLocked_evicts [OF assms])
  have "al_lookup (rg_sessions (evictLocked r)) k = Some s" if "al_lookup (rg_sessions r) k = Some s" "ss_refs s > 0" for k s
  proof -
    have "(k, s) \<in> set (rg_sessions (evictLocked r))" using ev that al_lookup_in [OF that(1)] by (auto simp: evicts_def)
    with ev show ?thesis by (simp add: evicts_def registry_inv_among_def al_lookup_iff)
  qed
  with ev evict_rounds_extends [of r] show ?thesis by (auto simp: keeps_sessions_def evicts_def evictLocked_def)
qed

lemma acquire_keeps:
  assumes inv: "registry_inv_among others timed r" and acq: "acquire r sid tid start model ua = (r', res)"
  shows "keeps_sessions r r'"
proof (cases "rg_closed r")
  case True
  with acq show ?thesis by (simp add: acquire_def)
next
  case open_: False
  show ?thesis
  proof (cases "al_lookup (rg_sessions r) sid")
    case (Some s)
    with registry_lookup [OF inv Some] have "ss_id s = sid" by (simp add: session_ok_def)
    with acquire_live [OF open_ Some] acq Some show ?thesis by (auto simp: keeps_sessions_def)
  next
    case None
    obtain t i where st: "start_span (rg_tracer (evictLocked r)) SpanSession (NewRoot tid) start (session_attrs sid) = (t, i)"
      by force
    then have "extends (tr_calls (rg_tracer (evictLocked r))) (tr_calls t)" by (auto simp: start_span_def)
    with evictLocked_keeps [OF inv] acquire_new [OF open_ None st] acq None show ?thesis
      by (auto simp: keeps_sessions_def fresh_session_def intro: extends_trans)
  qed
qed

lemma release_keeps:
  assumes "registry_inv_among others timed r"
  shows "keeps_sessions r (release r sid at)"
proof (cases "al_lookup (rg_sessions r) sid")
  case (Some s)
  with registry_lookup [OF assms Some] have "ss_id s = sid" by (simp add: session_ok_def)
  with Some show ?thesis by (auto simp: keeps_sessions_def release_def Let_def armLocked_def)
qed (simp add: release_def)

lemma expire_keeps:
  assumes "registry_inv_among others timed r"
  shows "keeps_sessions r (expire r sid now)"
proof (cases "al_lookup (rg_sessions r) sid")
  case (Some s)
  with registry_lookup [OF assms Some] have "ss_id s = sid" by (simp add: session_ok_def)
  with Some finishLocked_extends [of r s] show ?thesis
    by (auto simp: keeps_sessions_def expire_def Let_def armLocked_def)
qed (simp add: expire_def)

lemma finish_all_extends:
  "extends (tr_calls (rg_tracer r)) (tr_calls (rg_tracer (foldl (\<lambda>r s. finishLocked r s reason) r ss)))"
proof (induction ss arbitrary: r)
  case (Cons s ss)
  from extends_trans [OF finishLocked_extends Cons] show ?case by simp
qed simp

lemma closeAll_keeps:
  assumes "registry_inv_among others timed r"
  shows "keeps_sessions r (closeAll r)"
  using closeAll_inv(3) [OF assms] finish_all_extends [of "r\<lparr>rg_closed := True\<rparr>" SessionEndShutdown "map snd (rg_sessions r)"]
  by (simp add: keeps_sessions_def closeAll_def)

lemma tracer_keeps: "extends (tr_calls (rg_tracer r)) (tr_calls t) \<Longrightarrow> keeps_sessions r (r\<lparr>rg_tracer := t\<rparr>)"
  by (simp add: keeps_sessions_def)

subsection \<open>Requests on the shared tracer\<close>

lemma span_begin_extends: "extends (tr_calls t) (tr_calls t') \<Longrightarrow> span_begin t i at \<Longrightarrow> span_begin t' i at"
  by (auto simp: span_begin_def extends_def)

text \<open>The balance of a request's spans is that of the registry's, seen from the request.\<close>

lemma balance_of_registry:
  assumes "registry_inv_among (add_mset (rs_span s) others) False r" and "rs_tracer s = rg_tracer r" and "\<not> rs_spanEnded s"
  shows "span_balance (session_spans r + others) s"
  using assms by (simp add: registry_inv_among_def spans_once_def span_balance_def tracer_ok_def ac_simps)

lemma registry_of_balance:
  assumes "registry_inv_among others' False r" and "extends (tr_calls (rg_tracer r)) (tr_calls (rs_tracer s))"
    and "span_balance (session_spans r + others) s"
  shows "registry_inv_among ((if rs_spanEnded s then {#} else {#rs_span s#}) + others) False (r\<lparr>rg_tracer := rs_tracer s\<rparr>)"
proof -
  have "session_ok (rs_tracer s) k u" if "session_ok (rg_tracer r) k u" for k u
    using that span_begin_extends [OF assms(2)] by (simp add: session_ok_def)
  moreover have "spans_once ((if rs_spanEnded s then {#} else {#rs_span s#}) + others) (r\<lparr>rg_tracer := rs_tracer s\<rparr>)"
    using assms(3) by (simp add: spans_once_def span_balance_def tracer_ok_def session_spans_def ac_simps)
  ultimately show ?thesis using assms(1) by (auto simp: registry_inv_among_def)
qed

text \<open>Starting the server span of a request.\<close>

lemma registry_start:
  assumes "registry_inv_among others False r" and "start_span (rg_tracer r) name parent start attrs = (t, i)"
  shows "registry_inv_among (add_mset i others) False (r\<lparr>rg_tracer := t\<rparr>)" "extends (tr_calls (rg_tracer r)) (tr_calls t)"
proof -
  have t: "t = (trace_call (rg_tracer r) (StartSpan i name parent start attrs))\<lparr>tr_next := i + 1\<rparr>"
    and i: "i = tr_next (rg_tracer r)" using assms(2) by (auto simp: start_span_def)
  show ext: "extends (tr_calls (rg_tracer r)) (tr_calls t)" by (simp add: t)
  have "session_ok t k u" if "session_ok (rg_tracer r) k u" for k u
    using that span_begin_extends [OF ext] by (simp add: session_ok_def)
  moreover have "spans_once (add_mset i others) (r\<lparr>rg_tracer := t\<rparr>)"
    using assms(1) by (simp add: registry_inv_among_def spans_once_def session_spans_def t i tracer_ok_def)
  ultimately show "registry_inv_among (add_mset i others) False (r\<lparr>rg_tracer := t\<rparr>)"
    using assms(1) by (auto simp: registry_inv_among_def)
qed

end
