(* ===== verification/Proxy_System.thy ===== *)
theory Proxy_System
  imports Proxy_Safety Session_Sharing
begin

text \<open>
  The whole proxy at work: any number of requests, the timers of sessions and the shutdown,
  interleaved, on one admission state, one session registry and one tracer
  (\<open>internal/proxy/proxy.go\<close>, \<open>Handler.ServeHTTP\<close> with its deferred calls, \<open>requestState.observe\<close> and
  the release functions).

  A request goes through the phases of \<open>ServeHTTP\<close>; what runs under one mutex is one step, and so is
  each method of \<open>requestState\<close>: none of them waits, and the child spans it starts it also ends.
  While a request is proxied these come in any order. The transport waits for upstream, so its
  \<open>RoundTrip\<close> is two steps, the client span being open between them. The tracer is that of the
  registry: an operation of a request runs on it and puts it back. A context is the cause it was
  cancelled with, the first one given.
\<close>

subsection \<open>State\<close>

text \<open>
  The phases: admitted; its session acquired (or none), but no span yet; proxied under its
  server span; ended, with the session still held; and done, but for the release of its slot.
\<close>

datatype request_phase =
    Arrived
  | Acquired go_time http_request genai_Request "nat option \<times> attribute list \<times> bytes option"
  | Proxied requestState "bytes option"
  | Ended requestState "bytes option"
  | Released

text \<open>The transport of a request: not called yet, waiting for upstream under its client span, or back.\<close>

datatype transport = NotSent | Sending nat | Sent

record live_request =
  lv_request :: incoming_request
  lv_op :: bytes
  lv_instrumented :: bool
  lv_phase :: request_phase
  lv_cause :: "go_error option"
  lv_transport :: transport

text \<open>
  \<open>py_abandoned\<close> is not a state of the program: it lists the client spans that were open when a
  transport panicked.
\<close>

record proxy_system =
  py_handler :: handler
  py_registry :: sessionRegistry
  py_live :: "(nat \<times> live_request) list"
  py_abandoned :: "nat list"

abbreviation py_tracer :: "proxy_system \<Rightarrow> tracer" where
  "py_tracer y \<equiv> rg_tracer (py_registry y)"

definition set_phase :: "nat \<Rightarrow> live_request \<Rightarrow> request_phase \<Rightarrow> proxy_system \<Rightarrow> proxy_system" where
  "set_phase n l p y = y\<lparr>py_live := al_put n (l\<lparr>lv_phase := p\<rparr>) (py_live y)\<rparr>"

definition on_registry :: "sessionRegistry \<Rightarrow> proxy_system \<Rightarrow> proxy_system" where
  "on_registry r y = y\<lparr>py_registry := r\<rparr>"

text \<open>An operation of a request on the shared tracer.\<close>

definition with_tracer :: "tracer \<Rightarrow> requestState \<Rightarrow> requestState" where
  "with_tracer t s = s\<lparr>rs_tracer := t\<rparr>"

definition errForcedClose :: go_error where
  "errForcedClose = GoError [ErrForcedClose] ''proxy forced close''"

text \<open>\<open>req.cancel(errForcedClose)\<close>: the first cause stays, and a request that has left is not there.\<close>

definition cancel_live :: "nat \<Rightarrow> go_error \<Rightarrow> (nat \<times> live_request) list \<Rightarrow> (nat \<times> live_request) list" where
  "cancel_live n cause live =
     (case al_lookup live n of
        None \<Rightarrow> live
      | Some l \<Rightarrow> if lv_cause l = None then al_put n (l\<lparr>lv_cause := Some cause\<rparr>) live else live)"

definition release_held :: "bytes option \<Rightarrow> go_time \<Rightarrow> sessionRegistry \<Rightarrow> sessionRegistry" where
  "release_held held at r = (case held of None \<Rightarrow> r | Some sid \<Rightarrow> release r sid at)"

text \<open>The deferred release of the slot: passed-through requests have nothing else to undo.\<close>

definition may_leave :: "live_request \<Rightarrow> bool" where
  "may_leave l \<longleftrightarrow> (if lv_instrumented l then lv_phase l = Released else lv_phase l = Arrived)"

definition waiting :: "live_request \<Rightarrow> bool" where
  "waiting l \<longleftrightarrow> (case lv_transport l of Sending i \<Rightarrow> True | _ \<Rightarrow> False)"

definition round_trips :: "request_op \<Rightarrow> bool" where
  "round_trips op \<longleftrightarrow> (case op of OpRoundTrip now cause res \<Rightarrow> True | _ \<Rightarrow> False)"

subsection \<open>Steps\<close>

record proxy_env =
  pe_hex :: "bytes \<Rightarrow> bytes option"
  pe_sha256 :: "bytes \<Rightarrow> bytes"
  pe_extract :: extractor
  pe_opts :: handler_opts

inductive proxy_step :: "proxy_env \<Rightarrow> proxy_system \<Rightarrow> proxy_system \<Rightarrow> bool" for e where
  arrive: "instrumented_op (in_path r) (in_method r) = (op, i) \<Longrightarrow>
    admitRequest (py_handler y) i = (h, Some n) \<Longrightarrow>
    proxy_step e y (y\<lparr>py_handler := h, py_live := al_put n
      \<lparr>lv_request = r, lv_op = op, lv_instrumented = i, lv_phase = Arrived, lv_cause = None,
       lv_transport = NotSent\<rparr> (py_live y)\<rparr>)"
| refuse: "admitRequest (py_handler y) i = (h, None) \<Longrightarrow> proxy_step e y (y\<lparr>py_handler := h\<rparr>)"
| open_session: "al_lookup (py_live y) n = Some l \<Longrightarrow> lv_phase l = Arrived \<Longrightarrow> lv_instrumented l \<Longrightarrow>
    PeekRequest (in_http (lv_request l)) (ho_requestBodyLimit (pe_opts e)) = (http, req, ok) \<Longrightarrow>
    serve_session (pe_hex e) (pe_sha256 e) (pe_opts e) start (fst (boundedModel req)) (hr_header http) (py_registry y) =
      (reg, session) \<Longrightarrow>
    proxy_step e y (set_phase n l (Acquired start http req session) (on_registry reg y))"
| start_server: "al_lookup (py_live y) n = Some l \<Longrightarrow> lv_phase l = Acquired start http req session \<Longrightarrow>
    serve_start (pe_hex e) (pe_sha256 e) (pe_extract e) (pe_opts e) sampled start w (lv_request l) (lv_op l) n
      http req session (py_registry y) = (reg, Instrumented m q) \<Longrightarrow>
    proxy_step e y (set_phase n l (Proxied (oq_state q) (oq_session q)) (on_registry reg y))"
| send: "al_lookup (py_live y) n = Some l \<Longrightarrow> lv_phase l = Proxied s held \<Longrightarrow> lv_transport l = NotSent \<Longrightarrow>
    transport_start (with_tracer (py_tracer y) s) now = (s', i) \<Longrightarrow>
    proxy_step e y (set_phase n (l\<lparr>lv_transport := Sending i\<rparr>) (Proxied s' held)
      (on_registry ((py_registry y)\<lparr>rg_tracer := rs_tracer s'\<rparr>) y))"
| answer: "al_lookup (py_live y) n = Some l \<Longrightarrow> lv_phase l = Proxied s held \<Longrightarrow> lv_transport l = Sending i \<Longrightarrow>
    transport_end (with_tracer (py_tracer y) s) i (lv_cause l) res = s' \<Longrightarrow>
    proxy_step e y (set_phase n (l\<lparr>lv_transport := Sent\<rparr>) (Proxied s' held)
      (on_registry ((py_registry y)\<lparr>rg_tracer := rs_tracer s'\<rparr>) y))"
| transport_panic: "al_lookup (py_live y) n = Some l \<Longrightarrow> lv_phase l = Proxied s held \<Longrightarrow> lv_transport l = Sending i \<Longrightarrow>
    re_cause env = lv_cause l \<Longrightarrow> finish_observed (with_tracer (py_tracer y) s) (Some p) env = s' \<Longrightarrow>
    proxy_step e y ((set_phase n l (Ended s' held)
      (on_registry ((py_registry y)\<lparr>rg_tracer := rs_tracer s'\<rparr>) y))\<lparr>py_abandoned := i # py_abandoned y\<rparr>)"
| observe: "al_lookup (py_live y) n = Some l \<Longrightarrow> lv_phase l = Proxied s held \<Longrightarrow> \<not> waiting l \<Longrightarrow>
    \<not> ends_request op \<Longrightarrow> \<not> round_trips op \<Longrightarrow>
    request_step (with_tracer (py_tracer y) s) op = s' \<Longrightarrow>
    proxy_step e y (set_phase n l (Proxied s' held) (on_registry ((py_registry y)\<lparr>rg_tracer := rs_tracer s'\<rparr>) y))"
| finish: "al_lookup (py_live y) n = Some l \<Longrightarrow> lv_phase l = Proxied s held \<Longrightarrow> \<not> waiting l \<Longrightarrow> re_cause env = lv_cause l \<Longrightarrow>
    finish_observed (with_tracer (py_tracer y) s) panic env = s' \<Longrightarrow>
    proxy_step e y (set_phase n l (Ended s' held) (on_registry ((py_registry y)\<lparr>rg_tracer := rs_tracer s'\<rparr>) y))"
| release_session: "al_lookup (py_live y) n = Some l \<Longrightarrow> lv_phase l = Ended s held \<Longrightarrow>
    proxy_step e y (set_phase n l Released (on_registry (release_held held at (py_registry y)) y))"
| leave: "al_lookup (py_live y) n = Some l \<Longrightarrow> may_leave l \<Longrightarrow>
    proxy_step e y (y\<lparr>py_handler := leaveActive (py_handler y) n (lv_instrumented l), py_live := al_delete n (py_live y)\<rparr>)"
| free_slot: "(n, i) \<in> set (h_leaving (py_handler y)) \<Longrightarrow> leaveSlot (py_handler y) n i = Some h \<Longrightarrow>
    proxy_step e y (y\<lparr>py_handler := h\<rparr>)"
| client_gone: "proxy_step e y (y\<lparr>py_live := cancel_live n (GoError [ErrCanceled] ''context canceled'') (py_live y)\<rparr>)"
| idle_timer: "proxy_step e y (on_registry (expire (py_registry y) sid now) y)"
| close_sessions: "proxy_step e y (on_registry (closeAll (py_registry y)) y)"
| drain: "proxy_step e y (y\<lparr>py_handler := beginDrain (py_handler y)\<rparr>)"
| forced_swap: "forcedSwap (py_handler y) = Some h \<Longrightarrow> proxy_step e y (y\<lparr>py_handler := h\<rparr>)"
| forced_snapshot: "h_forcedClose (py_handler y) \<Longrightarrow> h_snapshot (py_handler y) = None \<Longrightarrow>
    proxy_step e y (y\<lparr>py_handler := forcedSnapshot (py_handler y)\<rparr>)"
| forced_cancel: "h_snapshot (py_handler y) = Some (n # rest) \<Longrightarrow> forcedCancel (py_handler y) = Some h \<Longrightarrow>
    proxy_step e y (y\<lparr>py_handler := h, py_live := cancel_live n errForcedClose (py_live y)\<rparr>)"

definition proxy_start :: "proxy_system \<Rightarrow> bool" where
  "proxy_start y \<longleftrightarrow>
     (\<exists>m p idle. y = \<lparr>py_handler = newHandler m p, py_registry = newSessionRegistry new_tracer idle, py_live = [],
        py_abandoned = []\<rparr>)"

lemma py_simps [simp]:
  "py_handler (set_phase n l p y) = py_handler y" "py_registry (set_phase n l p y) = py_registry y"
  "py_live (set_phase n l p y) = al_put n (l\<lparr>lv_phase := p\<rparr>) (py_live y)"
  "py_handler (on_registry r y) = py_handler y" "py_registry (on_registry r y) = r" "py_live (on_registry r y) = py_live y"
  "py_abandoned (set_phase n l p y) = py_abandoned y" "py_abandoned (on_registry r y) = py_abandoned y"
  by (simp_all add: set_phase_def on_registry_def)

subsection \<open>Requests and the admission state\<close>

text \<open>The requests in flight are the active requests of the admission state.\<close>

definition kind_of :: "(nat \<times> live_request) list \<Rightarrow> nat \<Rightarrow> bool option" where
  "kind_of live n = map_option lv_instrumented (al_lookup live n)"

definition live_match :: "proxy_system \<Rightarrow> bool" where
  "live_match y \<longleftrightarrow>
     distinct (al_keys (py_live y)) \<and>
     (\<forall>n i. (n, i) \<in> set (h_active (py_handler y)) \<longleftrightarrow> kind_of (py_live y) n = Some i)"

lemma keys_put_same: "al_lookup live n = Some l \<Longrightarrow> al_keys (al_put n l' live) = al_keys live"
  using al_lookup_in [of live n l] by (force simp: keys_put_list)

lemma kind_put_same:
  "al_lookup live n = Some l \<Longrightarrow> lv_instrumented l' = lv_instrumented l \<Longrightarrow> kind_of (al_put n l' live) = kind_of live"
  by (simp add: kind_of_def fun_eq_iff)

lemma cancel_live_simps [simp]: "al_keys (cancel_live n c live) = al_keys live" "kind_of (cancel_live n c live) = kind_of live"
  by (simp_all add: cancel_live_def keys_put_same kind_put_same split: option.split)

lemma live_active:
  "live_match y \<Longrightarrow> al_lookup (py_live y) n = Some l \<Longrightarrow> (n, lv_instrumented l) \<in> set (h_active (py_handler y))"
  by (simp add: live_match_def kind_of_def)

lemma admitted_active:
  assumes "admitRequest h i = (h', Some n)"
  shows "h_active h' = h_active h @ [(n, i)]" "n = h_nextReq h" "h_nextReq h' = Suc n"
    "h_cancelled h' = h_cancelled h" "h_snapshot h' = h_snapshot h" "\<not> h_draining h" "\<not> h_forcedClose h"
  using assms by (auto simp: admitRequest_def set_slots_def Let_def split: if_splits)

lemma refused_frame:
  assumes "admitRequest h i = (h', None)"
  shows "h' = h\<lparr>h_nextReq := Suc (h_nextReq h)\<rparr>"
  using assms by (auto simp: admitRequest_def Let_def split: if_splits)

lemma leave_active_frame [simp]:
  "h_active (leaveActive h n i) = filter (\<lambda>e. fst e \<noteq> n) (h_active h)" "h_nextReq (leaveActive h n i) = h_nextReq h"
  "h_cancelled (leaveActive h n i) = h_cancelled h" "h_snapshot (leaveActive h n i) = h_snapshot h"
  by (simp_all add: leaveActive_def Let_def split: option.split)

lemma leave_slot_frame:
  assumes "leaveSlot h n i = Some h'"
  shows "h_active h' = h_active h" "h_nextReq h' = h_nextReq h" "h_cancelled h' = h_cancelled h" "h_snapshot h' = h_snapshot h"
  using assms by (auto simp: leaveSlot_def split: if_splits)

lemma forced_frame:
  "forcedSwap h = Some h' \<Longrightarrow> h' = h\<lparr>h_forcedClose := True\<rparr>"
  "h_snapshot h = Some (n # rest) \<Longrightarrow> forcedCancel h = Some h' \<Longrightarrow>
     h' = h\<lparr>h_cancelled := n # h_cancelled h, h_snapshot := Some rest\<rparr>"
  by (auto simp: forcedSwap_def forcedCancel_def split: if_splits)

lemma live_match_step:
  assumes inv: "handler_inv (py_handler y)" and m: "live_match y" and step: "proxy_step e y z"
  shows "live_match z"
  using step
proof cases
  case (arrive r op i h n)
  have "n \<notin> fst ` set (h_active (py_handler y))"
    using inv admitted_active(2) [OF arrive(3)] by (auto simp: handler_inv_def)
  then have "kind_of (py_live y) n = None" using m by (cases "kind_of (py_live y) n") (force simp: live_match_def)+
  with m arrive(1) admitted_active(1) [OF arrive(3)] show ?thesis by (auto simp: live_match_def kind_of_def)
next
  case (refuse i h)
  with m refused_frame [OF refuse(2)] show ?thesis by (simp add: live_match_def)
next
  case (leave n l)
  with m show ?thesis by (auto simp: live_match_def kind_of_def)
next
  case (free_slot n i h)
  with m leave_slot_frame [OF free_slot(3)] show ?thesis by (simp add: live_match_def)
next
  case (forced_swap h)
  with m forced_frame(1) [OF forced_swap(2)] show ?thesis by (simp add: live_match_def)
next
  case (forced_cancel n rest h)
  with m forced_frame(2) [OF forced_cancel(2,3)] show ?thesis by (simp add: live_match_def)
qed (use m in \<open>simp_all add: live_match_def beginDrain_def forcedSnapshot_def kind_put_same keys_put_same\<close>)

lemma handler_view_step:
  assumes m: "live_match y" and step: "proxy_step e y z"
  shows "handler_step\<^sup>*\<^sup>* (py_handler y) (py_handler z)"
  using step
proof cases
  case (arrive r op i h n)
  with handler_step.admit [OF arrive(3)] show ?thesis by simp
next
  case (refuse i h)
  with handler_step.admit [OF refuse(2)] show ?thesis by simp
next
  case (leave n l)
  with handler_step.leave_active [OF live_active [OF m leave(2)]] show ?thesis by simp
next
  case (free_slot n i h)
  with handler_step.leave_slot [OF free_slot(2,3)] show ?thesis by simp
next
  case drain
  with r_into_rtranclp [of handler_step, OF handler_step.drain] show ?thesis by simp
next
  case (forced_swap h)
  with handler_step.forced_swap [OF forced_swap(2)] show ?thesis by simp
next
  case forced_snapshot
  with handler_step.forced_snapshot [OF forced_snapshot(2,3)] show ?thesis by simp
next
  case (forced_cancel n rest h)
  with handler_step.forced_cancel [OF forced_cancel(3)] show ?thesis by simp
qed simp_all

text \<open>So everything proved of the admission of requests holds in the whole proxy.\<close>

interpretation admission_view: component_view handler_step "\<lambda>h. \<exists>m p. h = newHandler m p" handler_inv
    "proxy_step e" proxy_start py_handler live_match for e
proof
  show "proxy_start y \<Longrightarrow> \<exists>m p. py_handler y = newHandler m p" for y
    by (clarsimp simp: proxy_start_def) blast
  show "proxy_start y \<Longrightarrow> live_match y" for y by (auto simp: proxy_start_def live_match_def newHandler_def kind_of_def)
qed (rule handler_view_step live_match_step; assumption)+

subsection \<open>Requests, their spans and their sessions\<close>

text \<open>What the requests in flight hold, added up.\<close>

definition live_sum :: "(live_request \<Rightarrow> 'a multiset) \<Rightarrow> (nat \<times> live_request) list \<Rightarrow> 'a multiset" where
  "live_sum f live = sum_list (map (\<lambda>e. f (snd e)) live)"

lemma live_sum_put: "al_lookup live n = Some l \<Longrightarrow> live_sum f (al_put n l' live) + f l = live_sum f live + f l'"
  by (induction live) (auto simp: live_sum_def ac_simps split: if_splits)

lemma live_sum_put_same: "al_lookup live n = Some l \<Longrightarrow> f l' = f l \<Longrightarrow> live_sum f (al_put n l' live) = live_sum f live"
  using live_sum_put [of live n l f l'] by simp

lemma live_sum_new: "n \<notin> fst ` set live \<Longrightarrow> live_sum f (al_put n l live) = live_sum f live + f l"
  by (induction live) (auto simp: live_sum_def ac_simps)

lemma live_sum_part: "al_lookup live n = Some l \<Longrightarrow> f l \<subseteq># live_sum f live"
  by (induction live) (auto simp: live_sum_def subseteq_mset_def trans_le_add2 split: if_splits)

lemma live_sum_delete:
  assumes "distinct (al_keys live)" and "al_lookup live n = Some l" and "f l = {#}"
  shows "live_sum f (al_delete n live) = live_sum f live"
  using assms
proof (induction live)
  case (Cons e live)
  show ?case
  proof (cases "fst e = n")
    case True
    with Cons.prems have "al_delete n live = live" by (intro al_delete_notin) auto
    with True Cons.prems show ?thesis by (cases e) (auto simp: al_delete_def live_sum_def)
  next
    case False
    with Cons show ?thesis by (cases e) (auto simp: al_delete_def live_sum_def)
  qed
qed simp

text \<open>The spans of a request that have been started and not ended: its server span, and its client span while it waits.\<close>

definition client_span :: "live_request \<Rightarrow> nat multiset" where
  "client_span l = (case lv_transport l of Sending i \<Rightarrow> {#i#} | _ \<Rightarrow> {#})"

definition open_span :: "live_request \<Rightarrow> nat multiset" where
  "open_span l =
     (case lv_phase l of
        Proxied s held \<Rightarrow> {#rs_span s#} + client_span l
      | _ \<Rightarrow> {#})"

lemma client_span_simps [simp]:
  "client_span (l\<lparr>lv_phase := p\<rparr>) = client_span l" "client_span (l\<lparr>lv_cause := c\<rparr>) = client_span l"
  "lv_transport l = NotSent \<Longrightarrow> client_span l = {#}"
  by (simp_all add: client_span_def)

definition held_by :: "live_request \<Rightarrow> bytes option" where
  "held_by l =
     (case lv_phase l of
        Acquired start http req session \<Rightarrow> snd (snd session)
      | Proxied s held \<Rightarrow> held
      | Ended s held \<Rightarrow> held
      | _ \<Rightarrow> None)"

definition held_sessions :: "live_request \<Rightarrow> bytes multiset" where
  "held_sessions l = (case held_by l of None \<Rightarrow> {#} | Some sid \<Rightarrow> {#sid#})"

text \<open>The span of a session that is live, as long as the registry is open.\<close>

definition in_session :: "sessionRegistry \<Rightarrow> bytes \<Rightarrow> nat \<Rightarrow> bool" where
  "in_session r sid i \<longleftrightarrow> rg_closed r \<or> (\<exists>ss. al_lookup (rg_sessions r) sid = Some ss \<and> ss_span ss = i)"

definition started_as :: "tracer \<Rightarrow> nat \<Rightarrow> span_parent \<Rightarrow> bool" where
  "started_as t i parent \<longleftrightarrow> (\<exists>name start attrs. StartSpan i name parent start attrs \<in> set (tr_calls t))"

definition request_ok :: "sessionRegistry \<Rightarrow> live_request \<Rightarrow> bool" where
  "request_ok r l \<longleftrightarrow>
     (case lv_phase l of
        Arrived \<Rightarrow> lv_transport l = NotSent
      | Acquired start http req session \<Rightarrow>
          lv_transport l = NotSent \<and> (\<forall>sid. snd (snd session) = Some sid \<longrightarrow> (\<exists>i. fst session = Some i \<and> in_session r sid i))
      | Proxied s held \<Rightarrow>
          \<not> rs_ended s \<and> \<not> rs_spanEnded s \<and>
          (\<forall>sid. held = Some sid \<longrightarrow> (\<exists>i. started_as (rg_tracer r) (rs_span s) (ChildOf i) \<and> in_session r sid i))
      | _ \<Rightarrow> True)"

text \<open>\<open>lost\<close> are the spans nothing will end any more.\<close>

definition sessions_match :: "nat multiset \<Rightarrow> sessionRegistry \<Rightarrow> (nat \<times> live_request) list \<Rightarrow> bool" where
  "sessions_match lost r live \<longleftrightarrow>
     registry_inv_among (live_sum open_span live + lost) False r \<and>
     (\<not> rg_closed r \<longrightarrow> (\<forall>k. refs_of r k = int (count (live_sum held_sessions live) k))) \<and>
     (\<forall>n l. al_lookup live n = Some l \<longrightarrow> request_ok r l)"

lemma in_session_keeps:
  "in_session r sid i \<Longrightarrow> keeps_sessions r r' \<Longrightarrow> rg_closed r \<or> refs_of r sid > 0 \<Longrightarrow> in_session r' sid i"
  by (auto simp: in_session_def keeps_sessions_def refs_of_def split: option.splits)

lemma started_as_keeps: "started_as (rg_tracer r) i p \<Longrightarrow> keeps_sessions r r' \<Longrightarrow> started_as (rg_tracer r') i p"
  unfolding started_as_def keeps_sessions_def using extends_set by blast

lemma request_ok_keeps:
  assumes ok: "request_ok r l" and keeps: "keeps_sessions r r'"
    and used: "\<And>sid. held_by l = Some sid \<Longrightarrow> rg_closed r \<or> refs_of r sid > 0"
  shows "request_ok r' l"
proof (cases "lv_phase l")
  case (Acquired start http req session)
  with ok used in_session_keeps [OF _ keeps] show ?thesis by (fastforce simp: request_ok_def held_by_def)
next
  case (Proxied s held)
  with ok used in_session_keeps [OF _ keeps] started_as_keeps [OF _ keeps] show ?thesis
    by (fastforce simp: request_ok_def held_by_def)
qed (use ok in \<open>simp_all add: request_ok_def\<close>)

lemma held_in_use:
  assumes "sessions_match lost r live" and "al_lookup live n = Some l" and "held_by l = Some sid"
  shows "rg_closed r \<or> refs_of r sid > 0"
proof -
  have "sid \<in># live_sum held_sessions live"
    using mset_subset_eqD [OF live_sum_part [OF assms(2), of held_sessions]] assms(3) by (simp add: held_sessions_def)
  with assms(1) show ?thesis by (auto simp: sessions_match_def)
qed

text \<open>One step of a request: what it does to the registry, and the request afterwards.\<close>

lemma sessions_match_put:
  assumes ok: "sessions_match lost r live" and l: "al_lookup live n = Some l" and keeps: "keeps_sessions r r'"
    and inv: "registry_inv_among (live_sum open_span (al_put n l' live) + lost') False r'"
    and refs: "\<And>k. \<not> rg_closed r' \<Longrightarrow>
      refs_of r' k + int (count (held_sessions l) k) = refs_of r k + int (count (held_sessions l') k)"
    and l': "request_ok r' l'"
  shows "sessions_match lost' r' (al_put n l' live)"
proof -
  have "refs_of r' k = int (count (live_sum held_sessions (al_put n l' live)) k)" if "\<not> rg_closed r'" for k
  proof -
    have "refs_of r k = int (count (live_sum held_sessions live) k)"
      using ok keeps that by (auto simp: sessions_match_def keeps_sessions_def)
    moreover have "count (live_sum held_sessions (al_put n l' live)) k + count (held_sessions l) k =
        count (live_sum held_sessions live) k + count (held_sessions l') k"
      using live_sum_put [OF l, of held_sessions l'] by (metis count_union)
    ultimately show ?thesis using refs [OF that, of k] by linarith
  qed
  moreover have "request_ok r' u" if "al_lookup live m = Some u" for m u
    using request_ok_keeps [OF _ keeps held_in_use [OF ok that]] ok that by (auto simp: sessions_match_def)
  ultimately show ?thesis using inv l' by (simp add: sessions_match_def)
qed

text \<open>A step of the registry alone.\<close>

lemma sessions_match_registry:
  assumes ok: "sessions_match lost r live" and keeps: "keeps_sessions r r'"
    and inv: "registry_inv_among (live_sum open_span live + lost) False r'"
    and refs: "\<And>k. \<not> rg_closed r' \<Longrightarrow> refs_of r' k = refs_of r k"
  shows "sessions_match lost r' live"
proof -
  have "request_ok r' u" if "al_lookup live m = Some u" for m u
    using request_ok_keeps [OF _ keeps held_in_use [OF ok that]] ok that by (auto simp: sessions_match_def)
  with ok keeps inv refs show ?thesis by (auto simp: sessions_match_def keeps_sessions_def)
qed

subsection \<open>Every step keeps them\<close>

lemma open_session_match:
  assumes ok: "sessions_match lost r live" and l: "al_lookup live n = Some l" "lv_phase l = Arrived"
    and serve: "serve_session hex sha opts start model header r = (r', session)"
  shows "sessions_match lost r' (al_put n (l\<lparr>lv_phase := Acquired start http req session\<rparr>) live)"
proof (rule sessions_match_put [OF ok l(1)])
  let ?l = "l\<lparr>lv_phase := Acquired start http req session\<rparr>"
  have inv: "registry_inv_among (live_sum open_span live + lost) False r" using ok by (simp add: sessions_match_def)
  consider "r' = r" "snd (snd session) = None"
    | sid tid ua res where "acquire r sid tid start model ua = (r', Some res)" "snd (snd session) = Some sid" "fst session = Some res"
    | sid tid ua where "acquire r sid tid start model ua = (r', None)" "snd (snd session) = None"
    using serve by (auto simp: serve_session_def split: if_splits option.splits prod.splits)
  then have "keeps_sessions r r' \<and> registry_inv_among (live_sum open_span live + lost) False r' \<and>
      (\<not> rg_closed r' \<longrightarrow> refs_of r' k = refs_of r k + int (count (held_sessions ?l) k)) \<and>
      (\<forall>sid. snd (snd session) = Some sid \<longrightarrow> (\<exists>i. fst session = Some i \<and> in_session r' sid i))" for k
  proof cases
    case 1
    with inv show ?thesis by (simp add: held_sessions_def held_by_def)
  next
    case (2 sid tid ua res)
    have op: "\<not> rg_closed r" using 2(1) by (auto simp: acquire_def)
    have ids: "ids_ok r" using inv by (auto simp: ids_ok_def registry_inv_among_def list_all_iff session_ok_def)
    from acquire_session [OF ids op 2(1)] have "in_session r' sid res" by (auto simp: in_session_def)
    with acquire_inv [OF inv op 2(1)] acquire_keeps [OF inv 2(1)] 2(2,3) show ?thesis
      by (auto simp: held_sessions_def held_by_def)
  next
    case (3 sid tid ua)
    then have "r' = r" using acquire_inv(5) [OF inv _ 3(1)] by (cases "rg_closed r") (auto simp: acquire_def)
    with inv 3 show ?thesis by (simp add: held_sessions_def held_by_def)
  qed
  note facts = this
  show "keeps_sessions r r'" using facts by blast
  have "open_span ?l = open_span l" using l(2) by (simp add: open_span_def)
  with facts show "registry_inv_among (live_sum open_span (al_put n ?l live) + lost) False r'"
    by (simp add: live_sum_put_same [OF l(1)])
  show "refs_of r' k + int (count (held_sessions l) k) = refs_of r k + int (count (held_sessions ?l) k)"
    if "\<not> rg_closed r'" for k
    using facts [of k] that l(2) by (simp add: held_sessions_def [of l] held_by_def [of l])
  have "request_ok r l" using ok l(1) by (auto simp: sessions_match_def)
  then show "request_ok r' ?l" using facts l(2) by (simp add: request_ok_def)
qed

text \<open>What \<open>serve_start\<close> starts.\<close>

lemma serve_start_result:
  assumes "serve_start hex sha extract opts sampled start w rq op slot http req session r = (r', Instrumented m q)"
  shows "\<exists>t name parent attrs. start_span (rg_tracer r) name parent start attrs = (t, rs_span (oq_state q)) \<and>
      r' = r\<lparr>rg_tracer := t\<rparr> \<and> (\<forall>i. fst session = Some i \<longrightarrow> parent = ChildOf i)"
    and "oq_session q = snd (snd session)" "\<not> rs_ended (oq_state q)" "\<not> rs_spanEnded (oq_state q)"
proof -
  obtain sess sattrs held where session: "session = (sess, sattrs, held)" by (cases session) auto
  obtain ctx incoming newRoot where ctx: "traceContext hex sha extract opts (hr_header http) = (ctx, incoming, newRoot)"
    by (cases "traceContext hex sha extract opts (hr_header http)") auto
  have any: "start_span (rg_tracer r) name p start attrs = (t, i) \<Longrightarrow> u = r\<lparr>rg_tracer := t\<rparr> \<Longrightarrow>
      \<exists>name attrs t. start_span (rg_tracer r) name p start attrs = (t, i) \<and> u = r\<lparr>rg_tracer := t\<rparr>" for name p attrs t i u
    by blast
  have "\<exists>name attrs t. start_span (rg_tracer r) name (server_parent ctx newRoot sess) start attrs = (t, rs_span (oq_state q)) \<and>
      r' = r\<lparr>rg_tracer := t\<rparr>"
    using assms unfolding serve_start_def session ctx Let_def prod.case by (auto split: prod.splits intro: any)
  then show "\<exists>t name parent attrs. start_span (rg_tracer r) name parent start attrs = (t, rs_span (oq_state q)) \<and>
      r' = r\<lparr>rg_tracer := t\<rparr> \<and> (\<forall>i. fst session = Some i \<longrightarrow> parent = ChildOf i)"
    by (auto simp: session server_parent_def split: option.splits if_splits)
  show "oq_session q = snd (snd session)" "\<not> rs_ended (oq_state q)" "\<not> rs_spanEnded (oq_state q)"
    using assms by (auto simp: serve_start_def session Let_def split: prod.splits)
qed

lemma start_server_match:
  assumes ok: "sessions_match lost r live" and l: "al_lookup live n = Some l" "lv_phase l = Acquired start http req session"
    and serve: "serve_start hex sha extract opts sampled start w rq op slot http req session r = (r', Instrumented m q)"
  shows "sessions_match lost r' (al_put n (l\<lparr>lv_phase := Proxied (oq_state q) (oq_session q)\<rparr>) live)"
proof (rule sessions_match_put [OF ok l(1)])
  let ?l = "l\<lparr>lv_phase := Proxied (oq_state q) (oq_session q)\<rparr>"
  obtain t name parent attrs where st: "start_span (rg_tracer r) name parent start attrs = (t, rs_span (oq_state q))"
    and r': "r' = r\<lparr>rg_tracer := t\<rparr>" and parent: "\<And>i. fst session = Some i \<Longrightarrow> parent = ChildOf i"
    using serve_start_result(1) [OF serve] by blast
  note q = serve_start_result(2-4) [OF serve]
  have inv: "registry_inv_among (live_sum open_span live + lost) False r" using ok by (simp add: sessions_match_def)
  note started = registry_start [OF inv st]
  show keeps: "keeps_sessions r r'" using started(2) by (simp add: r' tracer_keeps)
  have rok: "request_ok r l" using ok l(1) by (auto simp: sessions_match_def)
  then have sent: "lv_transport l = NotSent" using l(2) by (simp add: request_ok_def)
  then have "live_sum open_span (al_put n ?l live) = add_mset (rs_span (oq_state q)) (live_sum open_span live)"
    using live_sum_put [OF l(1), of open_span ?l] l(2) by (simp add: open_span_def)
  with started(1) show "registry_inv_among (live_sum open_span (al_put n ?l live) + lost) False r'" by (simp add: r')
  show "refs_of r' k + int (count (held_sessions l) k) = refs_of r k + int (count (held_sessions ?l) k)" for k
    using l(2) q(1) by (simp add: held_sessions_def held_by_def r')
  have own: "started_as t (rs_span (oq_state q)) parent"
    using st by (auto simp: start_span_def started_as_def) blast
  from rok have "\<exists>i. fst session = Some i \<and> in_session r' sid i" if "snd (snd session) = Some sid" for sid
    using l(2) that by (fastforce simp: request_ok_def in_session_def r')
  with own parent q show "request_ok r' ?l" by (fastforce simp: request_ok_def r')
qed

text \<open>
  A step of a request that is proxied: \<open>now\<close> are the spans that it leaves open besides the server
  span, \<open>lost'\<close> those nothing will end.
\<close>

lemma open_spans_put:
  assumes "al_lookup live n = Some l"
  shows "\<exists>others. live_sum open_span live = open_span l + others \<and>
    (\<forall>l'. live_sum open_span (al_put n l' live) = open_span l' + others)"
proof -
  define others where "others = live_sum open_span live - open_span l"
  have mine: "live_sum open_span live = open_span l + others"
    using live_sum_part [OF assms, of open_span] by (simp add: others_def)
  then have "live_sum open_span (al_put n l' live) = open_span l' + others" for l'
    using live_sum_put [OF assms, of open_span l'] by (simp add: ac_simps)
  with mine show ?thesis by blast
qed

lemma proxied_match:
  assumes ok: "sessions_match lost r live" and l: "al_lookup live n = Some l" "lv_phase l = Proxied s held"
    and ext: "extends (tr_calls (rg_tracer r)) (tr_calls (rs_tracer s'))"
    and bal: "\<And>others. span_balance (others + client_span l) (with_tracer (rg_tracer r) s) \<Longrightarrow> span_balance (others + now) s'"
    and l': "open_span l' + lost' = lost + now + (if rs_spanEnded s' then {#} else {#rs_span s'#})"
      "held_by l' = held_by l" "request_ok (r\<lparr>rg_tracer := rs_tracer s'\<rparr>) l'"
  shows "sessions_match lost' (r\<lparr>rg_tracer := rs_tracer s'\<rparr>) (al_put n l' live)"
proof (rule sessions_match_put [OF ok l(1)])
  let ?s = "with_tracer (rg_tracer r) s" and ?r = "r\<lparr>rg_tracer := rs_tracer s'\<rparr>"
  obtain others where mine: "live_sum open_span live = open_span l + others"
      "\<And>l'. live_sum open_span (al_put n l' live) = open_span l' + others"
    using open_spans_put [OF l(1)] by blast
  have sum: "live_sum open_span live + lost = add_mset (rs_span s) (client_span l + (others + lost))"
    using l(2) by (simp add: mine(1) open_span_def ac_simps)
  have inv: "registry_inv_among (live_sum open_span live + lost) False r" using ok by (simp add: sessions_match_def)
  have "request_ok r l" using ok l(1) by (auto simp: sessions_match_def)
  then have "\<not> rs_spanEnded ?s" "rs_tracer ?s = rg_tracer r" "rs_span ?s = rs_span s"
    using l(2) by (simp_all add: request_ok_def with_tracer_def)
  with balance_of_registry [of ?s _ r] inv
  have "span_balance (session_spans r + (client_span l + (others + lost))) ?s" by (simp add: sum)
  then have "span_balance ((session_spans r + (others + lost)) + client_span l) ?s" by (simp add: ac_simps)
  from bal [OF this] have "span_balance (session_spans r + (others + lost + now)) s'" by (simp add: ac_simps)
  from registry_of_balance [OF inv ext this]
  have "registry_inv_among ((if rs_spanEnded s' then {#} else {#rs_span s'#}) + (others + lost + now)) False ?r" .
  moreover have "(if rs_spanEnded s' then {#} else {#rs_span s'#}) + (others + lost + now) =
      others + (lost + now + (if rs_spanEnded s' then {#} else {#rs_span s'#}))" by (simp add: ac_simps)
  then have "(if rs_spanEnded s' then {#} else {#rs_span s'#}) + (others + lost + now) =
      live_sum open_span (al_put n l' live) + lost'" unfolding l'(1) [symmetric] mine(2) by (simp only: ac_simps)
  ultimately show "registry_inv_among (live_sum open_span (al_put n l' live) + lost') False ?r" by (simp only:)
  show "keeps_sessions r ?r" by (rule tracer_keeps [OF ext])
  show "refs_of ?r k + int (count (held_sessions l) k) = refs_of r k + int (count (held_sessions l') k)" for k
    using l'(2) by (simp add: held_sessions_def)
  show "request_ok ?r l'" by (rule l'(3))
qed

text \<open>The request stays proxied.\<close>

lemma keeps_match:
  assumes ok: "sessions_match lost r live" and l: "al_lookup live n = Some l" "lv_phase l = Proxied s held"
    and s': "rs_span s' = rs_span s" "rs_spanEnded s' = rs_spanEnded s" "rs_ended s' = rs_ended s"
      "extends (tr_calls (rg_tracer r)) (tr_calls (rs_tracer s'))"
    and bal: "\<And>others. span_balance (others + client_span l) (with_tracer (rg_tracer r) s) \<Longrightarrow>
      span_balance (others + client_span l') s'"
    and l': "lv_phase l' = Proxied s' held"
  shows "sessions_match lost (r\<lparr>rg_tracer := rs_tracer s'\<rparr>) (al_put n l' live)"
proof (rule proxied_match [OF ok l s'(4) bal])
  have rok: "request_ok r l" using ok l(1) by (auto simp: sessions_match_def)
  have "request_ok (r\<lparr>rg_tracer := rs_tracer s'\<rparr>) l"
    by (rule request_ok_keeps [OF rok tracer_keeps [OF s'(4)] held_in_use [OF ok l(1)]])
  with l(2) l' s' show "request_ok (r\<lparr>rg_tracer := rs_tracer s'\<rparr>) l'" by (simp add: request_ok_def)
  show "open_span l' + lost = lost + client_span l' + (if rs_spanEnded s' then {#} else {#rs_span s'#})"
    using rok l(2) l' s' by (simp add: open_span_def request_ok_def)
  show "held_by l' = held_by l" using l(2) l' by (simp add: held_by_def)
qed

lemma observe_match:
  assumes "sessions_match lost r live" and "al_lookup live n = Some l" "lv_phase l = Proxied s held"
    and op: "\<not> ends_request op" "request_step (with_tracer (rg_tracer r) s) op = s'"
  shows "sessions_match lost (r\<lparr>rg_tracer := rs_tracer s'\<rparr>) (al_put n (l\<lparr>lv_phase := Proxied s' held\<rparr>) live)"
proof (rule keeps_match [OF assms(1-3)])
  have k: "keeps_span (with_tracer (rg_tracer r) s) s'" using request_step_keeps [OF op(1)] op(2) by blast
  then show "rs_span s' = rs_span s" "rs_spanEnded s' = rs_spanEnded s" "rs_ended s' = rs_ended s"
    "extends (tr_calls (rg_tracer r)) (tr_calls (rs_tracer s'))"
    by (simp_all add: keeps_span_def with_tracer_def)
  show "span_balance (others + client_span l) (with_tracer (rg_tracer r) s) \<Longrightarrow>
      span_balance (others + client_span (l\<lparr>lv_phase := Proxied s' held\<rparr>)) s'" for others
    using k by (simp add: keeps_span_def client_span_def)
qed simp

text \<open>The client span is open from the call of the base transport to its return.\<close>

lemma send_match:
  assumes "sessions_match lost r live" and "al_lookup live n = Some l" "lv_phase l = Proxied s held"
    and t: "lv_transport l = NotSent" "transport_start (with_tracer (rg_tracer r) s) now = (s', i)"
  shows "sessions_match lost (r\<lparr>rg_tracer := rs_tracer s'\<rparr>)
    (al_put n (l\<lparr>lv_transport := Sending i, lv_phase := Proxied s' held\<rparr>) live)"
proof (rule keeps_match [OF assms(1-3)])
  note c = t(2) [unfolded transport_start_def]
  show "rs_span s' = rs_span s" "rs_spanEnded s' = rs_spanEnded s" "rs_ended s' = rs_ended s"
    "extends (tr_calls (rg_tracer r)) (tr_calls (rs_tracer s'))"
    using start_child_frame [OF c] by (simp_all add: with_tracer_def)
  show "span_balance (others + client_span l) (with_tracer (rg_tracer r) s) \<Longrightarrow>
      span_balance (others + client_span (l\<lparr>lv_transport := Sending i, lv_phase := Proxied s' held\<rparr>)) s'" for others
    using span_balance_start [OF _ c] t(1) by (simp add: client_span_def)
qed simp

lemma answer_match:
  assumes "sessions_match lost r live" and "al_lookup live n = Some l" "lv_phase l = Proxied s held"
    and t: "lv_transport l = Sending i" "transport_end (with_tracer (rg_tracer r) s) i cause res = s'"
  shows "sessions_match lost (r\<lparr>rg_tracer := rs_tracer s'\<rparr>)
    (al_put n (l\<lparr>lv_transport := Sent, lv_phase := Proxied s' held\<rparr>) live)"
proof (rule keeps_match [OF assms(1-3)])
  let ?u = "inference_calls (with_tracer (rg_tracer r) s) i cause res"
  have k: "keeps_span (with_tracer (rg_tracer r) s) ?u" by (rule inference_calls_keeps)
  have s': "s' = on_tracer ?u (EndSpan i None)" using t(2) by (simp add: transport_end_def)
  show "rs_span s' = rs_span s" "rs_spanEnded s' = rs_spanEnded s" "rs_ended s' = rs_ended s"
    "extends (tr_calls (rg_tracer r)) (tr_calls (rs_tracer s'))"
    using k by (simp_all add: s' keeps_span_def with_tracer_def extends_snoc)
  show "span_balance (others + client_span l) (with_tracer (rg_tracer r) s) \<Longrightarrow>
      span_balance (others + client_span (l\<lparr>lv_transport := Sent, lv_phase := Proxied s' held\<rparr>)) s'" for others
    using k t(1) span_balance_end [of others i ?u None] by (simp add: client_span_def s' keeps_span_def)
qed simp

lemma recordPanic_keeps: "keeps_span s (recordPanic s p)"
  using request_step_keeps [of "OpPanic p" s] by (simp add: ends_request_def)

lemma end_request_extends: "extends (tr_calls (rs_tracer s)) (tr_calls (rs_tracer (end_request s env)))"
  using before_end_keeps [of s] by (simp add: end_request_def Let_def keeps_span_def)

lemma finish_observed_extends: "extends (tr_calls (rs_tracer s)) (tr_calls (rs_tracer (finish_observed s panic env)))"
proof -
  have "extends (tr_calls (rs_tracer s)) (tr_calls (rs_tracer (recordPanic s p)))" for p
    using recordPanic_keeps [of s p] by (simp add: keeps_span_def)
  then show ?thesis by (auto simp: finish_observed_def intro: extends_trans end_request_extends split: option.split)
qed

lemma finish_observed_ended: "\<not> rs_ended s \<Longrightarrow> rs_spanEnded (finish_observed s panic env)"
  using recordPanic_keeps [of s] by (auto simp: finish_observed_def end_request_def Let_def keeps_span_def split: option.split)

lemma finish_observed_balance:
  assumes "span_balance others s" and "\<not> rs_ended s" and "\<not> rs_spanEnded s"
  shows "span_balance others (finish_observed s panic env)"
proof -
  define u where "u = (case panic of Some p \<Rightarrow> recordPanic s p | None \<Rightarrow> s)"
  have "keeps_span s u" by (simp add: u_def recordPanic_keeps split: option.split)
  with assms have "request_inv others u" by (simp add: request_inv_def keeps_span_def)
  from end_request_inv [OF this, of env] show ?thesis
    by (auto simp: finish_observed_def u_def request_inv_def split: option.splits)
qed

text \<open>The request ends, its client span with it only if the transport is back.\<close>

lemma finish_match:
  assumes ok: "sessions_match lost r live" and l: "al_lookup live n = Some l" "lv_phase l = Proxied s held"
    and fin: "finish_observed (with_tracer (rg_tracer r) s) panic env = s'"
  shows "sessions_match (lost + client_span l) (r\<lparr>rg_tracer := rs_tracer s'\<rparr>) (al_put n (l\<lparr>lv_phase := Ended s' held\<rparr>) live)"
proof (rule proxied_match [OF ok l])
  let ?s = "with_tracer (rg_tracer r) s"
  have "request_ok r l" using ok l(1) by (auto simp: sessions_match_def)
  then have state: "\<not> rs_ended ?s" "\<not> rs_spanEnded ?s" using l(2) by (simp_all add: request_ok_def with_tracer_def)
  show "extends (tr_calls (rg_tracer r)) (tr_calls (rs_tracer s'))"
    using finish_observed_extends [of ?s panic env] fin by (simp add: with_tracer_def)
  show "span_balance (others + client_span l) ?s \<Longrightarrow> span_balance (others + client_span l) s'" for others
    using finish_observed_balance [OF _ state, of _ panic env] fin by simp
  show "open_span (l\<lparr>lv_phase := Ended s' held\<rparr>) + (lost + client_span l) =
      lost + client_span l + (if rs_spanEnded s' then {#} else {#rs_span s'#})"
    using finish_observed_ended [OF state(1), of panic env] fin by (simp add: open_span_def)
  show "held_by (l\<lparr>lv_phase := Ended s' held\<rparr>) = held_by l" using l(2) by (simp add: held_by_def)
  show "request_ok (r\<lparr>rg_tracer := rs_tracer s'\<rparr>) (l\<lparr>lv_phase := Ended s' held\<rparr>)" by (simp add: request_ok_def)
qed

lemma release_match:
  assumes ok: "sessions_match lost r live" and l: "al_lookup live n = Some l" "lv_phase l = Ended s held"
  shows "sessions_match lost (release_held held at r) (al_put n (l\<lparr>lv_phase := Released\<rparr>) live)"
proof (rule sessions_match_put [OF ok l(1)])
  let ?l = "l\<lparr>lv_phase := Released\<rparr>"
  have inv: "registry_inv_among (live_sum open_span live + lost) False r" using ok by (simp add: sessions_match_def)
  have used: "held = Some sid \<Longrightarrow> rg_closed r \<or> refs_of r sid \<ge> 1" for sid
    using held_in_use [OF ok l(1), of sid] l(2) by (auto simp: held_by_def)
  show "keeps_sessions r (release_held held at r)"
    using release_keeps [OF inv] by (simp add: release_held_def split: option.split)
  have "open_span ?l = open_span l" using l(2) by (simp add: open_span_def)
  then show "registry_inv_among (live_sum open_span (al_put n ?l live) + lost) False (release_held held at r)"
    using inv release_inv(1) [OF inv used] by (simp add: live_sum_put_same [OF l(1)] release_held_def split: option.split)
  show "refs_of (release_held held at r) k + int (count (held_sessions l) k) = refs_of r k + int (count (held_sessions ?l) k)"
    if "\<not> rg_closed (release_held held at r)" for k
    using that release_inv(3,4) [OF inv used, of _ at]
    by (auto simp: l(2) release_held_def held_sessions_def held_by_def split: option.splits)
  show "request_ok (release_held held at r) ?l" by (simp add: request_ok_def)
qed

lemma leave_match:
  assumes ok: "sessions_match lost r live" and d: "distinct (al_keys live)" and l: "al_lookup live n = Some l" "may_leave l"
  shows "sessions_match lost r (al_delete n live)"
proof -
  have "open_span l = {#}" "held_sessions l = {#}"
    using l(2) by (auto simp: may_leave_def open_span_def held_sessions_def held_by_def split: if_splits)
  with ok live_sum_delete [OF d l(1), of open_span] live_sum_delete [OF d l(1), of held_sessions] show ?thesis
    by (simp add: sessions_match_def)
qed

lemma cancel_match:
  assumes "sessions_match lost r live"
  shows "sessions_match lost r (cancel_live n cause live)"
proof -
  have "sessions_match lost r (al_put n (l\<lparr>lv_cause := c\<rparr>) live)" if l: "al_lookup live n = Some l" for l c
  proof -
    have same: "open_span (l\<lparr>lv_cause := c\<rparr>) = open_span l" "held_sessions (l\<lparr>lv_cause := c\<rparr>) = held_sessions l"
      "request_ok r (l\<lparr>lv_cause := c\<rparr>) = request_ok r l"
      by (simp_all add: open_span_def held_sessions_def held_by_def request_ok_def cong: request_phase.case_cong)
    with assms l show ?thesis by (simp add: sessions_match_def live_sum_put_same)
  qed
  with assms show ?thesis by (simp add: cancel_live_def split: option.split)
qed

lemma arrive_match:
  assumes "sessions_match lost r live" and "n \<notin> fst ` set live" and "lv_phase l = Arrived" and "lv_transport l = NotSent"
  shows "sessions_match lost r (al_put n l live)"
proof -
  have "open_span l = {#}" "held_sessions l = {#}" "request_ok r l"
    using assms(3,4) by (simp_all add: open_span_def held_sessions_def held_by_def request_ok_def)
  with assms show ?thesis by (simp add: sessions_match_def live_sum_new)
qed

subsection \<open>The invariant of the proxy\<close>

text \<open>A request that the forced close has reached has a cause: the proxy's, or its client's if that was first.\<close>

definition causes_ok :: "proxy_system \<Rightarrow> bool" where
  "causes_ok y \<longleftrightarrow>
     (\<forall>n \<in> set (h_cancelled (py_handler y)). n < h_nextReq (py_handler y)) \<and>
     (\<forall>ns. h_snapshot (py_handler y) = Some ns \<longrightarrow> (\<forall>n \<in> set ns. n < h_nextReq (py_handler y))) \<and>
     (\<forall>n l. al_lookup (py_live y) n = Some l \<longrightarrow> n \<in> set (h_cancelled (py_handler y)) \<longrightarrow> lv_cause l \<noteq> None)"

definition proxy_inv :: "proxy_system \<Rightarrow> bool" where
  "proxy_inv y \<longleftrightarrow>
     handler_inv (py_handler y) \<and> live_match y \<and> sessions_match (mset (py_abandoned y)) (py_registry y) (py_live y) \<and> causes_ok y"

lemma cancel_live_causes:
  assumes "al_lookup (cancel_live n c live) m = Some l"
  shows "\<exists>l0. al_lookup live m = Some l0 \<and> (lv_cause l0 \<noteq> None \<longrightarrow> lv_cause l = lv_cause l0) \<and> (m = n \<longrightarrow> lv_cause l \<noteq> None)"
  using assms by (auto simp: cancel_live_def split: option.splits if_splits)

lemma causes_put_same:
  assumes "causes_ok y" and "al_lookup (py_live y) n = Some l"
  shows "causes_ok (set_phase n l p (on_registry r y))"
  using assms by (auto simp: causes_ok_def)

lemma causes_step:
  assumes inv: "handler_inv (py_handler y)" and ok: "causes_ok y" and step: "proxy_step e y z"
  shows "causes_ok z"
  using step
proof cases
  case (arrive r op i h n)
  note adm = admitted_active [OF arrive(3)]
  have "n \<notin> set (h_cancelled (py_handler y))" using ok adm(2) by (auto simp: causes_ok_def)
  with ok arrive(1) adm show ?thesis by (fastforce simp: causes_ok_def)
next
  case (refuse i h)
  with ok refused_frame [OF refuse(2)] show ?thesis by (fastforce simp: causes_ok_def)
next
  case (leave n l)
  with ok show ?thesis by (simp add: causes_ok_def)
next
  case (free_slot n i h)
  with ok leave_slot_frame [OF free_slot(3)] show ?thesis by (simp add: causes_ok_def)
next
  case (client_gone n)
  have "lv_cause l \<noteq> None"
    if "al_lookup (py_live z) m = Some l" "m \<in> set (h_cancelled (py_handler y))" for m l
    using ok that cancel_live_causes [of n _ "py_live y" m l] client_gone by (fastforce simp: causes_ok_def)
  with ok client_gone show ?thesis by (simp add: causes_ok_def)
next
  case (forced_cancel n rest h)
  note h = forced_frame(2) [OF forced_cancel(2,3)]
  have "lv_cause l \<noteq> None"
    if "al_lookup (py_live z) m = Some l" "m = n \<or> m \<in> set (h_cancelled (py_handler y))" for m l
    using ok that cancel_live_causes [of n _ "py_live y" m l] forced_cancel(1) by (fastforce simp: causes_ok_def)
  with ok forced_cancel(1,2) show ?thesis by (auto simp: causes_ok_def h)
next
  case forced_snapshot
  with ok inv show ?thesis by (auto simp: causes_ok_def forcedSnapshot_def handler_inv_def)
next
  case (forced_swap h)
  with ok forced_frame(1) [OF forced_swap(2)] show ?thesis by (simp add: causes_ok_def)
qed (use ok causes_put_same [OF ok] in \<open>simp_all add: causes_ok_def beginDrain_def on_registry_def\<close>)

lemma sessions_step:
  assumes inv: "proxy_inv y" and step: "proxy_step e y z"
  shows "sessions_match (mset (py_abandoned z)) (py_registry z) (py_live z)"
  using step
proof cases
  case (arrive r op i h n)
  have "n \<notin> fst ` set (h_active (py_handler y))"
    using inv admitted_active(2) [OF arrive(3)] by (auto simp: proxy_inv_def handler_inv_def)
  then have "kind_of (py_live y) n = None"
    using inv by (cases "kind_of (py_live y) n") (force simp: proxy_inv_def live_match_def)+
  then have "n \<notin> fst ` set (py_live y)" by (simp add: kind_of_def al_lookup_None)
  with inv arrive(1) show ?thesis by (simp add: proxy_inv_def arrive_match)
next
  case (idle_timer sid now)
  have reg: "registry_inv_among (live_sum open_span (py_live y) + mset (py_abandoned y)) False (py_registry y)"
    using inv by (simp add: proxy_inv_def sessions_match_def)
  from sessions_match_registry [OF _ expire_keeps [OF reg] expire_inv(1) [OF reg] expire_inv(4) [OF reg]] inv idle_timer
  show ?thesis by (simp add: proxy_inv_def)
next
  case close_sessions
  have reg: "registry_inv_among (live_sum open_span (py_live y) + mset (py_abandoned y)) False (py_registry y)"
    using inv by (simp add: proxy_inv_def sessions_match_def)
  from sessions_match_registry [OF _ closeAll_keeps [OF reg] closeAll_inv(1) [OF reg]] closeAll_inv(3) [OF reg] inv close_sessions
  show ?thesis by (simp add: proxy_inv_def)
next
  case (leave n l)
  with inv leave_match show ?thesis by (auto simp: proxy_inv_def live_match_def)
next
  case (finish n l s held env panic s')
  then have "client_span l = {#}" by (simp add: waiting_def client_span_def split: transport.splits)
  with finish_match [OF _ finish(2,3,6)] inv finish(1) show ?thesis by (simp add: proxy_inv_def)
next
  case (transport_panic n l s held i env p s')
  then have "client_span l = {#i#}" by (simp add: client_span_def)
  with finish_match [OF _ transport_panic(2,3,6)] inv transport_panic(1) show ?thesis by (simp add: proxy_inv_def)
qed (use inv in \<open>auto simp: proxy_inv_def open_session_match start_server_match send_match answer_match observe_match
  release_match cancel_match\<close>)

lemma proxy_start_inv: "proxy_start y \<Longrightarrow> proxy_inv y"
proof -
  assume y: "proxy_start y"
  then have "handler_inv (py_handler y)" "live_match y"
    using admission_view.view_inv_init admission_view.view_init by blast+
  with y show ?thesis
    by (auto simp: proxy_inv_def proxy_start_def sessions_match_def causes_ok_def newHandler_def newSessionRegistry_def
      registry_inv_among_def spans_once_def session_spans_def live_sum_def refs_of_def tracer_ok_def new_tracer_def
      started_spans_def ended_spans_def map_filter_def)
qed

lemma proxy_step_inv: "proxy_inv y \<Longrightarrow> proxy_step e y z \<Longrightarrow> proxy_inv z"
  using sessions_step [of y e z] causes_step [of y e z] admission_view.view_inv_step [of y e z]
  by (simp add: proxy_inv_def)

interpretation proxy: transition_system "proxy_step e" proxy_start proxy_inv for e
  by unfold_locales (rule proxy_start_inv proxy_step_inv; assumption)+

subsection \<open>Properties\<close>

lemma idle_no_spans:
  assumes "proxy_inv y" and "h_active (py_handler y) = []"
  shows "py_live y = []" "live_sum f (py_live y) = {#}"
proof -
  have "kind_of (py_live y) n = None" for n
    using assms by (cases "kind_of (py_live y) n") (auto simp: proxy_inv_def live_match_def)
  then have "n \<notin> fst ` set (py_live y)" for n by (simp add: kind_of_def al_lookup_None)
  then show "py_live y = []" by (cases "py_live y") auto
  then show "live_sum f (py_live y) = {#}" by (simp add: live_sum_def)
qed

lemma proxy_balance:
  assumes "proxy_inv y"
  shows "mset (ended_spans (py_tracer y)) + session_spans (py_registry y) + live_sum open_span (py_live y) +
      mset (py_abandoned y) = mset (started_spans (py_tracer y))" "distinct (started_spans (py_tracer y))"
    "rg_closed (py_registry y) \<Longrightarrow> session_spans (py_registry y) = {#}"
  using assms
  by (simp_all add: proxy_inv_def sessions_match_def registry_inv_among_def spans_once_def tracer_ok_def session_spans_def
    ac_simps)

text \<open>A client span is abandoned only by the panic of a transport that waited under it.\<close>

lemma abandoned_by_panic:
  assumes "proxy_step e y z" and "py_abandoned z \<noteq> py_abandoned y"
  shows "\<exists>n l s held i. al_lookup (py_live y) n = Some l \<and> lv_phase l = Proxied s held \<and> lv_transport l = Sending i \<and>
    py_abandoned z = i # py_abandoned y"
  using assms by cases auto

text \<open>
  C4: what the proxy does with its spans. Whatever requests, sessions and timers do, and whenever it
  is shut down, every span it ever started is ended exactly once, but for those that are still in
  use: one for each live session, the server span of each request that is being proxied and, while
  its transport waits for upstream, its client span; and but for the client spans of transports that
  panicked, which stay open for good (\<open>abandoned_by_panic\<close>). When no request is active and the
  sessions are closed, every other span has been ended.
\<close>

theorem no_span_leaks:
  assumes "proxy_start y" and "(proxy_step e)\<^sup>*\<^sup>* y z"
  shows "let r = py_registry z; t = rg_tracer r in
    distinct (started_spans t) \<and>
    mset (ended_spans t) + session_spans r + live_sum open_span (py_live z) + mset (py_abandoned z) = mset (started_spans t) \<and>
    (waitIdleRound (py_handler z) = Inl () \<and> rg_closed r \<longrightarrow>
       mset (ended_spans t) + mset (py_abandoned z) = mset (started_spans t))"
proof -
  have inv: "proxy_inv z" by (rule proxy.reachable_inv [OF assms])
  have "live_sum open_span (py_live z) = {#}" if "waitIdleRound (py_handler z) = Inl ()"
    using that idle_no_spans(2) [OF inv] by (simp add: waitIdleRound_def split: if_splits)
  with proxy_balance [OF inv] show ?thesis by (auto simp: Let_def)
qed

text \<open>The session of a request that is being proxied.\<close>

lemma proxied_session:
  assumes "proxy_inv z" and "al_lookup (py_live z) n = Some l" and "lv_phase l = Proxied s (Some sid)"
    and "\<not> rg_closed (py_registry z)"
  shows "\<exists>ss. al_lookup (rg_sessions (py_registry z)) sid = Some ss \<and>
    started_as (py_tracer z) (rs_span s) (ChildOf (ss_span ss))"
proof -
  have "request_ok (py_registry z) l" using assms(1,2) by (auto simp: proxy_inv_def sessions_match_def)
  with assms(3,4) show ?thesis by (auto simp: request_ok_def in_session_def)
qed

text \<open>
  C6: the span of a session outlives the spans of its requests: while a request that names a session
  is being proxied, its server span is a child of the span of that session, and neither has been
  ended, whatever other requests, the idle timer and the eviction of sessions do; only the
  shutdown ends a session under its requests.
\<close>

theorem session_outlives_its_requests:
  assumes "proxy_start y" and "(proxy_step e)\<^sup>*\<^sup>* y z"
    and "al_lookup (py_live z) n = Some l" and "lv_phase l = Proxied s (Some sid)" and "\<not> rg_closed (py_registry z)"
  shows "\<exists>ss. al_lookup (rg_sessions (py_registry z)) sid = Some ss \<and> ss_refs ss > 0 \<and>
    started_as (py_tracer z) (rs_span s) (ChildOf (ss_span ss)) \<and>
    ss_span ss \<notin> set (ended_spans (py_tracer z)) \<and> rs_span s \<notin> set (ended_spans (py_tracer z))"
proof -
  have inv: "proxy_inv z" by (rule proxy.reachable_inv [OF assms(1,2)])
  then have ok: "sessions_match (mset (py_abandoned z)) (py_registry z) (py_live z)" by (simp add: proxy_inv_def)
  obtain ss where ss: "al_lookup (rg_sessions (py_registry z)) sid = Some ss"
      "started_as (py_tracer z) (rs_span s) (ChildOf (ss_span ss))"
    using proxied_session [OF inv assms(3-5)] by blast
  have "refs_of (py_registry z) sid > 0" using held_in_use [OF ok assms(3)] assms(4,5) by (auto simp: held_by_def)
  with ss have refs: "ss_refs ss > 0" by (simp add: refs_of_def)
  obtain xs where xs: "mset xs = session_spans (py_registry z) + live_sum open_span (py_live z) + mset (py_abandoned z)"
    using ex_mset by blast
  have sum: "mset (ended_spans (py_tracer z) @ xs) = mset (started_spans (py_tracer z))"
    using proxy_balance(1) [OF inv] xs by (simp add: ac_simps)
  then have "distinct (ended_spans (py_tracer z) @ xs)"
    using proxy_balance(2) [OF inv] mset_eq_imp_distinct_iff by blast
  moreover have "ss_span ss \<in># session_spans (py_registry z)"
    using al_lookup_in [OF ss(1)] by (force simp: session_spans_def)
  moreover have "rs_span s \<in># live_sum open_span (py_live z)"
    using mset_subset_eqD [OF live_sum_part [OF assms(3), of open_span]] assms(4) by (simp add: open_span_def)
  ultimately show ?thesis using ss refs xs by (metis UnCI disjoint_iff distinct_append set_mset_mset set_mset_union)
qed

lemma extends_member: "extends xs ys \<Longrightarrow> extends (ys @ [c]) zs \<Longrightarrow> c \<in> set (drop (length xs) zs)"
  by (auto simp: extends_def)

text \<open>The outcome is an attribute of the server span.\<close>

lemma end_request_outcome:
  assumes "\<not> rs_ended s"
  shows "\<exists>attrs res. SetAttributes (rs_span s) attrs \<in>
        set (drop (length (tr_calls (rs_tracer s))) (tr_calls (rs_tracer (end_request s env)))) \<and>
      (AttrOutcome, StrVal (outcome_text (request_outcome (s\<lparr>rs_ended := True\<rparr>) env res (ParseResponse (br_payload res))))) \<in> set attrs"
proof -
  define res where "res = (case rs_body s of Some r \<Rightarrow> r | None \<Rightarrow> no_bodyResult)"
  define parsed where "parsed = ParseResponse (br_payload res)"
  define out where "out = request_outcome (s\<lparr>rs_ended := True\<rparr>) env res parsed"
  define s2 where "s2 = emitPhaseSpans (foldl (emit_rest out) (s\<lparr>rs_ended := True\<rparr>) (br_streamOutputs res)) res out"
  obtain u attrs where set: "setServerAttributes s2 res parsed out = on_tracer u (SetAttributes (rs_span s2) attrs)"
    and out: "(AttrOutcome, StrVal (outcome_text out)) \<in> set attrs" and u: "extends (tr_calls (rs_tracer s2)) (tr_calls (rs_tracer u))"
    by (cases "outcome_failed out") (auto simp: setServerAttributes_def Let_def)
  have s2: "keeps_span (s\<lparr>rs_ended := True\<rparr>) s2"
    unfolding s2_def by (meson keeps_span_trans emit_rest_keeps emitPhaseSpans_keeps)
  then have before: "extends (tr_calls (rs_tracer s)) (tr_calls (rs_tracer u))" and span: "rs_span s2 = rs_span s"
    using extends_trans [OF _ u] by (simp_all add: keeps_span_def)
  have "extends (tr_calls (rs_tracer u) @ [SetAttributes (rs_span s) attrs])
      (tr_calls (rs_tracer (setExchangeAttributes (setServerAttributes s2 res parsed out) env)))"
    using setExchangeAttributes_keeps [of "setServerAttributes s2 res parsed out" env] span by (simp add: set keeps_span_def)
  then have "extends (tr_calls (rs_tracer u) @ [SetAttributes (rs_span s) attrs]) (tr_calls (rs_tracer (end_request s env)))"
    using assms by (simp add: end_request_def Let_def res_def parsed_def out_def s2_def)
  from extends_member [OF before this] out show ?thesis unfolding out_def parsed_def by blast
qed

text \<open>
  C22: a request that the forced close has reached is never reported as a success or as a failure of
  upstream: its server span says that the proxy was shut down, or that the client left if it did
  so before, or that the handler panicked.
\<close>

theorem forced_close_is_reported:
  assumes "proxy_start y" and "(proxy_step e)\<^sup>*\<^sup>* y z"
    and "al_lookup (py_live z) n = Some l" and "lv_phase l = Proxied s held" and "n \<in> set (h_cancelled (py_handler z))"
    and "re_cause env = lv_cause l" and "finish_observed (with_tracer (py_tracer z) s) panic env = s'"
  shows "\<exists>attrs out. SetAttributes (rs_span s) attrs \<in> set (drop (length (tr_calls (py_tracer z))) (tr_calls (rs_tracer s'))) \<and>
    (AttrOutcome, StrVal (outcome_text out)) \<in> set attrs \<and> out \<in> {OutcomeShutdown, OutcomeClientCancel, OutcomeInternalError} \<and>
    (out = OutcomeClientCancel \<longrightarrow> \<not> errors_Is (lv_cause l) ErrForcedClose)"
proof -
  have inv: "proxy_inv z" by (rule proxy.reachable_inv [OF assms(1,2)])
  then have cause: "lv_cause l \<noteq> None" using assms(3,5) by (auto simp: proxy_inv_def causes_ok_def)
  have "request_ok (py_registry z) l" using inv assms(3) by (auto simp: proxy_inv_def sessions_match_def)
  then have open_: "\<not> rs_ended s" using assms(4) by (simp add: request_ok_def)
  define t where "t = with_tracer (py_tracer z) s"
  define u where "u = (case panic of Some p \<Rightarrow> recordPanic t p | None \<Rightarrow> t)"
  have u: "keeps_span t u" by (simp add: u_def recordPanic_keeps split: option.split)
  have t: "rs_span t = rs_span s" "rs_tracer t = py_tracer z" "\<not> rs_ended t"
    using open_ by (simp_all add: t_def with_tracer_def)
  have s': "s' = end_request u env"
    using assms(7) by (simp add: finish_observed_def u_def t_def split: option.splits)
  have "\<not> rs_ended u" using u t(3) by (simp add: keeps_span_def)
  from end_request_outcome [OF this, of env] obtain attrs res where
    out: "SetAttributes (rs_span u) attrs \<in> set (drop (length (tr_calls (rs_tracer u))) (tr_calls (rs_tracer s')))"
      "(AttrOutcome, StrVal (outcome_text (request_outcome (u\<lparr>rs_ended := True\<rparr>) env res (ParseResponse (br_payload res))))) \<in> set attrs"
    unfolding s' by blast
  have "extends (tr_calls (py_tracer z)) (tr_calls (rs_tracer u))" "rs_span u = rs_span s"
    using u t by (simp_all add: keeps_span_def)
  then have "SetAttributes (rs_span s) attrs \<in> set (drop (length (tr_calls (py_tracer z))) (tr_calls (rs_tracer s')))"
    using out(1) set_drop_subset_set_drop [of "length (tr_calls (py_tracer z))" "length (tr_calls (rs_tracer u))" "tr_calls (rs_tracer s')"]
    by (auto simp: extends_def)
  moreover have "request_outcome (u\<lparr>rs_ended := True\<rparr>) env res p \<in> {OutcomeShutdown, OutcomeClientCancel, OutcomeInternalError} \<and>
      (request_outcome (u\<lparr>rs_ended := True\<rparr>) env res p = OutcomeClientCancel \<longrightarrow> \<not> errors_Is (lv_cause l) ErrForcedClose)" for p
    using cause assms(6) by (auto simp: request_outcome_def Let_def)
  ultimately show ?thesis using out(2) by blast
qed

subsection \<open>An example\<close>

text \<open>One request of a session, from its arrival until the shutdown.\<close>

definition example_penv :: proxy_env where
  "example_penv = \<lparr>pe_hex = (\<lambda>_. None), pe_sha256 = (\<lambda>s. replicate 32 (CHR ''d'')), pe_extract = example_extract,
     pe_opts = example_opts True\<rparr>"

definition example_system :: proxy_system where
  "example_system =
     \<lparr>py_handler = newHandler 1 1, py_registry = newSessionRegistry new_tracer 0, py_live = [], py_abandoned = []\<rparr>"

definition example_live :: live_request where
  "example_live =
     \<lparr>lv_request = example_incoming, lv_op = ''embeddings'', lv_instrumented = True, lv_phase = Arrived, lv_cause = None,
      lv_transport = NotSent\<rparr>"

definition example_arrived :: proxy_system where
  "example_arrived =
     example_system\<lparr>py_handler := fst (admitRequest (newHandler 1 1) True), py_live := al_put 0 example_live []\<rparr>"

lemma example_arrival: "proxy_step example_penv example_system example_arrived"
proof -
  have "admitRequest (py_handler example_system) True = (fst (admitRequest (newHandler 1 1) True), Some 0)"
    "instrumented_op (in_path example_incoming) (in_method example_incoming) = (''embeddings'', True)" by code_simp+
  from proxy_step.arrive [OF this(2,1), of example_penv] show ?thesis
    by (simp add: example_arrived_def example_live_def example_system_def)
qed

definition example_session :: "sessionRegistry \<times> nat option \<times> attribute list \<times> bytes option" where
  "example_session =
     serve_session (pe_hex example_penv) (pe_sha256 example_penv) (pe_opts example_penv) 5 (fst (boundedModel no_Request))
       (hr_header (in_http example_incoming)) (py_registry example_arrived)"

definition example_acquired_session :: proxy_system where
  "example_acquired_session =
     set_phase 0 example_live (Acquired 5 (in_http example_incoming) no_Request (snd example_session))
       (on_registry (fst example_session) example_arrived)"

definition example_start :: "sessionRegistry \<times> served" where
  "example_start =
     serve_start (pe_hex example_penv) (pe_sha256 example_penv) (pe_extract example_penv) (pe_opts example_penv) True 5
       (Writer True True None) example_incoming ''embeddings'' 0 (in_http example_incoming) no_Request (snd example_session)
       (fst example_session)"

definition example_observed :: observed_request where
  "example_observed = (case snd example_start of Instrumented n q \<Rightarrow> q | _ \<Rightarrow> undefined)"

definition example_proxied :: proxy_system where
  "example_proxied =
     set_phase 0 example_live (Proxied (oq_state example_observed) (oq_session example_observed))
       (on_registry (fst example_start) example_acquired_session)"

lemma example_start_eq: "example_start = (fst example_start, Instrumented 0 example_observed)"
  by (simp add: example_observed_def example_start_def serve_start_def Let_def split: prod.split)

lemma set_phase_again:
  "set_phase n (l\<lparr>lv_phase := p\<rparr>) q (on_registry r (set_phase n l p y)) = set_phase n l q (on_registry r y)"
  by (simp add: set_phase_def on_registry_def)

lemma example_acquisition: "proxy_step example_penv example_arrived example_acquired_session"
  unfolding example_acquired_session_def
proof (rule proxy_step.open_session)
  show "al_lookup (py_live example_arrived) 0 = Some example_live" by (simp add: example_arrived_def)
  show "PeekRequest (in_http (lv_request example_live)) (ho_requestBodyLimit (pe_opts example_penv)) =
      (in_http example_incoming, no_Request, False)"
    by (simp add: PeekRequest_def example_live_def example_incoming_def)
qed (simp_all add: example_live_def example_session_def)

lemma example_serving: "proxy_step example_penv example_acquired_session example_proxied"
proof -
  let ?l = "example_live\<lparr>lv_phase := Acquired 5 (in_http example_incoming) no_Request (snd example_session)\<rparr>"
  have "proxy_step example_penv example_acquired_session
      (set_phase 0 ?l (Proxied (oq_state example_observed) (oq_session example_observed))
        (on_registry (fst example_start) example_acquired_session))"
  proof (rule proxy_step.start_server)
    show "al_lookup (py_live example_acquired_session) 0 = Some ?l" by (simp add: example_acquired_session_def)
    show "serve_start (pe_hex example_penv) (pe_sha256 example_penv) (pe_extract example_penv) (pe_opts example_penv) True 5
        (Writer True True None) (lv_request ?l) (lv_op ?l) 0 (in_http example_incoming) no_Request (snd example_session)
        (py_registry example_acquired_session) = (fst example_start, Instrumented 0 example_observed)"
      using example_start_eq
      by (simp add: example_start_def [symmetric] example_acquired_session_def example_live_def)
  qed simp
  then show ?thesis
    by (simp add: example_proxied_def example_acquired_session_def set_phase_def on_registry_def)
qed

lemma example_begin: "proxy_start example_system"
  by (auto simp: proxy_start_def example_system_def)

lemma example_proxied_run: "(proxy_step example_penv)\<^sup>*\<^sup>* example_system example_proxied"
  by (meson example_arrival example_acquisition example_serving rtranclp.rtrancl_into_rtrancl rtranclp.rtrancl_refl)

lemma example_proxied_live:
  "al_lookup (py_live example_proxied) 0 =
     Some (example_live\<lparr>lv_phase := Proxied (oq_state example_observed) (Some ''s1'')\<rparr>)"
  "\<not> rg_closed (py_registry example_proxied)"
proof -
  have session: "snd (snd (snd example_session)) = Some ''s1''" "\<not> rg_closed (fst example_session)" by code_simp+
  have "oq_session example_observed = Some ''s1''"
    using serve_start_result(2) [OF example_start_eq [unfolded example_start_def]] session(1)
    by simp
  then show "al_lookup (py_live example_proxied) 0 =
      Some (example_live\<lparr>lv_phase := Proxied (oq_state example_observed) (Some ''s1'')\<rparr>)"
    by (simp add: example_proxied_def)
  show "\<not> rg_closed (py_registry example_proxied)"
    using serve_start_result(1) [OF example_start_eq [unfolded example_start_def]] session(2)
    by (auto simp: example_proxied_def example_start_def)
qed

text \<open>
  The request is sent upstream, answered and ended, and the proxy is shut down in order, or is told to
  close at once.
\<close>

definition example_sending :: "requestState \<times> nat" where
  "example_sending = transport_start (with_tracer (py_tracer example_proxied) (oq_state example_observed)) 8"

definition example_sent :: proxy_system where
  "example_sent =
     set_phase 0 (example_live\<lparr>lv_transport := Sending (snd example_sending)\<rparr>) (Proxied (fst example_sending) (Some ''s1''))
       (on_registry ((py_registry example_proxied)\<lparr>rg_tracer := rs_tracer (fst example_sending)\<rparr>) example_proxied)"

definition example_answer :: requestState where
  "example_answer =
     transport_end (with_tracer (py_tracer example_sent) (fst example_sending)) (snd example_sending) None (Inr 200)"

definition example_answered :: proxy_system where
  "example_answered =
     set_phase 0 (example_live\<lparr>lv_transport := Sent\<rparr>) (Proxied example_answer (Some ''s1''))
       (on_registry ((py_registry example_sent)\<lparr>rg_tracer := rs_tracer example_answer\<rparr>) example_sent)"

definition example_finished :: requestState where
  "example_finished = finish_observed (with_tracer (py_tracer example_answered) example_answer) None example_env"

definition example_ended :: proxy_system where
  "example_ended =
     set_phase 0 (example_live\<lparr>lv_transport := Sent\<rparr>) (Ended example_finished (Some ''s1''))
       (on_registry ((py_registry example_answered)\<lparr>rg_tracer := rs_tracer example_finished\<rparr>) example_answered)"

definition example_released :: proxy_system where
  "example_released = set_phase 0 (example_live\<lparr>lv_transport := Sent\<rparr>) Released (on_registry (release (py_registry example_ended) ''s1'' 9) example_ended)"

definition example_left :: proxy_system where
  "example_left = example_released\<lparr>py_handler := leaveActive (py_handler example_released) 0 True, py_live := []\<rparr>"

definition example_closed_system :: proxy_system where
  "example_closed_system = on_registry (closeAll (py_registry example_left)) example_left"

lemma example_handlers:
  "py_handler example_proxied = fst (admitRequest (newHandler 1 1) True)"
  "py_handler example_left = leaveActive (fst (admitRequest (newHandler 1 1) True)) 0 True"
  by (simp_all add: example_left_def example_released_def example_ended_def example_answered_def example_sent_def
    example_proxied_def example_acquired_session_def example_arrived_def)

lemma example_left_run: "(proxy_step example_penv)\<^sup>*\<^sup>* example_proxied example_left"
proof -
  let ?l = "\<lambda>p. example_live\<lparr>lv_phase := p\<rparr>" and ?u = "\<lambda>p. example_live\<lparr>lv_transport := Sent, lv_phase := p\<rparr>"
  have "proxy_step example_penv example_proxied
      (set_phase 0 ((?l (Proxied (oq_state example_observed) (Some ''s1'')))\<lparr>lv_transport := Sending (snd example_sending)\<rparr>)
        (Proxied (fst example_sending) (Some ''s1''))
        (on_registry ((py_registry example_proxied)\<lparr>rg_tracer := rs_tracer (fst example_sending)\<rparr>) example_proxied))"
  proof (rule proxy_step.send)
    show "al_lookup (py_live example_proxied) 0 = Some (?l (Proxied (oq_state example_observed) (Some ''s1'')))"
      by (rule example_proxied_live(1))
  qed (simp_all add: example_sending_def example_live_def)
  then have sent: "proxy_step example_penv example_proxied example_sent" by (simp add: example_sent_def set_phase_def)
  have "proxy_step example_penv example_sent
      (set_phase 0 ((?l (Proxied (fst example_sending) (Some ''s1'')))\<lparr>lv_transport := Sent\<rparr>) (Proxied example_answer (Some ''s1''))
        (on_registry ((py_registry example_sent)\<lparr>rg_tracer := rs_tracer example_answer\<rparr>) example_sent))"
    using proxy_step.answer [of example_sent 0
        "(?l (Proxied (fst example_sending) (Some ''s1'')))\<lparr>lv_transport := Sending (snd example_sending)\<rparr>"
        "fst example_sending" "Some ''s1''" "snd example_sending" "Inr 200" example_answer example_penv]
    by (simp add: example_sent_def [THEN arg_cong [where f = py_live]] example_answer_def) (simp add: example_live_def)
  then have answered: "proxy_step example_penv example_sent example_answered" by (simp add: example_answered_def set_phase_def)
  have "proxy_step example_penv example_answered
      (set_phase 0 (?u (Proxied example_answer (Some ''s1''))) (Ended example_finished (Some ''s1''))
        (on_registry ((py_registry example_answered)\<lparr>rg_tracer := rs_tracer example_finished\<rparr>) example_answered))"
  proof (rule proxy_step.finish)
    show "al_lookup (py_live example_answered) 0 = Some (?u (Proxied example_answer (Some ''s1'')))"
      by (simp add: example_answered_def)
  qed (simp_all add: example_finished_def example_env_def example_live_def waiting_def)
  then have ended: "proxy_step example_penv example_answered example_ended" by (simp add: example_ended_def set_phase_def)
  have "proxy_step example_penv example_ended
      (set_phase 0 (?u (Ended example_finished (Some ''s1''))) Released
        (on_registry (release_held (Some ''s1'') 9 (py_registry example_ended)) example_ended))"
    by (rule proxy_step.release_session) (simp_all add: example_ended_def)
  then have released: "proxy_step example_penv example_ended example_released"
    by (simp add: example_released_def release_held_def set_phase_def)
  have "proxy_step example_penv example_released
      (example_released\<lparr>py_handler := leaveActive (py_handler example_released) 0 (lv_instrumented (?u Released)),
        py_live := al_delete 0 (py_live example_released)\<rparr>)"
    by (rule proxy_step.leave) (simp_all add: example_released_def may_leave_def example_live_def)
  then have "proxy_step example_penv example_released example_left"
    by (simp add: example_left_def example_live_def example_released_def example_ended_def example_answered_def
      example_sent_def example_proxied_def example_acquired_session_def example_arrived_def al_delete_def)
  with sent answered ended released show ?thesis by (meson rtranclp.rtrancl_into_rtrancl rtranclp.rtrancl_refl)
qed

theorem no_span_leaks_witness:
  "mset (ended_spans (py_tracer example_closed_system)) = mset (started_spans (py_tracer example_closed_system))"
proof -
  have "proxy_step example_penv example_left example_closed_system"
    unfolding example_closed_system_def by (rule proxy_step.close_sessions)
  with example_left_run have run: "(proxy_step example_penv)\<^sup>*\<^sup>* example_proxied example_closed_system"
    by (rule rtranclp.rtrancl_into_rtrancl)
  have inv: "proxy_inv example_left"
    by (rule proxy.reachable_inv [OF example_begin rtranclp_trans [OF example_proxied_run example_left_run]])
  then have "registry_inv_among (live_sum open_span (py_live example_left) + mset (py_abandoned example_left)) False
      (py_registry example_left)"
    by (simp add: proxy_inv_def sessions_match_def)
  from closeAll_inv(3) [OF this] have "rg_closed (py_registry example_closed_system)" by (simp add: example_closed_system_def)
  moreover have "waitIdleRound (py_handler example_closed_system) = Inl ()"
    unfolding example_closed_system_def py_simps example_handlers by code_simp
  moreover have "py_abandoned example_closed_system = []"
    by (simp add: example_closed_system_def example_left_def example_released_def example_ended_def example_answered_def
      example_sent_def example_proxied_def example_acquired_session_def example_arrived_def example_system_def)
  ultimately show ?thesis
    using no_span_leaks [OF example_begin rtranclp_trans [OF example_proxied_run run]] by (simp add: Let_def)
qed

theorem session_outlives_its_requests_witness:
  "\<exists>ss. al_lookup (rg_sessions (py_registry example_proxied)) ''s1'' = Some ss \<and>
     started_as (py_tracer example_proxied) (rs_span (oq_state example_observed)) (ChildOf (ss_span ss)) \<and>
     ss_span ss \<notin> set (ended_spans (py_tracer example_proxied))"
  using session_outlives_its_requests [OF example_begin example_proxied_run example_proxied_live(1) _ example_proxied_live(2)]
  by auto

definition example_stopped :: proxy_system where
  "example_stopped =
     example_proxied\<lparr>py_handler := the (forcedCancel (forcedSnapshot (the (forcedSwap (py_handler example_proxied))))),
       py_live := cancel_live 0 errForcedClose (py_live example_proxied)\<rparr>"

lemma example_stopped_run: "(proxy_step example_penv)\<^sup>*\<^sup>* example_proxied example_stopped"
proof -
  let ?h0 = "py_handler example_proxied"
  let ?h1 = "the (forcedSwap ?h0)"
  let ?h2 = "forcedSnapshot ?h1"
  have h: "forcedSwap ?h0 = Some ?h1" "h_forcedClose ?h1" "h_snapshot ?h1 = None" "h_snapshot ?h2 = Some [0]"
    "forcedCancel ?h2 = Some (the (forcedCancel ?h2))"
    unfolding example_handlers by code_simp+
  have "proxy_step example_penv example_proxied (example_proxied\<lparr>py_handler := ?h1\<rparr>)"
    by (rule proxy_step.forced_swap [OF h(1)])
  moreover have "proxy_step example_penv (example_proxied\<lparr>py_handler := ?h1\<rparr>) (example_proxied\<lparr>py_handler := ?h2\<rparr>)"
    using proxy_step.forced_snapshot [of "example_proxied\<lparr>py_handler := ?h1\<rparr>" example_penv] h(2,3) by simp
  moreover have "proxy_step example_penv (example_proxied\<lparr>py_handler := ?h2\<rparr>) example_stopped"
    using proxy_step.forced_cancel [of "example_proxied\<lparr>py_handler := ?h2\<rparr>" 0 "[]" _ example_penv] h(4,5)
    by (simp add: example_stopped_def)
  ultimately show ?thesis by (meson rtranclp.rtrancl_into_rtrancl rtranclp.rtrancl_refl)
qed

theorem forced_close_is_reported_witness:
  "let env = example_env\<lparr>re_cause := Some errForcedClose\<rparr>; s = oq_state example_observed;
       s' = finish_observed (with_tracer (py_tracer example_stopped) s) None env in
   \<exists>attrs out. SetAttributes (rs_span s) attrs \<in> set (drop (length (tr_calls (py_tracer example_stopped))) (tr_calls (rs_tracer s'))) \<and>
     (AttrOutcome, StrVal (outcome_text out)) \<in> set attrs \<and> out \<in> {OutcomeShutdown, OutcomeInternalError}"
proof -
  let ?l = "(example_live\<lparr>lv_phase := Proxied (oq_state example_observed) (Some ''s1'')\<rparr>)\<lparr>lv_cause := Some errForcedClose\<rparr>"
  have l: "al_lookup (py_live example_stopped) 0 = Some ?l"
    using example_proxied_live(1) by (simp add: example_stopped_def cancel_live_def example_live_def)
  have "0 \<in> set (h_cancelled (the (forcedCancel (forcedSnapshot (the (forcedSwap (fst (admitRequest (newHandler 1 1) True))))))))"
    by code_simp
  then have c: "0 \<in> set (h_cancelled (py_handler example_stopped))" by (simp add: example_stopped_def example_handlers)
  have k: "errors_Is (lv_cause ?l) ErrForcedClose" by (simp add: errors_Is_def errForcedClose_def)
  have cause: "re_cause (example_env\<lparr>re_cause := Some errForcedClose\<rparr>) = lv_cause ?l" by simp
  have phase: "lv_phase ?l = Proxied (oq_state example_observed) (Some ''s1'')" by simp
  note run = rtranclp_trans [OF example_proxied_run example_stopped_run]
  from forced_close_is_reported [OF example_begin run l phase c cause refl, of None] k show ?thesis
    unfolding Let_def by blast
qed

end
