(* ===== verification/Proxy_Progress.thy ===== *)
theory Proxy_Progress
  imports Proxy_System
begin

text \<open>
  Progress of the proxy of theory \<open>Proxy_System\<close> (\<open>Handler.ServeHTTP\<close> of \<open>internal/proxy/proxy.go\<close>): how
  many steps of \<open>ServeHTTP\<close> the requests in flight still have before them, that one of these steps
  can always be taken, and that nothing but the admission of a request adds to them.

  The transport comes back when upstream answers, fails or the context of the request is cancelled;
  the step that ends a request is there as soon as the reverse proxy returns, which it does when
  upstream and the client are done or that context is cancelled.
\<close>

subsection \<open>The work left\<close>

text \<open>The steps of a request until its slot is free again.\<close>

definition phase_work :: "live_request \<Rightarrow> nat" where
  "phase_work l =
     (if lv_instrumented l then
        (case lv_phase l of
           Arrived \<Rightarrow> 8
         | Acquired start http req session \<Rightarrow> 7
         | Proxied s held \<Rightarrow> (case lv_transport l of NotSent \<Rightarrow> 6 | Sending i \<Rightarrow> 5 | Sent \<Rightarrow> 4)
         | Ended s held \<Rightarrow> 3
         | Released \<Rightarrow> 2)
      else 2)"

definition live_work :: "(nat \<times> live_request) list \<Rightarrow> nat" where
  "live_work live = sum_list (map (\<lambda>e. phase_work (snd e)) live)"

definition proxy_work :: "proxy_system \<Rightarrow> nat" where
  "proxy_work y = live_work (py_live y) + length (h_leaving (py_handler y))"

lemma phase_work_bounds: "1 < phase_work l" "phase_work l \<le> 8"
  by (simp_all add: phase_work_def split: request_phase.split transport.split)

lemma live_work_bound: "live_work live \<le> 8 * length live"
proof (induction live)
  case (Cons e live)
  with phase_work_bounds(2) [of "snd e"] show ?case by (simp add: live_work_def)
qed (simp add: live_work_def)

lemma live_work_put: "al_lookup live n = Some l \<Longrightarrow> live_work (al_put n l' live) + phase_work l = live_work live + phase_work l'"
  by (induction live) (auto simp: live_work_def split: if_splits)

lemma live_work_put_less:
  "al_lookup live n = Some l \<Longrightarrow> phase_work l' < phase_work l \<Longrightarrow> live_work (al_put n l' live) < live_work live"
  "al_lookup live n = Some l \<Longrightarrow> phase_work l' \<le> phase_work l \<Longrightarrow> live_work (al_put n l' live) \<le> live_work live"
  using live_work_put [of live n l l'] by simp_all

lemma live_work_delete:
  assumes "distinct (al_keys live)" and "al_lookup live n = Some l"
  shows "live_work (al_delete n live) + phase_work l = live_work live"
  using assms
proof (induction live)
  case (Cons e live)
  show ?case
  proof (cases "fst e = n")
    case True
    with Cons.prems have "al_delete n live = live" by (intro al_delete_notin) auto
    with True Cons.prems show ?thesis by (cases e) (auto simp: al_delete_def live_work_def)
  next
    case False
    with Cons show ?thesis by (cases e) (auto simp: al_delete_def live_work_def)
  qed
qed simp

lemma live_work_cancel [simp]: "live_work (cancel_live n c live) = live_work live"
proof -
  have "live_work (al_put n (l\<lparr>lv_cause := d\<rparr>) live) = live_work live" if "al_lookup live n = Some l" for l d
    using live_work_put [OF that, of "l\<lparr>lv_cause := d\<rparr>"] by (simp add: phase_work_def cong: if_cong request_phase.case_cong)
  then show ?thesis by (simp add: cancel_live_def split: option.split)
qed

lemma leaving_frame [simp]: "h_leaving (leaveActive h n i) = (n, i) # h_leaving h"
  by (simp add: leaveActive_def Let_def split: option.split)

lemma slot_left:
  assumes "(n, i) \<in> set (h_leaving h)" and "leaveSlot h n i = Some h'"
  shows "length (h_leaving h') < length (h_leaving h)"
proof -
  have "h_leaving h' = remove1 (n, i) (h_leaving h)" using assms(2) by (auto simp: leaveSlot_def split: if_splits)
  with assms(1) length_pos_if_in_set [OF assms(1)] show ?thesis by (simp add: length_remove1)
qed

subsection \<open>No step but an admission adds work\<close>

lemma work_step:
  assumes m: "live_match y" and drained: "h_draining (py_handler y)" and step: "proxy_step e y z"
  shows "proxy_work z \<le> proxy_work y"
  using step
proof cases
  case (arrive r op i h n)
  with drained admitted_active(6) show ?thesis by blast
next
  case (refuse i h)
  with refused_frame [OF refuse(2)] show ?thesis by (simp add: proxy_work_def)
next
  case (leave n l)
  then have "live_work (al_delete n (py_live y)) + phase_work l = live_work (py_live y)"
    using m by (intro live_work_delete) (simp_all add: live_match_def)
  with leave phase_work_bounds(1) [of l] show ?thesis by (simp add: proxy_work_def)
next
  case (free_slot n i h)
  with slot_left [OF free_slot(2,3)] show ?thesis by (simp add: proxy_work_def)
next
  case (forced_swap h)
  with forced_frame(1) [OF forced_swap(2)] show ?thesis by (simp add: proxy_work_def)
next
  case (forced_cancel n rest h)
  with forced_frame(2) [OF forced_cancel(2,3)] show ?thesis by (simp add: proxy_work_def)
next
  case (open_session n l http req ok start reg session)
  then have "phase_work (l\<lparr>lv_phase := Acquired start http req session\<rparr>) \<le> phase_work l" by (simp add: phase_work_def)
  with open_session live_work_put_less(2) show ?thesis by (simp add: proxy_work_def)
next
  case (start_server n l start http req session sampled w reg m q)
  then have "phase_work (l\<lparr>lv_phase := Proxied (oq_state q) (oq_session q)\<rparr>) \<le> phase_work l"
    by (simp add: phase_work_def split: transport.split)
  with start_server live_work_put_less(2) show ?thesis by (simp add: proxy_work_def)
next
  case (observe n l s held op s')
  then have "phase_work (l\<lparr>lv_phase := Proxied s' held\<rparr>) \<le> phase_work l" by (simp add: phase_work_def)
  with observe live_work_put_less(2) show ?thesis by (simp add: proxy_work_def)
next
  case (finish n l s held env panic s')
  then have "phase_work (l\<lparr>lv_phase := Ended s' held\<rparr>) \<le> phase_work l"
    by (simp add: phase_work_def split: transport.split)
  with finish live_work_put_less(2) show ?thesis by (simp add: proxy_work_def)
next
  case (send n l s held now s' i)
  then have "phase_work (l\<lparr>lv_transport := Sending i, lv_phase := Proxied s' held\<rparr>) \<le> phase_work l" by (simp add: phase_work_def)
  with send live_work_put_less(2) show ?thesis by (simp add: proxy_work_def)
next
  case (answer n l s held i res s')
  then have "phase_work (l\<lparr>lv_transport := Sent, lv_phase := Proxied s' held\<rparr>) \<le> phase_work l" by (simp add: phase_work_def)
  with answer live_work_put_less(2) show ?thesis by (simp add: proxy_work_def)
next
  case (transport_panic n l s held i env p s')
  then have "phase_work (l\<lparr>lv_phase := Ended s' held\<rparr>) \<le> phase_work l" by (simp add: phase_work_def)
  with transport_panic live_work_put_less(2) show ?thesis by (simp add: proxy_work_def)
next
  case (release_session n l s held at)
  then have "phase_work (l\<lparr>lv_phase := Released\<rparr>) \<le> phase_work l" by (simp add: phase_work_def)
  with release_session live_work_put_less(2) show ?thesis by (simp add: proxy_work_def)
qed (simp_all add: proxy_work_def beginDrain_def forcedSnapshot_def)

subsection \<open>A step can always be taken\<close>

text \<open>Requests that are passed through are never in a later phase.\<close>

definition phases_ok :: "proxy_system \<Rightarrow> bool" where
  "phases_ok y \<longleftrightarrow> (\<forall>n l. al_lookup (py_live y) n = Some l \<longrightarrow> \<not> lv_instrumented l \<longrightarrow> lv_phase l = Arrived)"

lemma phases_cancel:
  "al_lookup (cancel_live n c live) m = Some l \<Longrightarrow>
   \<exists>l0. al_lookup live m = Some l0 \<and> lv_instrumented l = lv_instrumented l0 \<and> lv_phase l = lv_phase l0"
  by (auto simp: cancel_live_def split: option.splits if_splits)

lemma phases_put:
  assumes "phases_ok y" and "al_lookup (py_live y) n = Some l" and "lv_instrumented l"
  shows "phases_ok (set_phase n l p (on_registry r y))"
  using assms by (simp add: phases_ok_def)

lemma later_phase: "phases_ok y \<Longrightarrow> al_lookup (py_live y) n = Some l \<Longrightarrow> lv_phase l \<noteq> Arrived \<Longrightarrow> lv_instrumented l"
  unfolding phases_ok_def by blast

lemma phases_step:
  assumes ok: "phases_ok y" and step: "proxy_step e y z"
  shows "phases_ok z"
  using step
proof cases
  case (client_gone n)
  with ok phases_cancel show ?thesis unfolding phases_ok_def by fastforce
next
  case (forced_cancel n rest h)
  with ok phases_cancel show ?thesis unfolding phases_ok_def by fastforce
next
  case (arrive r op i h n)
  with ok show ?thesis by (simp add: phases_ok_def)
next
  case (leave n l)
  with ok show ?thesis by (simp add: phases_ok_def)
next
  case (send n l s held now s' i)
  with ok later_phase [OF ok send(2)] show ?thesis by (simp add: phases_ok_def)
next
  case (answer n l s held i res s')
  with ok later_phase [OF ok answer(2)] show ?thesis by (simp add: phases_ok_def)
next
  case (transport_panic n l s held i env p s')
  with ok later_phase [OF ok transport_panic(2)] show ?thesis by (simp add: phases_ok_def)
qed (use ok in \<open>simp_all add: phases_put later_phase phases_ok_def [of "on_registry r y" for r]
  phases_ok_def [of "y\<lparr>py_handler := h\<rparr>" for h], simp_all add: phases_ok_def\<close>)

interpretation phases: transition_system "proxy_step e" proxy_start phases_ok for e
  by unfold_locales (auto simp: phases_ok_def [of "\<lparr>py_handler = h, py_registry = r, py_live = [], py_abandoned = []\<rparr>" for h r] proxy_start_def
    intro: phases_step)

lemma request_progress:
  assumes inv: "proxy_inv y" and ok: "phases_ok y" and l: "al_lookup (py_live y) n = Some l"
  shows "\<exists>z. proxy_step e y z \<and> proxy_work z < proxy_work y"
proof -
  have put: "proxy_work (set_phase n l p (on_registry r y)) < proxy_work y" if "phase_work (l\<lparr>lv_phase := p\<rparr>) < phase_work l" for p r
    using live_work_put_less(1) [OF l that] by (simp add: proxy_work_def)
  have leave: ?thesis if "may_leave l"
  proof -
    have "live_work (al_delete n (py_live y)) + phase_work l = live_work (py_live y)"
      using inv l by (intro live_work_delete) (simp_all add: proxy_inv_def live_match_def)
    with phase_work_bounds(1) [of l]
    have "proxy_work (y\<lparr>py_handler := leaveActive (py_handler y) n (lv_instrumented l), py_live := al_delete n (py_live y)\<rparr>) < proxy_work y"
      by (simp add: proxy_work_def)
    with proxy_step.leave [OF l that] show ?thesis by blast
  qed
  show ?thesis
  proof (cases "lv_instrumented l")
    case False
    with ok l have "may_leave l" by (simp add: may_leave_def phases_ok_def)
    then show ?thesis by (rule leave)
  next
    case instrumented: True
    show ?thesis
    proof (cases "lv_phase l")
      case Arrived
      obtain http req b where peek: "PeekRequest (in_http (lv_request l)) (ho_requestBodyLimit (pe_opts e)) = (http, req, b)"
        by (cases "PeekRequest (in_http (lv_request l)) (ho_requestBodyLimit (pe_opts e))") auto
      from proxy_step.open_session [OF l Arrived instrumented peek prod.collapse [symmetric]] put Arrived instrumented
      show ?thesis by (fastforce simp: phase_work_def)
    next
      case (Acquired start http req session)
      have any: "u = (reg, Instrumented m q) \<Longrightarrow> \<exists>reg m q. u = (reg, Instrumented m q)" for u reg m q by blast
      have "\<exists>reg m q. serve_start (pe_hex e) (pe_sha256 e) (pe_extract e) (pe_opts e) True start (Writer True True None)
          (lv_request l) (lv_op l) n http req session (py_registry y) = (reg, Instrumented m q)"
        by (simp add: serve_start_def Let_def split: prod.split)
      then obtain reg m q where "serve_start (pe_hex e) (pe_sha256 e) (pe_extract e) (pe_opts e) True start
          (Writer True True None) (lv_request l) (lv_op l) n http req session (py_registry y) = (reg, Instrumented m q)"
        by blast
      moreover have "phase_work (l\<lparr>lv_phase := Proxied (oq_state q) (oq_session q)\<rparr>) < phase_work l"
        using Acquired instrumented by (simp add: phase_work_def split: transport.split)
      ultimately show ?thesis using proxy_step.start_server [OF l Acquired] put by blast
    next
      case (Proxied s held)
      show ?thesis
      proof (cases "lv_transport l")
        case (Sending i)
        have "proxy_work (set_phase n (l\<lparr>lv_transport := Sent\<rparr>) (Proxied s' held) (on_registry r y)) < proxy_work y" for s' r
          using live_work_put_less(1) [OF l, of "l\<lparr>lv_transport := Sent, lv_phase := Proxied s' held\<rparr>"] Proxied Sending instrumented
          by (simp add: phase_work_def proxy_work_def)
        with proxy_step.answer [OF l Proxied Sending refl] show ?thesis by blast
      next
        case ready: NotSent
        have cause: "re_cause (\<lparr>re_cause = lv_cause l, re_writeErr = None, re_snapshot = undefined\<rparr>) = lv_cause l" by simp
        have "\<not> waiting l" using ready by (simp add: waiting_def)
        from proxy_step.finish [OF l Proxied this cause refl] put Proxied ready instrumented show ?thesis
          by (fastforce simp: phase_work_def)
      next
        case ready: Sent
        have cause: "re_cause (\<lparr>re_cause = lv_cause l, re_writeErr = None, re_snapshot = undefined\<rparr>) = lv_cause l" by simp
        have "\<not> waiting l" using ready by (simp add: waiting_def)
        from proxy_step.finish [OF l Proxied this cause refl] put Proxied ready instrumented show ?thesis
          by (fastforce simp: phase_work_def)
      qed
    next
      case (Ended s held)
      from proxy_step.release_session [OF l Ended] put Ended instrumented show ?thesis
        by (fastforce simp: phase_work_def)
    next
      case Released
      with instrumented have "may_leave l" by (simp add: may_leave_def)
      then show ?thesis by (rule leave)
    qed
  qed
qed

lemma proxy_progress:
  assumes inv: "proxy_inv y" and ok: "phases_ok y" and work: "proxy_work y > 0"
  shows "\<exists>z. proxy_step e y z \<and> proxy_work z < proxy_work y"
proof (cases "h_leaving (py_handler y)")
  case Nil
  with work obtain n l live where "py_live y = (n, l) # live" by (cases "py_live y") (auto simp: proxy_work_def live_work_def)
  then have "al_lookup (py_live y) n = Some l" by simp
  then show ?thesis by (rule request_progress [OF inv ok])
next
  case (Cons e' leaving)
  obtain n i where "e' = (n, i)" by (cases e')
  with Cons have entry: "(n, i) \<in> set (h_leaving (py_handler y))" by simp
  with leave_slot_inv [of "py_handler y" n i] inv obtain h where h: "leaveSlot (py_handler y) n i = Some h"
    by (auto simp: proxy_inv_def)
  have "proxy_work (y\<lparr>py_handler := h\<rparr>) < proxy_work y" using slot_left [OF entry h] by (simp add: proxy_work_def)
  with proxy_step.free_slot [OF entry h] show ?thesis by blast
qed

lemma no_work_left:
  assumes inv: "proxy_inv y" and work: "proxy_work y = 0"
  shows "py_live y = []" "waitIdleRound (py_handler y) = Inl ()" "slots_used (py_handler y) i = 0"
proof -
  show live: "py_live y = []" using work phase_work_bounds(1) [of "snd (hd (py_live y))"] by (cases "py_live y") (auto simp: proxy_work_def live_work_def)
  have active: "h_active (py_handler y) = []"
  proof (cases "h_active (py_handler y)")
    case (Cons a active)
    then have "(fst a, snd a) \<in> set (h_active (py_handler y))" by simp
    moreover have "(n, j) \<notin> set (h_active (py_handler y))" for n j
      using inv live by (simp add: proxy_inv_def live_match_def kind_of_def)
    ultimately show ?thesis by blast
  qed
  then show "waitIdleRound (py_handler y) = Inl ()" by (simp add: waitIdleRound_def)
  have "slots_ok (py_handler y)" using inv by (simp add: proxy_inv_def handler_inv_def)
  with slots_okD(1) [OF this, of i] active work show "slots_used (py_handler y) i = 0" by (simp add: proxy_work_def)
qed

lemma completion:
  "proxy_inv y \<Longrightarrow> phases_ok y \<Longrightarrow> \<exists>k z. k \<le> proxy_work y \<and> (proxy_step e ^^ k) y z \<and> proxy_inv z \<and> proxy_work z = 0"
proof (induction "proxy_work y" arbitrary: y rule: less_induct)
  case less
  show ?case
  proof (cases "proxy_work y = 0")
    case True
    with less.prems have "(proxy_step e ^^ 0) y y \<and> proxy_inv y \<and> proxy_work y = 0" by simp
    then show ?thesis by blast
  next
    case False
    with proxy_progress [OF less.prems] obtain u where u: "proxy_step e y u" "proxy_work u < proxy_work y" by auto
    with less.hyps [OF u(2) proxy_step_inv [OF less.prems(1) u(1)] phases_step [OF less.prems(2) u(1)]]
    obtain k z where k: "k \<le> proxy_work u" "(proxy_step e ^^ k) u z" "proxy_inv z" "proxy_work z = 0" by blast
    then have "(proxy_step e ^^ Suc k) y z" using relpowp_Suc_I2 [OF u(1) k(2)] by simp
    with k u(2) show ?thesis by (meson Suc_leI le_trans less_le_trans order_le_less_trans)
  qed
qed

lemma drained_work:
  assumes "(proxy_step e)\<^sup>*\<^sup>* y z" and "proxy_inv y" and "h_draining (py_handler y)"
  shows "proxy_work z \<le> proxy_work y"
  using assms(1)
proof (induction rule: rtranclp_induct)
  case (step u v)
  have "proxy_inv u" by (rule proxy.inv_steps [OF step.hyps(1) assms(2)])
  moreover have "handler_step\<^sup>*\<^sup>* (py_handler y) (py_handler u)"
    using admission_view.view_run [OF step.hyps(1)] assms(2) by (simp add: proxy_inv_def)
  then have "h_draining (py_handler u)" using handler_steps_frame assms(3) by blast
  ultimately have "proxy_work v \<le> proxy_work u" using work_step [OF _ _ step.hyps(2)] by (simp add: proxy_inv_def)
  with step.IH show ?case by simp
qed simp

subsection \<open>Property\<close>

text \<open>
  C7: no request gets stuck and none keeps its slot: from every state the proxy can reach, the
  requests in flight can all be completed by their own next steps, at most eight for each request
  and one for each slot that is being given back; then \<open>WaitIdle\<close> returns, all slots are free and
  no request is left. Once the proxy drains, no step of anything adds to that work.
\<close>

theorem requests_can_finish:
  assumes "proxy_start y" and "(proxy_step e)\<^sup>*\<^sup>* y z"
  shows "(\<exists>k z'. k \<le> 8 * length (py_live z) + length (h_leaving (py_handler z)) \<and> (proxy_step e ^^ k) z z' \<and>
      py_live z' = [] \<and> waitIdleRound (py_handler z') = Inl () \<and> slots_used (py_handler z') i = 0) \<and>
    (h_draining (py_handler z) \<and> (proxy_step e)\<^sup>*\<^sup>* z u \<longrightarrow> proxy_work u \<le> proxy_work z)"
proof -
  have inv: "proxy_inv z" "phases_ok z"
    by (rule proxy.reachable_inv [OF assms], rule phases.reachable_inv [OF assms])
  from completion [OF inv, of e] obtain k z' where k: "k \<le> proxy_work z" "(proxy_step e ^^ k) z z'" "proxy_inv z'" "proxy_work z' = 0"
    by blast
  have "proxy_work z \<le> 8 * length (py_live z) + length (h_leaving (py_handler z))"
    using live_work_bound by (simp add: proxy_work_def)
  with k no_work_left [OF k(3,4)] drained_work inv(1) show ?thesis by (meson le_trans)
qed

theorem requests_can_finish_witness:
  "\<exists>k z'. k \<le> 8 \<and> (proxy_step example_penv ^^ k) example_proxied z' \<and> py_live z' = [] \<and> slots_used (py_handler z') True = 0"
proof -
  have "length (py_live example_proxied) = 1"
    by (simp add: example_proxied_def example_acquired_session_def example_arrived_def)
  moreover have "h_leaving (py_handler example_proxied) = []" unfolding example_handlers by code_simp
  ultimately show ?thesis using requests_can_finish [OF example_begin example_proxied_run, of True example_proxied] by auto
qed

end
