(* ===== verification/Tracing_Setup.thy ===== *)
theory Tracing_Setup
  imports Config "HOL-Library.Word"
begin

text \<open>
  The set-up of tracing (\<open>internal/tracing/tracing.go\<close>): the environment variables the
  OpenTelemetry exporters would read are checked, and those the configuration replaces are
  hidden from them for as long as the exporter is created; the endpoint, the resource and the
  IDs of spans.

  The environment is a list of names with values. Not under \<open>src/\<close>, and so arguments: the
  exporters (\<open>create\<close>) and the version of the SDK; of the standard library, \<open>url.Parse\<close>, whether
  a file can be read, whether \<open>os.Unsetenv\<close> fails for a name, and the numbers \<open>rand.Uint64\<close> gives, a
  list. An endpoint stays the parsed URL, which the source prints for the exporter to parse again.
  Putting back a value that was there does not fail.
\<close>

type_synonym environment = "(bytes \<times> bytes) list"

definition getenv :: "environment \<Rightarrow> bytes \<Rightarrow> bytes" where
  "getenv env name = (case al_lookup env name of Some v \<Rightarrow> v | None \<Rightarrow> [])"

definition setenv :: "environment \<Rightarrow> bytes \<times> bytes \<Rightarrow> environment" where
  "setenv env e = al_put (fst e) (snd e) env"

subsection \<open>Endpoints\<close>

definition parseExporterEndpoint :: "url_parser \<Rightarrow> bytes \<Rightarrow> parsed_url or_error" where
  "parseExporterEndpoint parse raw =
     (case parse raw of
        None \<Rightarrow> Inl ''otel.endpoint: invalid URL''
      | Some u \<Rightarrow>
          if pu_user u then Inl ''otel.endpoint: must not contain credentials''
          else if pu_scheme u \<noteq> ''http'' \<and> pu_scheme u \<noteq> ''https'' then Inl ''otel.endpoint: scheme must be http or https''
          else if pu_host u = [] then Inl ''otel.endpoint: missing host''
          else if pu_rawQuery u \<noteq> [] \<or> pu_forceQuery u \<or> CHR ''#'' \<in> set raw
          then Inl ''otel.endpoint: must not contain a query or fragment''
          else Inr u)"

definition grpcEndpoint :: "url_parser \<Rightarrow> bytes \<Rightarrow> parsed_url or_error" where
  "grpcEndpoint parse raw =
     (case parseExporterEndpoint parse raw of
        Inl e \<Rightarrow> Inl e
      | Inr u \<Rightarrow>
          if pu_path u \<noteq> [] \<and> pu_path u \<noteq> ''/'' then Inl ''otel.endpoint: must not carry a path when otel.protocol is grpc''
          else Inr (u\<lparr>pu_path := []\<rparr>))"

definition tracesEndpoint :: "url_parser \<Rightarrow> bytes \<Rightarrow> parsed_url or_error" where
  "tracesEndpoint parse raw =
     (case parseExporterEndpoint parse raw of
        Inl e \<Rightarrow> Inl e
      | Inr u \<Rightarrow> Inr (if pu_path u = [] \<or> pu_path u = ''/'' then u\<lparr>pu_path := ''/v1/traces''\<rparr> else u))"

subsection \<open>Checks of the environment\<close>

text \<open>\<open>url.PathUnescape\<close>.\<close>

fun path_unescape :: "bytes \<Rightarrow> bytes option" where
  "path_unescape [] = Some []"
| "path_unescape (c # s) =
     (if c = CHR ''%'' then
        (case s of
           a # b # rest \<Rightarrow>
             if hex_digit a \<and> hex_digit b
             then map_option (\<lambda>r. char_of (hex_value a * 16 + hex_value b) # r) (path_unescape rest) else None
         | _ \<Rightarrow> None)
      else map_option (\<lambda>r. c # r) (path_unescape s))"

text \<open>\<open>strings.Cut\<close> at one character.\<close>

definition cut_at :: "char \<Rightarrow> bytes \<Rightarrow> (bytes \<times> bytes) option" where
  "cut_at c s = (case dropWhile (\<lambda>d. d \<noteq> c) s of [] \<Rightarrow> None | _ # rest \<Rightarrow> Some (takeWhile (\<lambda>d. d \<noteq> c) s, rest))"

definition valid_header_pair :: "bytes \<Rightarrow> bool" where
  "valid_header_pair pair \<longleftrightarrow>
     (case cut_at (CHR ''='') pair of
        None \<Rightarrow> False
      | Some (name, encoded) \<Rightarrow>
          ValidHeaderName (trim_space name) \<and>
          (case path_unescape encoded of None \<Rightarrow> False | Some decoded \<Rightarrow> ValidHeaderValue decoded))"

definition validHeaderEnvironment :: "bytes \<Rightarrow> bool" where
  "validHeaderEnvironment val \<longleftrightarrow> list_all valid_header_pair (split_char (CHR '','') val)"

text \<open>One of the loops over names: the values that are set must pass a check.\<close>

fun check_vars :: "(bytes \<Rightarrow> bool) \<Rightarrow> bytes \<Rightarrow> environment \<Rightarrow> bytes list \<Rightarrow> unit or_error" where
  "check_vars ok msg env [] = Inr ()"
| "check_vars ok msg env (name # names) =
     (let v = trim_space (getenv env name)
      in if v \<noteq> [] \<and> \<not> ok v then Inl (name @ msg) else check_vars ok msg env names)"

definition is_right :: "'a or_error \<Rightarrow> bool" where
  "is_right r \<longleftrightarrow> (case r of Inr _ \<Rightarrow> True | Inl _ \<Rightarrow> False)"

definition endpoint_names :: "bytes list" where
  "endpoint_names = [''OTEL_EXPORTER_OTLP_ENDPOINT'', ''OTEL_EXPORTER_OTLP_TRACES_ENDPOINT'']"

definition header_names :: "bytes list" where
  "header_names = [''OTEL_EXPORTER_OTLP_HEADERS'', ''OTEL_EXPORTER_OTLP_TRACES_HEADERS'']"

definition validateExporterEnvironment ::
    "url_parser \<Rightarrow> (bytes \<Rightarrow> bool) \<Rightarrow> environment \<Rightarrow> bytes \<Rightarrow> unit or_error" where
  "validateExporterEnvironment parse readable env protocol =
     (let normalize = (if protocol = OTLPProtocolGRPC then grpcEndpoint parse else tracesEndpoint parse)
      in and_then (check_vars (\<lambda>v. is_right (normalize v)) '': invalid URL'' env endpoint_names)
          (and_then (check_vars validHeaderEnvironment '': invalid header configuration'' env header_names)
          (and_then (check_vars (\<lambda>v. atoi v \<noteq> None) '': invalid timeout'' env
              [''OTEL_EXPORTER_OTLP_TIMEOUT'', ''OTEL_EXPORTER_OTLP_TRACES_TIMEOUT''])
          (and_then (check_vars (\<lambda>v. v = ''gzip'' \<or> v = ''none'') '': invalid compression'' env
              [''OTEL_EXPORTER_OTLP_COMPRESSION'', ''OTEL_EXPORTER_OTLP_TRACES_COMPRESSION''])
            (check_vars readable '': cannot read configured file'' env
              [''OTEL_EXPORTER_OTLP_CERTIFICATE'', ''OTEL_EXPORTER_OTLP_TRACES_CERTIFICATE'',
               ''OTEL_EXPORTER_OTLP_CLIENT_CERTIFICATE'', ''OTEL_EXPORTER_OTLP_CLIENT_KEY'',
               ''OTEL_EXPORTER_OTLP_TRACES_CLIENT_CERTIFICATE'', ''OTEL_EXPORTER_OTLP_TRACES_CLIENT_KEY''])))))"

subsection \<open>Masking\<close>

definition restore_env :: "(bytes \<times> bytes) list \<Rightarrow> environment \<Rightarrow> environment" where
  "restore_env saved env = foldl setenv env saved"

text \<open>The loop of \<open>maskEnvironment\<close>: the environment, and what the restore function puts back.\<close>

fun mask_loop ::
    "(bytes \<Rightarrow> bool) \<Rightarrow> bytes list \<Rightarrow> (bytes \<times> bytes) list \<Rightarrow> environment \<Rightarrow> environment \<times> (bytes \<times> bytes) list or_error" where
  "mask_loop unset_fails [] saved env = (env, Inr saved)"
| "mask_loop unset_fails (name # names) saved env =
     (case al_lookup env name of
        None \<Rightarrow> mask_loop unset_fails names saved env
      | Some v \<Rightarrow>
          if unset_fails name then (restore_env saved env, Inl (name @ '': cannot ignore environment value''))
          else mask_loop unset_fails names (saved @ [(name, v)]) (al_delete name env))"

definition maskEnvironment ::
    "(bytes \<Rightarrow> bool) \<Rightarrow> bytes list \<Rightarrow> environment \<Rightarrow> environment \<times> (bytes \<times> bytes) list or_error" where
  "maskEnvironment unset_fails names env = mask_loop unset_fails names [] env"

definition masked_names :: "Config \<Rightarrow> bytes list" where
  "masked_names cfg =
     (if ot_endpoint (cf_otel cfg) \<noteq> [] then endpoint_names else []) @
     (if length (ot_headers (cf_otel cfg)) > 0 then header_names else [])"

record tracing_env =
  te_url :: url_parser
  te_readable :: "bytes \<Rightarrow> bool"
  te_unsetFails :: "bytes \<Rightarrow> bool"

definition prepareExporterEnvironment ::
    "tracing_env \<Rightarrow> Config \<Rightarrow> environment \<Rightarrow> environment \<times> (bytes \<times> bytes) list or_error" where
  "prepareExporterEnvironment te cfg env =
     (case maskEnvironment (te_unsetFails te) (masked_names cfg) env of
        (env1, Inl e) \<Rightarrow> (env1, Inl e)
      | (env1, Inr saved) \<Rightarrow>
          (case validateExporterEnvironment (te_url te) (te_readable te) env1 (ot_protocol (cf_otel cfg)) of
             Inl e \<Rightarrow> (restore_env saved env1, Inl e)
           | Inr _ \<Rightarrow> (env1, Inr saved)))"

text \<open>
  The environment without the two variables, but for one that \<open>os.Unsetenv\<close> fails to remove, which is
  ignored; and the names that were warned about.
\<close>

definition resource_names :: "bytes list" where
  "resource_names = [''OTEL_RESOURCE_ATTRIBUTES'', ''OTEL_SERVICE_NAME'']"

definition scrubResourceEnv :: "(bytes \<Rightarrow> bool) \<Rightarrow> environment \<Rightarrow> environment \<times> bytes list" where
  "scrubResourceEnv unset_fails env =
     (foldl (\<lambda>e name. if unset_fails name then e else al_delete name e) env resource_names,
      filter (\<lambda>name. al_lookup env name \<noteq> None) resource_names)"

subsection \<open>The exporter\<close>

record exporter_options =
  eo_grpc :: bool
  eo_endpoint :: "parsed_url option"
  eo_headers :: "(bytes \<times> bytes) list"

definition exporter_options_of :: "url_parser \<Rightarrow> Config \<Rightarrow> exporter_options or_error" where
  "exporter_options_of parse cfg =
     (let ot = cf_otel cfg; grpc = (ot_protocol ot = OTLPProtocolGRPC);
          normalize = (if grpc then grpcEndpoint parse else tracesEndpoint parse)
      in if ot_endpoint ot = [] then Inr \<lparr>eo_grpc = grpc, eo_endpoint = None, eo_headers = ot_headers ot\<rparr>
         else case normalize (ot_endpoint ot) of
           Inl e \<Rightarrow> Inl e
         | Inr u \<Rightarrow> Inr \<lparr>eo_grpc = grpc, eo_endpoint = Some u, eo_headers = ot_headers ot\<rparr>)"

definition newExporter ::
    "url_parser \<Rightarrow> (exporter_options \<Rightarrow> environment \<Rightarrow> 'x or_error) \<Rightarrow> Config \<Rightarrow> environment \<Rightarrow> 'x or_error" where
  "newExporter parse create cfg env =
     (case exporter_options_of parse cfg of
        Inl e \<Rightarrow> Inl e
      | Inr options \<Rightarrow>
          (case create options env of Inl e \<Rightarrow> Inl (''otlp exporter: '' @ e) | Inr x \<Rightarrow> Inr x))"

text \<open>
  \<open>Init\<close> up to the SDK: the environment afterwards, the one the exporter was created in, if it got
  that far, and the exporter.
\<close>

definition Init_tracing ::
    "tracing_env \<Rightarrow> (exporter_options \<Rightarrow> environment \<Rightarrow> 'x or_error) \<Rightarrow> Config \<Rightarrow> environment \<Rightarrow>
      environment \<times> environment option \<times> 'x or_error" where
  "Init_tracing te create cfg env =
     (let env1 = fst (scrubResourceEnv (te_unsetFails te) env)
      in case prepareExporterEnvironment te cfg env1 of
           (env2, Inl e) \<Rightarrow> (env2, None, Inl e)
         | (env2, Inr saved) \<Rightarrow> (restore_env saved env2, Some env2, newExporter (te_url te) create cfg env2))"

subsection \<open>The resource\<close>

definition buildResource :: "bytes \<Rightarrow> Config \<Rightarrow> attribute list" where
  "buildResource version cfg =
     (let serviceName = (if trim_space (ot_serviceName (cf_otel cfg)) = [] then ot_serviceName (cf_otel Defaults)
                         else ot_serviceName (cf_otel cfg));
          attrs = map (\<lambda>(k, v). (k, StrVal v))
            (filter (\<lambda>(k, v). \<not> (k = ''service.name'' \<or> has_prefix ''telemetry.sdk.'' k))
              (ot_resourceAttributes (cf_otel cfg)))
      in attrs @
         [(''service.name'', StrVal serviceName), (''telemetry.sdk.name'', StrVal ''opentelemetry''),
          (''telemetry.sdk.language'', StrVal ''go''), (''telemetry.sdk.version'', StrVal version)])"

subsection \<open>Limits of a span\<close>

text \<open>\<open>sdktrace.SpanLimits\<close>; the defaults of the SDK are an argument.\<close>

record span_limits =
  sl_attributeValueLength :: int
  sl_attributeCount :: int
  sl_eventCount :: int
  sl_linkCount :: int
  sl_attributePerEventCount :: int
  sl_attributePerLinkCount :: int

definition spanAttributeCountLimit :: int where "spanAttributeCountLimit = 1024"

definition spanLimits :: "span_limits \<Rightarrow> span_limits" where
  "spanLimits sdk =
     \<lparr>sl_attributeValueLength = sl_attributeValueLength sdk, sl_attributeCount = spanAttributeCountLimit,
      sl_eventCount = sl_eventCount sdk, sl_linkCount = sl_linkCount sdk,
      sl_attributePerEventCount = sl_attributePerEventCount sdk,
      sl_attributePerLinkCount = sl_attributePerLinkCount sdk\<rparr>"

subsection \<open>The provider\<close>

text \<open>
  What \<open>Init\<close> gives to the SDK. A sampler is the calls that make it: \<open>ParentBased\<close> with its root
  sampler and the one for a remote parent that is not sampled, the rest being the SDK's. The
  division of \<open>float64\<close> numbers is an argument.
\<close>

datatype sdk_sampler = TraceIDRatioBased go_float | ParentBased sdk_sampler sdk_sampler

definition sampler :: "go_float \<Rightarrow> sdk_sampler" where
  "sampler ratio = ParentBased (TraceIDRatioBased ratio) (TraceIDRatioBased ratio)"

definition SampleRatio :: "(go_float \<Rightarrow> go_float \<Rightarrow> go_float) \<Rightarrow> Config \<Rightarrow> go_float" where
  "SampleRatio over cfg = over (cf_samplePercent cfg) (Finite 100 0)"

definition float_below :: "int \<Rightarrow> go_float \<Rightarrow> bool" where
  "float_below n x \<longleftrightarrow>
     (case x of
        Finite m e \<Rightarrow> if e \<ge> 0 then m * 2 ^ nat e < n else m < n * 2 ^ nat (- e)
      | Infinity neg \<Rightarrow> neg
      | NaN \<Rightarrow> False)"

record sdk_env =
  sk_over :: "go_float \<Rightarrow> go_float \<Rightarrow> go_float"
  sk_limits :: span_limits
  sk_version :: bytes

record provider_options =
  pr_limits :: span_limits
  pr_resource :: "attribute list"
  pr_sampler :: sdk_sampler

definition providerOptions :: "sdk_env \<Rightarrow> Config \<Rightarrow> provider_options" where
  "providerOptions sdk cfg =
     \<lparr>pr_limits = spanLimits (sk_limits sdk), pr_resource = buildResource (sk_version sdk) cfg,
      pr_sampler = sampler (SampleRatio (sk_over sdk) cfg)\<rparr>"

record 'x tracer_provider = provider_options +
  pv_exporter :: 'x
  pv_batchTimeout :: go_time
  pv_maxQueueSize :: nat
  pv_maxExportBatchSize :: nat
  pv_exportTimeout :: go_time

definition NewTracerProvider :: "provider_options \<Rightarrow> 'x \<Rightarrow> 'x tracer_provider" where
  "NewTracerProvider options exporter =
     \<lparr>pr_limits = pr_limits options, pr_resource = pr_resource options, pr_sampler = pr_sampler options,
        pv_exporter = exporter, pv_batchTimeout = 5 * 1000000000, pv_maxQueueSize = 256, pv_maxExportBatchSize = 32,
        pv_exportTimeout = 30 * 1000000000\<rparr>"

text \<open>\<open>Init\<close>: the environment afterwards, and the provider with whether it warned that spans are sampled.\<close>

definition Init ::
    "tracing_env \<Rightarrow> sdk_env \<Rightarrow> (exporter_options \<Rightarrow> environment \<Rightarrow> 'x or_error) \<Rightarrow> Config \<Rightarrow> environment \<Rightarrow>
      environment \<times> ('x tracer_provider \<times> bool) or_error" where
  "Init te sdk create cfg env =
     (case Init_tracing te create cfg env of
        (env', _, Inl e) \<Rightarrow> (env', Inl e)
      | (env', _, Inr exporter) \<Rightarrow>
          (env', Inr (NewTracerProvider (providerOptions sdk cfg) exporter, float_below 1 (SampleRatio (sk_over sdk) cfg))))"

subsection \<open>IDs\<close>

text \<open>\<open>binary.NativeEndian.PutUint64\<close>, on a little-endian machine.\<close>

definition put_uint64 :: "64 word \<Rightarrow> bytes" where
  "put_uint64 w = map (\<lambda>i. char_of (unat (drop_bit (8 * i) w) mod 256)) [0..<8]"

definition valid_id :: "bytes \<Rightarrow> bool" where
  "valid_id i \<longleftrightarrow> list_ex (\<lambda>c. c \<noteq> CHR 0x00) i"

text \<open>The loops that draw until the ID is valid; none when the numbers given do not suffice.\<close>

fun randomTraceID :: "64 word list \<Rightarrow> (bytes \<times> 64 word list) option" where
  "randomTraceID (a # b # draws) =
     (let traceID = put_uint64 a @ put_uint64 b
      in if valid_id traceID then Some (traceID, draws) else randomTraceID draws)"
| "randomTraceID _ = None"

fun randomSpanID :: "64 word list \<Rightarrow> (bytes \<times> 64 word list) option" where
  "randomSpanID (a # draws) =
     (let spanID = put_uint64 a in if valid_id spanID then Some (spanID, draws) else randomSpanID draws)"
| "randomSpanID [] = None"

text \<open>\<open>NewIDs\<close>, where the context may ask for a trace ID.\<close>

definition NewIDs :: "bytes option \<Rightarrow> 64 word list \<Rightarrow> (bytes \<times> bytes \<times> 64 word list) option" where
  "NewIDs requested draws =
     (let traceID = (case requested of
            Some i \<Rightarrow> if valid_id i then Some (i, draws) else randomTraceID draws
          | None \<Rightarrow> randomTraceID draws)
      in case traceID of
           None \<Rightarrow> None
         | Some (i, draws1) \<Rightarrow>
             (case randomSpanID draws1 of None \<Rightarrow> None | Some (s, rest) \<Rightarrow> Some (i, s, rest)))"

definition NewSpanID :: "64 word list \<Rightarrow> (bytes \<times> 64 word list) option" where
  "NewSpanID draws = randomSpanID draws"

end
