(* ===== verification/Config_Safety.thy ===== *)
theory Config_Safety
  imports Config
begin

text \<open>
  What \<open>internal/config\<close> promises: exactly the configurations that satisfy its rules are accepted,
  whatever was loaded satisfies them, and no error repeats a value of the configuration.
\<close>

named_theorems accept_iff \<open>when a check succeeds\<close>

subsection \<open>Which configurations are valid\<close>

definition http_url :: "bytes \<Rightarrow> parsed_url \<Rightarrow> bool" where
  "http_url raw u \<longleftrightarrow>
     \<not> pu_user u \<and> pu_scheme u \<in> {''http'', ''https''} \<and> pu_host u \<noteq> [] \<and> pu_rawQuery u = [] \<and>
     \<not> pu_forceQuery u \<and> CHR ''#'' \<notin> set raw"

definition percent_ok :: "go_float \<Rightarrow> bool" where
  "percent_ok x \<longleftrightarrow> (case x of Finite m e \<Rightarrow> 0 \<le> m \<and> \<not> float_above 100 x | _ \<Rightarrow> False)"

definition valid_otel :: "url_parser \<Rightarrow> OpenTelemetry \<Rightarrow> bool" where
  "valid_otel parse ot \<longleftrightarrow>
     trim_space (ot_serviceName ot) \<noteq> [] \<and> ot_protocol ot \<in> {OTLPProtocolHTTP, OTLPProtocolGRPC} \<and>
     (ot_endpoint ot \<noteq> [] \<longrightarrow>
        (\<exists>u. parse (ot_endpoint ot) = Some u \<and> http_url (ot_endpoint ot) u \<and>
             (ot_protocol ot = OTLPProtocolGRPC \<longrightarrow> pu_path u \<in> {[], ''/''}))) \<and>
     (\<forall>(name, val) \<in> set (ot_headers ot). ValidHeaderName name \<and> ValidHeaderValue val) \<and>
     (\<forall>(key, val) \<in> set (ot_resourceAttributes ot). key \<noteq> ''service.name'' \<and> \<not> has_prefix ''telemetry.sdk.'' key)"

definition valid_config :: "url_parser \<Rightarrow> Config \<Rightarrow> bool" where
  "valid_config parse c \<longleftrightarrow>
     cf_listen c \<noteq> [] \<and> (\<exists>u. parse (cf_upstream c) = Some u \<and> http_url (cf_upstream c) u) \<and> cf_upstream c \<noteq> [] \<and>
     percent_ok (cf_samplePercent c) \<and>
     0 < cf_maxConcurrentRequests c \<and> 0 < cf_maxConcurrentPassthroughRequests c \<and>
     0 < cf_requestBodyLimitMiB c \<and> cf_requestBodyLimitMiB c \<le> 512 \<and>
     0 < cf_requestReadTimeout c \<and> 0 < cf_sessionIdleTimeout c \<and> valid_otel parse (cf_otel c)"

lemma and_then_Inr [accept_iff]: "and_then a b = Inr x \<longleftrightarrow> a = Inr () \<and> b = Inr x"
  by (cases a) (simp_all add: and_then_def)

lemma validateHTTPURL_Inr [accept_iff]:
  "validateHTTPURL parse field raw = Inr u \<longleftrightarrow> parse raw = Some u \<and> http_url raw u"
  by (auto simp: validateHTTPURL_def http_url_def split: option.splits)

lemma validate_headers_Inr [accept_iff]:
  "validate_headers hs = Inr () \<longleftrightarrow> (\<forall>(name, val) \<in> set hs. ValidHeaderName name \<and> ValidHeaderValue val)"
  by (induction hs rule: validate_headers.induct) auto

lemma validate_resource_Inr [accept_iff]:
  "validate_resource rs = Inr () \<longleftrightarrow>
     (\<forall>(key, val) \<in> set rs. key \<noteq> ''service.name'' \<and> \<not> has_prefix ''telemetry.sdk.'' key)"
  by (induction rs rule: validate_resource.induct) auto

lemma validate_endpoint_Inr [accept_iff]:
  "validate_endpoint parse ot = Inr () \<longleftrightarrow>
     (ot_endpoint ot \<noteq> [] \<longrightarrow>
        (\<exists>u. parse (ot_endpoint ot) = Some u \<and> http_url (ot_endpoint ot) u \<and>
             (ot_protocol ot = OTLPProtocolGRPC \<longrightarrow> pu_path u \<in> {[], ''/''})))"
proof (cases "validateHTTPURL parse ''otel.endpoint'' (ot_endpoint ot)")
  case (Inl e)
  then have "\<nexists>u. parse (ot_endpoint ot) = Some u \<and> http_url (ot_endpoint ot) u"
    by (metis validateHTTPURL_Inr Inl_Inr_False)
  with Inl show ?thesis by (auto simp: validate_endpoint_def)
next
  case (Inr u)
  then have "parse (ot_endpoint ot) = Some u" "http_url (ot_endpoint ot) u" by (simp_all add: validateHTTPURL_Inr)
  with Inr show ?thesis by (auto simp: validate_endpoint_def)
qed

lemma percent_checks:
  "percent_ok x \<longleftrightarrow> \<not> (x = NaN \<or> (case x of Infinity neg \<Rightarrow> True | _ \<Rightarrow> False)) \<and> \<not> (float_below_zero x \<or> float_above 100 x)"
  by (cases x) (auto simp: percent_ok_def float_below_zero_def)

lemma validate_limits_Inr [accept_iff]:
  "validate_limits show_float c = Inr () \<longleftrightarrow>
     percent_ok (cf_samplePercent c) \<and> 0 < cf_maxConcurrentRequests c \<and> 0 < cf_maxConcurrentPassthroughRequests c \<and>
     0 < cf_requestBodyLimitMiB c \<and> cf_requestBodyLimitMiB c \<le> 512 \<and> 0 < cf_requestReadTimeout c \<and>
     0 < cf_sessionIdleTimeout c \<and> trim_space (ot_serviceName (cf_otel c)) \<noteq> [] \<and>
     ot_protocol (cf_otel c) \<in> {OTLPProtocolHTTP, OTLPProtocolGRPC}"
  unfolding percent_checks by (auto simp: validate_limits_def)

lemma validate_accepts_rule:
  "validate parse show_float c = Inr c' \<longleftrightarrow>
     valid_config parse c \<and> c' = c\<lparr>cf_upstreamURL := parse (cf_upstream c)\<rparr>"
proof (cases "validateHTTPURL parse ''upstream'' (cf_upstream c)")
  case (Inl e)
  then have "\<nexists>u. parse (cf_upstream c) = Some u \<and> http_url (cf_upstream c) u"
    by (metis validateHTTPURL_Inr Inl_Inr_False)
  with Inl show ?thesis by (auto simp: validate_def valid_config_def)
next
  case (Inr u)
  then have u: "parse (cf_upstream c) = Some u" "http_url (cf_upstream c) u" by (simp_all add: validateHTTPURL_Inr)
  show ?thesis
    by (auto simp: validate_def Inr u valid_config_def valid_otel_def Let_def accept_iff)
qed

text \<open>
  C27: \<open>validate\<close> accepts exactly the configurations that satisfy every rule, in whatever order the
  headers and resource attributes are met, and changes nothing but storing the parsed URL of
  the upstream.
\<close>

theorem validate_accepts_exactly:
  "validate parse show_float c = Inr c' \<longleftrightarrow>
     valid_config parse c \<and> c' = c\<lparr>cf_upstreamURL := parse (cf_upstream c)\<rparr>"
  by (rule validate_accepts_rule)

subsection \<open>Loading\<close>

lemma NormalizeOTLPProtocol_fixed [simp]:
  "NormalizeOTLPProtocol OTLPProtocolHTTP = OTLPProtocolHTTP" "NormalizeOTLPProtocol OTLPProtocolGRPC = OTLPProtocolGRPC"
  by code_simp+

lemma find_config_found:
  assumes "find_config stat p = Inr path"
  shows "(path = [] \<and> p = [] \<and> (\<exists>e. stat LocalPath = NotExist e) \<and> (\<exists>e. stat SystemPath = NotExist e)) \<or>
         (stat path = Exists \<and> path = (if p \<noteq> [] then p else if stat LocalPath = Exists then LocalPath else SystemPath))"
  using assms by (auto simp: find_config_def split: stat_result.splits if_splits)

text \<open>
  What \<open>Load\<close> returns can be used as it is: it satisfies every rule, its protocol is one of the
  two names, the parsed upstream belongs to its text, and the body limit is between 1 and
  512 MiB. It is that of the file that was asked for, or else of the local file, or else of the
  system file, and the defaults are used only when neither exists.
\<close>

lemma load_returns_valid_config:
  assumes "Load env p = Inr c"
  shows "valid_config (ce_url env) c \<and> cf_upstreamURL c = ce_url env (cf_upstream c) \<and>
    ot_protocol (cf_otel c) \<in> {OTLPProtocolHTTP, OTLPProtocolGRPC} \<and>
    RequestBodyLimit c = cf_requestBodyLimitMiB c * 2 ^ 20 \<and> 2 ^ 20 \<le> RequestBodyLimit c \<and> RequestBodyLimit c \<le> 2 ^ 29 \<and>
    (if cf_path c = [] then p = [] \<and> ce_stat env LocalPath \<noteq> Exists \<and> ce_stat env SystemPath \<noteq> Exists \<and>
       c = Defaults\<lparr>cf_upstreamURL := ce_url env (cf_upstream Defaults)\<rparr>
     else ce_stat env (cf_path c) = Exists \<and>
       cf_path c = (if p \<noteq> [] then p else if ce_stat env LocalPath = Exists then LocalPath else SystemPath))"
proof -
  from assms obtain path where path: "find_config (ce_stat env) p = Inr path"
    by (auto simp: Load_def split: sum.splits)
  from assms path obtain c0 where c0: "load_file env path = Inr c0" by (auto simp: Load_def split: sum.splits)
  define c1 where "c1 = c0\<lparr>cf_otel := (cf_otel c0)\<lparr>ot_protocol := NormalizeOTLPProtocol (ot_protocol (cf_otel c0))\<rparr>\<rparr>"
  from assms path c0 have "validate (ce_url env) (ce_show env) c1 = Inr c"
    by (auto simp: Load_def c1_def Let_def split: sum.splits)
  then have valid: "valid_config (ce_url env) c1" and c: "c = c1\<lparr>cf_upstreamURL := ce_url env (cf_upstream c1)\<rparr>"
    by (simp_all add: validate_accepts_rule)
  have valid_c: "valid_config (ce_url env) c" using valid unfolding c by (simp add: valid_config_def)
  then have mib: "0 < cf_requestBodyLimitMiB c" "cf_requestBodyLimitMiB c \<le> 512"
    and proto: "ot_protocol (cf_otel c) \<in> {OTLPProtocolHTTP, OTLPProtocolGRPC}"
    by (simp_all add: valid_config_def valid_otel_def)
  have limit: "RequestBodyLimit c = cf_requestBodyLimitMiB c * 2 ^ 20"
    using mib by (simp add: RequestBodyLimit_def int64_ok_def)
  have at: "cf_path c = path"
    using c0 unfolding c c1_def by (auto simp: load_file_def Defaults_def split: if_splits sum.splits prod.splits)
  have defaults: "path = [] \<Longrightarrow> c = Defaults\<lparr>cf_upstreamURL := ce_url env (cf_upstream Defaults)\<rparr>"
    using c0 unfolding c c1_def by (auto simp: load_file_def) (simp add: Defaults_def)
  show ?thesis
    using valid_c proto limit mib find_config_found [OF path] at defaults c by (auto simp: LocalPath_def SystemPath_def)
qed

definition example_url :: parsed_url where
  "example_url =
     \<lparr>pu_scheme = ''http'', pu_user = False, pu_host = ''127.0.0.1:8080'', pu_path = [], pu_rawQuery = [],
      pu_forceQuery = False\<rparr>"

text \<open>A file system with one file, and a decoder that sets the headers from it.\<close>

definition example_config_env :: "(bytes \<times> bytes) list \<Rightarrow> config_env" where
  "example_config_env headers =
     \<lparr>ce_stat = (\<lambda>p. if p = ''a.yaml'' then Exists else NotExist ''not found''),
      ce_open = (\<lambda>_. Inr (\<lambda>c. Decoded (c\<lparr>cf_otel := (cf_otel c)\<lparr>ot_headers := headers\<rparr>\<rparr>), DecodeEOF)),
      ce_url = (\<lambda>_. Some example_url), ce_show = (\<lambda>_. [])\<rparr>"

definition example_config :: Config where
  "example_config = Defaults\<lparr>cf_otel := (cf_otel Defaults)\<lparr>ot_headers := [(''x-key'', ''secret'')]\<rparr>, cf_path := ''a.yaml'',
     cf_upstreamURL := Some example_url\<rparr>"

lemma load_returns_valid_config_witness:
  "valid_config (ce_url (example_config_env [(''x-key'', ''secret'')])) example_config \<and>
   cf_path example_config = ''a.yaml'' \<and> RequestBodyLimit example_config \<le> 2 ^ 29"
proof -
  have load: "Load (example_config_env [(''x-key'', ''secret'')]) ''a.yaml'' = Inr example_config" by code_simp
  have "cf_path example_config = ''a.yaml''" by (simp add: example_config_def)
  with load_returns_valid_config [OF load] show ?thesis by simp
qed

subsection \<open>Errors\<close>

definition url_errors :: "bytes \<Rightarrow> bytes list" where
  "url_errors field =
     map (\<lambda>m. field @ m)
       ['': invalid URL'', '': must not contain credentials'', '': scheme must be http or https'', '': missing host'',
        '': must not contain a query or fragment'']"

definition config_messages :: "bytes list" where
  "config_messages =
     [''listen: must not be empty'', ''upstream: must not be empty''] @ url_errors ''upstream'' @ url_errors ''otel.endpoint'' @
     [''max_concurrent_requests: must be greater than zero'',
      ''max_concurrent_passthrough_requests: must be greater than zero'',
      ''request_body_limit_mib: must be greater than zero'', ''request_read_timeout: must be greater than zero'',
      ''session_idle_timeout: must be greater than zero'', ''otel.service_name: must not be empty'',
      ''otel.protocol: must be '' @ quoted OTLPProtocolHTTP @ '' or '' @ quoted OTLPProtocolGRPC,
      ''otel.endpoint: must not carry a path when otel.protocol is grpc'',
      ''otel.headers: contains an invalid header name'', ''otel.headers: contains an invalid header value'',
      ''otel.resource_attributes: service.name is reserved; set it through otel.service_name'',
      ''otel.resource_attributes: telemetry.sdk.* is reserved for the SDK'']"

lemma validateHTTPURL_Inl: "validateHTTPURL parse field raw = Inl e \<Longrightarrow> e \<in> set (url_errors field)"
  by (auto simp: validateHTTPURL_def url_errors_def split: option.splits if_splits)

lemma validate_headers_Inl:
  "validate_headers hs = Inl e \<Longrightarrow>
   e \<in> {''otel.headers: contains an invalid header name'', ''otel.headers: contains an invalid header value''}"
  by (induction hs rule: validate_headers.induct) (auto split: if_splits)

lemma validate_resource_Inl:
  "validate_resource rs = Inl e \<Longrightarrow>
   e \<in> {''otel.resource_attributes: service.name is reserved; set it through otel.service_name'',
        ''otel.resource_attributes: telemetry.sdk.* is reserved for the SDK''}"
  by (induction rs rule: validate_resource.induct) (auto split: if_splits)

lemma validate_endpoint_Inl:
  "validate_endpoint parse ot = Inl e \<Longrightarrow>
   e \<in> set (url_errors ''otel.endpoint'') \<union> {''otel.endpoint: must not carry a path when otel.protocol is grpc''}"
  by (auto simp: validate_endpoint_def split: if_splits sum.splits dest: validateHTTPURL_Inl)

definition number_messages :: "(go_float \<Rightarrow> bytes) \<Rightarrow> Config \<Rightarrow> bytes list" where
  "number_messages show_float c =
     [''sample_percent: must be a finite number, got '' @ show_float (cf_samplePercent c),
      ''sample_percent: must be within 0..100, got '' @ show_float (cf_samplePercent c),
      ''request_body_limit_mib: must be at most 512, got '' @ itoa (cf_requestBodyLimitMiB c)]"

lemma validate_limits_Inl:
  "validate_limits show_float c = Inl e \<Longrightarrow> e \<in> set (config_messages @ number_messages show_float c)"
  by (auto simp: validate_limits_def config_messages_def number_messages_def split: if_splits)

lemma and_then_Inl: "and_then a b = Inl e \<longleftrightarrow> a = Inl e \<or> a = Inr () \<and> b = Inl e"
  by (cases a) (auto simp: and_then_def)

text \<open>
  An error of \<open>validate\<close> is one of a fixed list of messages, besides the two settings whose
  number it names. So it repeats no header, no URL and no attribute of the configuration.
\<close>

lemma validation_errors_hide_values:
  assumes "validate parse show_float c = Inl e"
  shows "e \<in> set (config_messages @ number_messages show_float c)"
proof -
  have urls: "set (url_errors ''upstream'') \<subseteq> set config_messages" "set (url_errors ''otel.endpoint'') \<subseteq> set config_messages"
    by (auto simp: config_messages_def)
  have first: "''listen: must not be empty'' \<in> set config_messages" "''upstream: must not be empty'' \<in> set config_messages"
    by (simp_all add: config_messages_def)
  have limits: "number_messages show_float (c\<lparr>cf_upstreamURL := u\<rparr>) = number_messages show_float c" for u
    by (simp add: number_messages_def)
  have lists: "validate_headers hs = Inl e \<Longrightarrow> e \<in> set config_messages" "validate_resource rs = Inl e \<Longrightarrow> e \<in> set config_messages"
    "validate_endpoint parse ot = Inl e \<Longrightarrow> e \<in> set config_messages" for hs rs ot
    using validate_headers_Inl [of hs e] validate_resource_Inl [of rs e] validate_endpoint_Inl [of parse ot e] urls(2)
    by (auto simp: config_messages_def)
  consider "cf_listen c = []" "e = ''listen: must not be empty''" | "cf_upstream c = []" "e = ''upstream: must not be empty''"
    | "validateHTTPURL parse ''upstream'' (cf_upstream c) = Inl e"
    | u where "validate_limits show_float (c\<lparr>cf_upstreamURL := Some u\<rparr>) = Inl e"
    | "validate_endpoint parse (cf_otel c) = Inl e" | "validate_headers (ot_headers (cf_otel c)) = Inl e"
    | "validate_resource (ot_resourceAttributes (cf_otel c)) = Inl e"
    using assms by (auto simp: validate_def Let_def and_then_Inl split: if_splits sum.splits)
  then show ?thesis
  proof cases
    case 3
    from validateHTTPURL_Inl [OF this] urls(1) show ?thesis by auto
  next
    case 4
    from validate_limits_Inl [OF this] limits show ?thesis by simp
  qed (use lists first in \<open>simp_all\<close>)
qed

lemma validation_errors_hide_values_witness:
  "''otel.headers: contains an invalid header value'' \<in> set (config_messages @ number_messages (\<lambda>_. [])
     (Defaults\<lparr>cf_otel := (cf_otel Defaults)\<lparr>ot_headers := [(''x-key'', ''secret'' @ [CHR 0x0A])]\<rparr>\<rparr>))"
proof -
  have "validate (\<lambda>_. Some example_url) (\<lambda>_. [])
      (Defaults\<lparr>cf_otel := (cf_otel Defaults)\<lparr>ot_headers := [(''x-key'', ''secret'' @ [CHR 0x0A])]\<rparr>\<rparr>) =
      Inl ''otel.headers: contains an invalid header value''"
    by code_simp
  from validation_errors_hide_values [OF this] show ?thesis .
qed

end
