(* ===== verification/Tracing_Safety.thy ===== *)
theory Tracing_Safety
  imports Tracing_Setup Config_Safety
begin

text \<open>
  What \<open>internal/tracing\<close> promises: the environment is as it was before, but for the variables it
  warns about; an accepted configuration has an acceptable endpoint; the resource is the
  configured one; IDs are never zero.
\<close>

subsection \<open>The environment\<close>

text \<open>Two environments a program cannot tell apart.\<close>

definition same_env :: "environment \<Rightarrow> environment \<Rightarrow> bool" where
  "same_env e1 e2 \<longleftrightarrow> (\<forall>name. al_lookup e1 name = al_lookup e2 name)"

definition hides :: "environment \<Rightarrow> bytes set \<Rightarrow> environment \<Rightarrow> bool" where
  "hides old names new \<longleftrightarrow> (\<forall>n. al_lookup new n = (if n \<in> names then None else al_lookup old n))"

text \<open>What \<open>maskEnvironment\<close> saves is what it hides, so putting it back gives the old environment.\<close>

definition saves :: "environment \<Rightarrow> bytes set \<Rightarrow> (bytes \<times> bytes) list \<Rightarrow> bool" where
  "saves old names saved \<longleftrightarrow>
     distinct (al_keys saved) \<and> (\<forall>n. al_lookup saved n = (if n \<in> names then al_lookup old n else None))"

lemma lookup_restore:
  "distinct (al_keys saved) \<Longrightarrow>
   al_lookup (restore_env saved env) n = (case al_lookup saved n of Some v \<Rightarrow> Some v | None \<Rightarrow> al_lookup env n)"
proof (induction saved arbitrary: env)
  case (Cons e saved)
  obtain k v where e: "e = (k, v)" by (cases e)
  have "al_lookup (restore_env (e # saved) env) n =
      (case al_lookup saved n of Some v \<Rightarrow> Some v | None \<Rightarrow> al_lookup (setenv env e) n)"
    using Cons by (simp add: restore_env_def)
  moreover have "n = k \<Longrightarrow> al_lookup saved n = None" using Cons.prems e by (simp add: al_lookup_None)
  ultimately show ?case by (auto simp: e setenv_def split: option.split)
qed (simp add: restore_env_def)

lemma restore_hidden: "hides old names new \<Longrightarrow> saves old names saved \<Longrightarrow> same_env (restore_env saved new) old"
  by (auto simp: same_env_def hides_def saves_def lookup_restore split: option.split)

lemma lookup_append: "al_lookup (xs @ ys) n = (case al_lookup xs n of Some v \<Rightarrow> Some v | None \<Rightarrow> al_lookup ys n)"
  by (induction xs n rule: al_lookup.induct) auto

lemma mask_loop_hides:
  assumes "hides old hidden env" and "saves old hidden saved"
  shows "case mask_loop fails names saved env of
      (new, Inr all) \<Rightarrow> hides old (hidden \<union> set names) new \<and> saves old (hidden \<union> set names) all
    | (new, Inl e) \<Rightarrow> same_env new old"
  using assms
proof (induction fails names saved env arbitrary: hidden rule: mask_loop.induct)
  case (1 fails saved env)
  then show ?case by simp
next
  case (2 fails name names saved env)
  show ?case
  proof (cases "al_lookup env name")
    case None
    with "2.prems" have "hides old (insert name hidden) env" "saves old (insert name hidden) saved"
      by (auto simp: hides_def saves_def split: if_splits)
    from "2.IH"(1) [OF None this] None show ?thesis by (simp split: prod.splits sum.splits)
  next
    case (Some v)
    show ?thesis
    proof (cases "fails name")
      case True
      with Some restore_hidden [OF "2.prems"] show ?thesis by simp
    next
      case False
      from Some "2.prems" have new: "name \<notin> hidden" "al_lookup old name = Some v"
        by (auto simp: hides_def split: if_splits)
      then have unsaved: "al_lookup saved name = None" using "2.prems"(2) by (simp add: saves_def)
      then have "name \<notin> fst ` set saved" by (simp only: al_lookup_None not_False_eq_True)
      with "2.prems"(2) new unsaved have "saves old (insert name hidden) (saved @ [(name, v)])"
        by (auto simp: saves_def lookup_append split: option.split)
      moreover have "hides old (insert name hidden) (al_delete name env)" using "2.prems"(1) by (simp add: hides_def)
      ultimately have this: "hides old (insert name hidden) (al_delete name env)"
        "saves old (insert name hidden) (saved @ [(name, v)])" by simp_all
      from "2.IH"(2) [OF Some False this] Some False show ?thesis by (simp split: prod.splits sum.splits)
    qed
  qed
qed

lemma maskEnvironment_hides:
  "case maskEnvironment fails names env of
     (new, Inr saved) \<Rightarrow> hides env (set names) new \<and> saves env (set names) saved
   | (new, Inl e) \<Rightarrow> same_env new env"
  using mask_loop_hides [where old = env and hidden = "{}" and env = env and saved = "[]" and fails = fails and names = names]
  by (simp add: maskEnvironment_def hides_def [of env "{}"] saves_def [of env "{}"])

lemma prepare_hides:
  "case prepareExporterEnvironment te cfg env of
     (new, Inr saved) \<Rightarrow> hides env (set (masked_names cfg)) new \<and> saves env (set (masked_names cfg)) saved
   | (new, Inl e) \<Rightarrow> same_env new env"
  using maskEnvironment_hides [where fails = "te_unsetFails te" and names = "masked_names cfg" and env = env]
  by (auto simp: prepareExporterEnvironment_def restore_hidden split: prod.splits sum.splits)

text \<open>The variables that are removed: all of \<open>resource_names\<close>, if \<open>os.Unsetenv\<close> does not fail.\<close>

definition scrubbed_names :: "tracing_env \<Rightarrow> bytes set" where
  "scrubbed_names te = {name \<in> set resource_names. \<not> te_unsetFails te name}"

lemma scrub_hides: "hides env (scrubbed_names te) (fst (scrubResourceEnv (te_unsetFails te) env))"
  by (auto simp: hides_def scrubResourceEnv_def scrubbed_names_def resource_names_def)

lemma init_environment:
  "case Init_tracing te create cfg env of
     (after, during, res) \<Rightarrow>
       hides env (scrubbed_names te) after \<and>
       (case during of
          None \<Rightarrow> True
        | Some e \<Rightarrow> hides env (scrubbed_names te \<union> set (masked_names cfg)) e \<and> res = newExporter (te_url te) create cfg e)"
proof -
  let ?env1 = "fst (scrubResourceEnv (te_unsetFails te) env)"
  obtain new saved where p: "prepareExporterEnvironment te cfg ?env1 = (new, saved)"
    by (cases "prepareExporterEnvironment te cfg ?env1")
  have same: "same_env e ?env1 \<Longrightarrow> hides env (scrubbed_names te) e" for e
    using scrub_hides [of env te] by (simp add: same_env_def hides_def)
  show ?thesis
  proof (cases saved)
    case (Inl e)
    with prepare_hides [where te = te and cfg = cfg and env = ?env1] p same show ?thesis by (simp add: Init_tracing_def)
  next
    case (Inr all)
    with prepare_hides [where te = te and cfg = cfg and env = ?env1] p have h: "hides ?env1 (set (masked_names cfg)) new"
      "saves ?env1 (set (masked_names cfg)) all" by simp_all
    have "hides env (scrubbed_names te \<union> set (masked_names cfg)) new"
      using h(1) scrub_hides [of env te] by (auto simp: hides_def)
    with Inr p same [OF restore_hidden [OF h]] show ?thesis by (simp add: Init_tracing_def)
  qed
qed

text \<open>
  C29: setting up tracing leaves the environment as it was, whether it succeeds or fails, but for
  the two resource variables, which are removed (where the system lets it). While the exporter is created, the variables that
  the configuration replaces are hidden from it and all others have their values.
\<close>

theorem init_preserves_environment:
  "case Init_tracing te create cfg env of
     (after, during, res) \<Rightarrow>
       hides env (scrubbed_names te) after \<and>
       (case during of
          None \<Rightarrow> True
        | Some e \<Rightarrow> hides env (scrubbed_names te \<union> set (masked_names cfg)) e \<and> res = newExporter (te_url te) create cfg e)"
  by (rule init_environment)

subsection \<open>Endpoints and the resource\<close>

text \<open>The exporter parses the endpoint with the checks of the configuration.\<close>

lemma exporter_checks_endpoint: "parseExporterEndpoint parse raw = validateHTTPURL parse ''otel.endpoint'' raw"
  by (simp add: parseExporterEndpoint_def validateHTTPURL_def split: option.split)

text \<open>
  A configuration that is accepted can be used: its endpoint is accepted by the exporter of its
  protocol, with the same host; over gRPC without a path, over HTTP with the path
  \<open>/v1/traces\<close> when it has none. Without an endpoint the exporter decides. Its headers are passed on.
\<close>

lemma accepted_endpoint_usable:
  assumes "valid_config parse cfg"
  shows "\<exists>options. exporter_options_of parse cfg = Inr options \<and>
    (eo_grpc options \<longleftrightarrow> ot_protocol (cf_otel cfg) = OTLPProtocolGRPC) \<and> eo_headers options = ot_headers (cf_otel cfg) \<and>
    eo_endpoint options =
      (if ot_endpoint (cf_otel cfg) = [] then None
       else map_option (\<lambda>u. u\<lparr>pu_path :=
           (if eo_grpc options then [] else if pu_path u \<in> {[], ''/''} then ''/v1/traces'' else pu_path u)\<rparr>)
         (parse (ot_endpoint (cf_otel cfg))))"
proof (cases "ot_endpoint (cf_otel cfg) = []")
  case True
  then show ?thesis by (simp add: exporter_options_of_def Let_def)
next
  case False
  with assms obtain u where u: "parse (ot_endpoint (cf_otel cfg)) = Some u" "http_url (ot_endpoint (cf_otel cfg)) u"
    and path: "ot_protocol (cf_otel cfg) = OTLPProtocolGRPC \<Longrightarrow> pu_path u \<in> {[], ''/''}"
    by (auto simp: valid_config_def valid_otel_def)
  then have checked: "parseExporterEndpoint parse (ot_endpoint (cf_otel cfg)) = Inr u"
    by (simp add: exporter_checks_endpoint validateHTTPURL_Inr)
  have traces: "tracesEndpoint parse (ot_endpoint (cf_otel cfg)) =
      Inr (u\<lparr>pu_path := (if pu_path u \<in> {[], ''/''} then ''/v1/traces'' else pu_path u)\<rparr>)"
    by (cases "pu_path u \<in> {[], ''/''}") (auto simp: tracesEndpoint_def checked)
  have grpc: "grpcEndpoint parse (ot_endpoint (cf_otel cfg)) = Inr (u\<lparr>pu_path := []\<rparr>)"
    if "ot_protocol (cf_otel cfg) = OTLPProtocolGRPC"
    using path [OF that] by (auto simp: grpcEndpoint_def checked)
  show ?thesis
  proof (cases "ot_protocol (cf_otel cfg) = OTLPProtocolGRPC")
    case True
    with grpc False u(1) show ?thesis by (simp add: exporter_options_of_def Let_def)
  next
    case not_grpc: False
    with traces False u(1) show ?thesis by (simp add: exporter_options_of_def Let_def)
  qed
qed

lemma accepted_endpoint_usable_witness:
  "\<exists>options. exporter_options_of (\<lambda>_. Some example_url) example_config = Inr options \<and>
     eo_endpoint options = Some (example_url\<lparr>pu_path := ''/v1/traces''\<rparr>) \<and> eo_headers options = [(''x-key'', ''secret'')]"
proof -
  have "validate (\<lambda>_. Some example_url) (\<lambda>_. []) example_config = Inr example_config" by code_simp
  then have "valid_config (\<lambda>_. Some example_url) example_config" unfolding validate_accepts_rule by simp
  moreover have "ot_endpoint (cf_otel example_config) \<noteq> []" "ot_protocol (cf_otel example_config) \<noteq> OTLPProtocolGRPC"
    "ot_headers (cf_otel example_config) = [(''x-key'', ''secret'')]" "pu_path example_url = []"
    by (simp_all add: example_config_def Defaults_def OTLPProtocolHTTP_def OTLPProtocolGRPC_def example_url_def)
  ultimately show ?thesis using accepted_endpoint_usable [of "\<lambda>_. Some example_url" example_config] by auto
qed

definition protected_keys :: "bytes list" where
  "protected_keys = [''service.name'', ''telemetry.sdk.name'', ''telemetry.sdk.language'', ''telemetry.sdk.version'']"

lemma protected_key: "k \<in> set protected_keys \<Longrightarrow> k = ''service.name'' \<or> has_prefix ''telemetry.sdk.'' k"
  by (auto simp: protected_keys_def has_prefix_def)

text \<open>
  Nothing in the configured resource attributes can replace the name of the service or what
  the SDK says of itself: each of these keys is set once, with its value, the service name never
  being blank, and all other attributes are kept.
\<close>

lemma resource_identity_protected:
  "filter (\<lambda>a. fst a \<in> set protected_keys) (buildResource version cfg) =
     [(''service.name'', StrVal (if trim_space (ot_serviceName (cf_otel cfg)) = [] then ''llamaproxy''
                                 else ot_serviceName (cf_otel cfg))),
      (''telemetry.sdk.name'', StrVal ''opentelemetry''), (''telemetry.sdk.language'', StrVal ''go''),
      (''telemetry.sdk.version'', StrVal version)] \<and>
   filter (\<lambda>a. fst a \<notin> set protected_keys) (buildResource version cfg) =
     map (\<lambda>(k, v). (k, StrVal v))
       (filter (\<lambda>(k, v). \<not> (k = ''service.name'' \<or> has_prefix ''telemetry.sdk.'' k))
         (ot_resourceAttributes (cf_otel cfg)))"
proof -
  let ?kept = "map (\<lambda>(k, v). (k, StrVal v)) (filter (\<lambda>(k, v). \<not> (k = ''service.name'' \<or> has_prefix ''telemetry.sdk.'' k))
            (ot_resourceAttributes (cf_otel cfg)))"
  let ?name = "if trim_space (ot_serviceName (cf_otel cfg)) = [] then ot_serviceName (cf_otel Defaults)
               else ot_serviceName (cf_otel cfg)"
  let ?ours = "[(''service.name'', StrVal ?name), (''telemetry.sdk.name'', StrVal ''opentelemetry''),
     (''telemetry.sdk.language'', StrVal ''go''), (''telemetry.sdk.version'', StrVal version)]"
  have built: "buildResource version cfg = ?kept @ ?ours" by (simp only: buildResource_def Let_def)
  have "fst a \<notin> set protected_keys" if "a \<in> set ?kept" for a
    using that protected_key [of "fst a"] by auto
  then have kept: "filter (\<lambda>a. fst a \<in> set protected_keys) ?kept = []" "filter (\<lambda>a. fst a \<notin> set protected_keys) ?kept = ?kept"
    by (auto simp only: filter_empty_conv filter_id_conv)
  have "list_all (\<lambda>a. fst a \<in> set protected_keys) ?ours" by (simp add: protected_keys_def)
  then have ours: "filter (\<lambda>a. fst a \<in> set protected_keys) ?ours = ?ours" "filter (\<lambda>a. fst a \<notin> set protected_keys) ?ours = []"
    by (auto simp only: filter_empty_conv filter_id_conv list_all_iff)
  have "ot_serviceName (cf_otel Defaults) = ''llamaproxy''" by (simp add: Defaults_def)
  then show ?thesis unfolding built filter_append kept ours by (simp only: append_Nil append_Nil2 simp_thms)
qed

subsection \<open>IDs\<close>

text \<open>A number whose bytes are all zero is zero.\<close>

lemma digits_zero: "n < 256 ^ k \<Longrightarrow> (\<And>i. i < k \<Longrightarrow> n div 256 ^ i mod 256 = 0) \<Longrightarrow> n = (0::nat)"
proof (induction k arbitrary: n)
  case (Suc k)
  have rest: "n div 256 div 256 ^ i mod 256 = 0" if "i < k" for i
    using Suc.prems(2) [of "Suc i"] that by (simp add: div_mult2_eq)
  have "n div 256 < 256 ^ k" using Suc.prems(1) less_mult_imp_div_less [of n "256 ^ k" 256] by (simp add: mult.commute)
  from Suc.IH [OF this rest] have "n div 256 = 0" .
  moreover have "n mod 256 = 0" using Suc.prems(2) [of 0] by simp
  ultimately show ?case using div_mult_mod_eq [of n 256] by simp
qed simp

lemma char_of_zero: "(char_of (n mod 256) :: char) = CHR 0x00 \<longleftrightarrow> n mod 256 = (0::nat)"
  by (auto simp: char_of_eq_iff take_bit_eq_mod)

lemma unat_shift: "unat (drop_bit k (w :: 64 word)) = unat w div 2 ^ k"
  by (simp only: unat_drop_bit_eq) (simp add: drop_bit_eq_div)

lemma put_uint64_valid: "valid_id (put_uint64 w) \<longleftrightarrow> w \<noteq> 0"
proof
  assume "w \<noteq> 0"
  have "unat w < 256 ^ 8" using unsigned_less [of w, where ?'a = nat] by simp
  with \<open>w \<noteq> 0\<close> have "\<not> (\<forall>i < 8. unat w div 256 ^ i mod 256 = 0)"
    using digits_zero [of "unat w" 8] by (metis unat_eq_zero)
  then obtain i where "i < 8" "unat w div 256 ^ i mod 256 \<noteq> 0" by blast
  moreover have "unat (drop_bit (8 * i) w) = unat w div 256 ^ i"
    unfolding unat_shift power_mult by simp
  ultimately have i: "i \<in> set [0..<8]" "unat (drop_bit (8 * i) w) mod 256 \<noteq> 0" by (simp_all only: atLeast_upt set_upt atLeastLessThan_iff le0 simp_thms)
  have "char_of (unat (drop_bit (8 * i) w) mod 256) \<noteq> CHR 0x00" using i(2) unfolding char_of_zero .
  with i(1) show "valid_id (put_uint64 w)" unfolding valid_id_def put_uint64_def list_ex_iff set_map by blast
next
  assume "valid_id (put_uint64 w)"
  then show "w \<noteq> 0" by (auto simp: valid_id_def put_uint64_def list_ex_iff char_of_eq_iff)
qed

lemma valid_id_append: "valid_id (xs @ ys) \<longleftrightarrow> valid_id xs \<or> valid_id ys"
  by (simp add: valid_id_def)

lemma randomTraceID_zeros:
  "a \<noteq> 0 \<or> b \<noteq> 0 \<Longrightarrow>
   randomTraceID (concat (replicate k [0, 0]) @ a # b # rest) = Some (put_uint64 a @ put_uint64 b, rest)"
  by (induction k) (auto simp: valid_id_append put_uint64_valid)

lemma randomSpanID_zeros: "c \<noteq> 0 \<Longrightarrow> randomSpanID (replicate m 0 @ c # rest) = Some (put_uint64 c, rest)"
  by (induction m) (auto simp: put_uint64_valid)

text \<open>
  C30: drawing IDs ends with the first number that is not zero, however many zeros come before it,
  and gives a trace ID of 16 bytes and a span ID of 8 that are not zero. A valid trace ID asked for
  by the context, as of a session, is taken as it is.
\<close>

theorem new_ids_terminate:
  assumes "a \<noteq> 0 \<or> b \<noteq> 0" and "c \<noteq> 0" and "valid_id i"
  shows "NewIDs None (concat (replicate k [0, 0]) @ a # b # replicate m 0 @ c # rest) =
      Some (put_uint64 a @ put_uint64 b, put_uint64 c, rest) \<and>
    NewIDs (Some i) (replicate m 0 @ c # rest) = Some (i, put_uint64 c, rest) \<and>
    valid_id (put_uint64 a @ put_uint64 b) \<and> length (put_uint64 a @ put_uint64 b) = 16 \<and>
    valid_id (put_uint64 c) \<and> length (put_uint64 c) = 8"
  using assms
  by (simp add: NewIDs_def randomTraceID_zeros randomSpanID_zeros valid_id_append put_uint64_valid)
    (simp add: put_uint64_def)

theorem new_ids_terminate_witness:
  "NewIDs None [0, 0, 0, 5, 0, 7] = Some (put_uint64 0 @ put_uint64 5, put_uint64 7, []) \<and>
   NewIDs (Some ''x'') [0, 7] = Some (''x'', put_uint64 7, [])"
proof -
  have "valid_id ''x''" by (simp add: valid_id_def)
  from new_ids_terminate [of 0 5 7, OF _ _ this, of 1 1 "[]"] show ?thesis by simp
qed

end
