(* ===== verification/Trace_Ids.thy ===== *)
theory Trace_Ids
  imports Proxy_System Tracing_Safety
begin

text \<open>
  The trace every span belongs to: the spans the proxy starts (\<open>Proxy_System\<close>) get their IDs from
  the generator of \<open>internal/tracing/tracing.go\<close> (\<open>Tracing_Setup\<close>), which takes the trace ID that
  \<open>ContextWithTraceID\<close> put into the context, as \<open>traceContext\<close> and \<open>acquire\<close> do for a session.

  The SDK is not under \<open>src/\<close>: \<open>traces\<close>, the trace ID it gives each span, is an argument, and
  \<open>sdk_traces\<close> states what it documents: a new root gets the trace ID of \<open>NewIDs\<close>, another span that
  of its parent.
\<close>

subsection \<open>IDs of the spans of a log\<close>

text \<open>\<open>ContextWithTraceID\<close>: what the context of a new root asks for, none when it is empty.\<close>

definition ContextWithTraceID :: "bytes \<Rightarrow> bytes option" where
  "ContextWithTraceID traceID = (if traceID = [] then None else Some traceID)"

text \<open>\<open>draws i\<close> are the random numbers there were when span \<open>i\<close> was started, \<open>remote\<close> the trace of a remote span.\<close>

definition sdk_traces ::
    "(nat \<Rightarrow> 64 word list) \<Rightarrow> (bytes \<Rightarrow> bytes) \<Rightarrow> span_call list \<Rightarrow> (nat \<Rightarrow> bytes) \<Rightarrow> bool" where
  "sdk_traces draws remote calls traces \<longleftrightarrow>
     list_all (\<lambda>c. case c of
         StartSpan i name parent start attrs \<Rightarrow>
           (case parent of
              NewRoot traceID \<Rightarrow> map_option fst (NewIDs (ContextWithTraceID traceID) (draws i)) = Some (traces i)
            | ChildOf j \<Rightarrow> traces i = traces j
            | RemoteParent ctx \<Rightarrow> traces i = remote ctx)
       | _ \<Rightarrow> True) calls"

lemma requested_trace: "valid_id i \<Longrightarrow> map_option fst (NewIDs (ContextWithTraceID i) draws) = Some t \<Longrightarrow> t = i"
  by (cases "i = []") (auto simp: ContextWithTraceID_def NewIDs_def valid_id_def split: option.splits)

lemma sdk_traces_started:
  assumes "sdk_traces draws remote (tr_calls t) traces"
  shows "started_as t i (ChildOf j) \<Longrightarrow> traces i = traces j" "started_as t i (NewRoot r) \<Longrightarrow> valid_id r \<Longrightarrow> traces i = r"
  using assms requested_trace by (fastforce simp: sdk_traces_def list_all_iff started_as_def)+

subsection \<open>The root of a session\<close>

definition roots_ok :: "(bytes \<Rightarrow> bytes option) \<Rightarrow> (bytes \<Rightarrow> bytes) \<Rightarrow> sessionRegistry \<Rightarrow> bool" where
  "roots_ok hex sha r \<longleftrightarrow>
     (\<forall>k s. al_lookup (rg_sessions r) k = Some s \<longrightarrow>
        (\<exists>tid. sessionTraceID hex sha k = Some tid \<and> started_as (rg_tracer r) (ss_span s) (NewRoot tid)))"

lemma roots_sub:
  assumes "roots_ok hex sha r" and "extends (tr_calls (rg_tracer r)) (tr_calls (rg_tracer r'))"
    and "\<And>k s'. al_lookup (rg_sessions r') k = Some s' \<Longrightarrow> \<exists>s. al_lookup (rg_sessions r) k = Some s \<and> ss_span s' = ss_span s"
  shows "roots_ok hex sha r'"
  using assms extends_set [OF assms(2)] unfolding roots_ok_def started_as_def by (metis (no_types, lifting) subsetD)

lemma roots_tracer: "roots_ok hex sha r \<Longrightarrow> extends (tr_calls (rg_tracer r)) (tr_calls t) \<Longrightarrow> roots_ok hex sha (r\<lparr>rg_tracer := t\<rparr>)"
  by (rule roots_sub) auto

lemma roots_put:
  assumes "roots_ok hex sha r" and "al_lookup (rg_sessions r) (ss_id s') = Some s" and "ss_span s' = ss_span s"
  shows "roots_ok hex sha (put_session r s')"
  using assms by (intro roots_sub [OF assms(1)]) (auto split: if_splits)

lemma roots_finish: "roots_ok hex sha r \<Longrightarrow> roots_ok hex sha (finishLocked r s reason)"
  by (rule roots_sub [OF _ finishLocked_extends]) (auto split: if_splits)

lemma roots_evict: "roots_ok hex sha r \<Longrightarrow> roots_ok hex sha (evict_rounds n r)"
  by (induction n r rule: evict_rounds.induct) (auto simp: roots_finish split: option.split)

lemma roots_closeAll: "roots_ok hex sha r \<Longrightarrow> roots_ok hex sha (closeAll r)"
proof -
  assume r: "roots_ok hex sha r"
  have "roots_ok hex sha q \<Longrightarrow> roots_ok hex sha (foldl (\<lambda>r s. finishLocked r s SessionEndShutdown) q ss)" for q ss
    by (induction ss arbitrary: q) (simp_all add: roots_finish)
  with r show ?thesis by (simp add: closeAll_def roots_ok_def [of hex sha "r\<lparr>rg_closed := True\<rparr>"] roots_ok_def [of hex sha r])
qed

lemma roots_acquire:
  assumes inv: "registry_inv_among others timed r" and ok: "roots_ok hex sha r"
    and tid: "sessionTraceID hex sha sid = Some tid" and acq: "acquire r sid tid start model ua = (r', res)"
  shows "roots_ok hex sha r'"
proof (cases "rg_closed r")
  case True
  with ok acq show ?thesis by (simp add: acquire_def)
next
  case open_: False
  show ?thesis
  proof (cases "al_lookup (rg_sessions r) sid")
    case (Some s)
    with registry_lookup [OF inv Some] have "ss_id s = sid" by (simp add: session_ok_def)
    with acquire_live [OF open_ Some] acq Some roots_put [OF ok] show ?thesis by auto
  next
    case None
    obtain t i where st: "start_span (rg_tracer (evictLocked r)) SpanSession (NewRoot tid) start (session_attrs sid) = (t, i)"
      by force
    have ev: "roots_ok hex sha ((evictLocked r)\<lparr>rg_tracer := t\<rparr>)"
      using roots_evict [OF ok] st by (intro roots_tracer) (auto simp: evictLocked_def start_span_def)
    have "started_as t i (NewRoot tid)" using st by (auto simp: start_span_def started_as_def) blast
    with ev tid acquire_new [OF open_ None st] acq show ?thesis
      by (auto simp: roots_ok_def fresh_session_def split: if_splits)
  qed
qed

lemma roots_release:
  assumes "registry_inv_among others timed r" and "roots_ok hex sha r"
  shows "roots_ok hex sha (release_held held at r)"
proof (cases held)
  case (Some sid)
  show ?thesis
  proof (cases "al_lookup (rg_sessions r) sid")
    case None
    with Some assms show ?thesis by (simp add: release_held_def release_def)
  next
    case session: (Some s)
    with registry_lookup [OF assms(1) session] have "ss_id s = sid" by (simp add: session_ok_def)
    with Some session show ?thesis
      by (auto simp: release_held_def release_def Let_def armLocked_def intro!: roots_put [OF assms(2)])
  qed
qed (simp add: release_held_def assms)

lemma roots_expire:
  assumes "registry_inv_among others timed r" and "roots_ok hex sha r"
  shows "roots_ok hex sha (expire r sid now)"
proof (cases "al_lookup (rg_sessions r) sid")
  case (Some s)
  with registry_lookup [OF assms(1) Some] have "ss_id s = sid" by (simp add: session_ok_def)
  with Some show ?thesis
    by (auto simp: expire_def Let_def armLocked_def intro!: roots_put [OF assms(2)] roots_finish [OF assms(2)] assms(2))
qed (simp add: expire_def assms)

subsection \<open>The whole proxy\<close>

definition traced_inv :: "proxy_env \<Rightarrow> proxy_system \<Rightarrow> bool" where
  "traced_inv e y \<longleftrightarrow> proxy_inv y \<and> roots_ok (pe_hex e) (pe_sha256 e) (py_registry y)"


lemma roots_step:
  assumes inv: "traced_inv e y" and step: "proxy_step e y z"
  shows "roots_ok (pe_hex e) (pe_sha256 e) (py_registry z)"
proof -
  have ok: "roots_ok (pe_hex e) (pe_sha256 e) (py_registry y)"
    and reg: "registry_inv_among (live_sum open_span (py_live y) + mset (py_abandoned y)) False (py_registry y)"
    using inv by (simp_all add: traced_inv_def proxy_inv_def sessions_match_def)
  from step show ?thesis
  proof cases
    case (open_session n l http req b start reg session)
    consider "reg = py_registry y"
      | sid tid ua res where "sessionTraceID (pe_hex e) (pe_sha256 e) sid = Some tid"
          "acquire (py_registry y) sid tid start (fst (boundedModel req)) ua = (reg, res)"
      using open_session(6)
      by (auto simp: serve_session_def sessionKey_def Let_def split: if_splits option.splits prod.splits)
    then show ?thesis using open_session(1) ok roots_acquire [OF reg ok] by cases auto
  next
    case (start_server n l start http req session sampled w reg m q)
    from serve_start_result(1) [OF start_server(4)] ok start_server(1) show ?thesis
      by (auto simp: start_span_def intro!: roots_tracer)
  next
    case (observe n l s held op s')
    have "keeps_span (with_tracer (py_tracer y) s) s'"
      using request_step_keeps [OF observe(5), of "with_tracer (py_tracer y) s"] observe(7) by simp
    with observe(1) ok show ?thesis by (auto simp: keeps_span_def with_tracer_def intro!: roots_tracer)
  next
    case (finish n l s held env panic s')
    with finish_observed_extends [of "with_tracer (py_tracer y) s" panic env] ok show ?thesis
      by (auto simp: with_tracer_def intro!: roots_tracer)
  next
    case (send n l s held now s' i)
    with start_child_frame(6) [OF send(5) [unfolded transport_start_def]] ok show ?thesis
      by (auto simp: with_tracer_def intro!: roots_tracer)
  next
    case (answer n l s held i res s')
    have "keeps_span (with_tracer (py_tracer y) s) (inference_calls (with_tracer (py_tracer y) s) i (lv_cause l) res)"
      by (rule inference_calls_keeps)
    with answer(1,5) ok show ?thesis
      by (auto simp: transport_end_def keeps_span_def with_tracer_def intro!: roots_tracer extends_snoc)
  next
    case (transport_panic n l s held i env p s')
    with finish_observed_extends [of "with_tracer (py_tracer y) s" "Some p" env] ok show ?thesis
      by (auto simp: with_tracer_def intro!: roots_tracer)
  next
    case (release_session n l s held at)
    with roots_release [OF reg ok] show ?thesis by simp
  next
    case (idle_timer sid now)
    with roots_expire [OF reg ok] show ?thesis by simp
  next
    case close_sessions
    with roots_closeAll [OF ok] show ?thesis by simp
  qed (use ok in simp_all)
qed

interpretation traced: transition_system "proxy_step e" proxy_start "traced_inv e" for e
proof
  show "proxy_start y \<Longrightarrow> traced_inv e y" for y
    using proxy_start_inv [of y] by (auto simp: traced_inv_def roots_ok_def proxy_start_def newSessionRegistry_def)
  show "traced_inv e y \<Longrightarrow> proxy_step e y z \<Longrightarrow> traced_inv e z" for y z
    using roots_step [of e y z] proxy_step_inv [of y e z] by (simp add: traced_inv_def)
qed

text \<open>
  C8: a session is one trace: while a request of a session is proxied, its server span, every span
  started under that one and the span of the session are in the same trace, and, unless it is
  zero, this is the trace ID computed from the session ID alone: a session ID that is a trace ID
  in hexadecimal is that trace ID. So the requests of a session share a trace even across proxies
  and restarts.
\<close>

theorem session_is_one_trace:
  assumes "proxy_start y" and "(proxy_step e)\<^sup>*\<^sup>* y z"
    and "al_lookup (py_live z) n = Some l" and "lv_phase l = Proxied s (Some sid)" and "\<not> rg_closed (py_registry z)"
    and "sdk_traces draws remote (tr_calls (py_tracer z)) traces"
  shows "\<exists>tid ss. sessionTraceID (pe_hex e) (pe_sha256 e) sid = Some tid \<and> al_lookup (rg_sessions (py_registry z)) sid = Some ss \<and>
    traces (rs_span s) = traces (ss_span ss) \<and> (valid_id tid \<longrightarrow> traces (rs_span s) = tid) \<and>
    (\<forall>i. started_as (py_tracer z) i (ChildOf (rs_span s)) \<longrightarrow> traces i = traces (rs_span s))"
proof -
  have inv: "proxy_inv z" "roots_ok (pe_hex e) (pe_sha256 e) (py_registry z)"
    using traced.reachable_inv [OF assms(1,2)] by (simp_all add: traced_inv_def)
  obtain ss where ss: "al_lookup (rg_sessions (py_registry z)) sid = Some ss"
      "started_as (py_tracer z) (rs_span s) (ChildOf (ss_span ss))"
    using proxied_session [OF inv(1) assms(3-5)] by blast
  obtain tid where "sessionTraceID (pe_hex e) (pe_sha256 e) sid = Some tid" "started_as (py_tracer z) (ss_span ss) (NewRoot tid)"
    using inv(2) ss(1) unfolding roots_ok_def by blast
  with ss sdk_traces_started [OF assms(6)] show ?thesis by metis
qed

text \<open>The request of the example of theory \<open>Proxy_System\<close>, whose session ID is no trace ID.\<close>

lemma two_starts:
  assumes "map (\<lambda>c. case c of StartSpan i name parent start attrs \<Rightarrow> Some (i, parent) | _ \<Rightarrow> None) calls =
    [Some (i, NewRoot root), Some (j, ChildOf i)]" and "valid_id root"
  shows "sdk_traces (\<lambda>_. [5]) remote calls (\<lambda>_. root)"
proof -
  from assms(1) obtain n1 s1 a1 n2 s2 a2 where
    calls: "calls = [StartSpan i n1 (NewRoot root) s1 a1, StartSpan j n2 (ChildOf i) s2 a2]"
    by (auto split: span_call.splits)
  have "randomSpanID [5] = Some (put_uint64 5, [])" using randomSpanID_zeros [of 5 0 "[]"] by simp
  moreover have "root \<noteq> []" using assms(2) by (auto simp: valid_id_def)
  ultimately show ?thesis
    using assms(2) by (simp add: calls sdk_traces_def ContextWithTraceID_def NewIDs_def del: randomSpanID.simps)
qed

lemma example_traces: "sdk_traces (\<lambda>_. [5]) (\<lambda>_. []) (tr_calls (py_tracer example_proxied)) (\<lambda>_. replicate 16 (CHR ''d''))"
proof (rule two_starts)
  let ?kind = "\<lambda>c. case c of StartSpan i name parent start attrs \<Rightarrow> Some (i, parent) | _ \<Rightarrow> None"
  have session: "map ?kind (tr_calls (rg_tracer (fst example_session))) = [Some (0, NewRoot (replicate 16 (CHR ''d'')))]"
    "fst (snd example_session) = Some 0" "tr_next (rg_tracer (fst example_session)) = 1" by code_simp+
  from serve_start_result(1) [OF example_start_eq [unfolded example_start_def]] session(2)
  obtain t name attrs where "start_span (rg_tracer (fst example_session)) name (ChildOf 0) 5 attrs =
      (t, rs_span (oq_state example_observed))" "fst example_start = (fst example_session)\<lparr>rg_tracer := t\<rparr>"
    unfolding example_start_def [symmetric] by blast
  with session(1,3) have "map ?kind (tr_calls (rg_tracer (fst example_start))) =
      [Some (0, NewRoot (replicate 16 (CHR ''d''))), Some (1, ChildOf 0)]"
    by (auto simp: start_span_def)
  then show "map ?kind (tr_calls (py_tracer example_proxied)) = [Some (0, NewRoot (replicate 16 (CHR ''d''))), Some (1, ChildOf 0)]"
    by (simp add: example_proxied_def)
  show "valid_id (replicate 16 (CHR ''d''))" by code_simp
qed

theorem session_is_one_trace_witness:
  "\<exists>traces ss. al_lookup (rg_sessions (py_registry example_proxied)) ''s1'' = Some ss \<and>
     sdk_traces (\<lambda>_. [5]) (\<lambda>_. []) (tr_calls (py_tracer example_proxied)) traces \<and>
     traces (rs_span (oq_state example_observed)) = traces (ss_span ss) \<and>
     traces (rs_span (oq_state example_observed)) = replicate 16 (CHR ''d'')"
proof -
  have phase: "lv_phase (example_live\<lparr>lv_phase := Proxied (oq_state example_observed) (Some ''s1'')\<rparr>) =
      Proxied (oq_state example_observed) (Some ''s1'')" by simp
  from session_is_one_trace [OF example_begin example_proxied_run example_proxied_live(1) phase example_proxied_live(2)
      example_traces] example_traces
  show ?thesis by blast
qed

end
