(* ===== verification/Redaction.thy ===== *)
theory Redaction
  imports Config
begin

text \<open>
  The errors of the YAML library quote the value they could not decode, and the values of a
  configuration file are secrets (\<open>otel.headers\<close>). \<open>safeYAMLMessage\<close> of \<open>internal/config/config.go\<close>
  keeps only the line, a standard tag and the type.
\<close>

lemma takeWhile_word: "list_all P w \<Longrightarrow> \<not> P c \<Longrightarrow> takeWhile P (w @ c # s) = w"
  by (induction w) auto

lemma dropWhile_word: "list_all P w \<Longrightarrow> \<not> P c \<Longrightarrow> dropWhile P (w @ c # s) = c # s"
  by (induction w) auto

text \<open>Rules for literals, which the simplifier must not take apart before they apply.\<close>

lemmas prefix_true = has_prefix_append [THEN eqTrueI]

lemma last_word_append: "list_all nonspace t \<Longrightarrow> last_word (x @ CHR '' '' # t) = t"
  using takeWhile_word [of nonspace "rev t" "CHR '' ''" "rev x"] by (simp add: last_word_def nonspace_def)

lemma has_suffix_append [simp]: "has_suffix suf (x @ suf)"
  by (simp add: has_suffix_def)

lemma trim_suffix_append [simp]: "trim_suffix suf (x @ suf) = x"
  by (simp add: trim_suffix_def)

lemma nonspace_no_newline: "list_all nonspace t \<Longrightarrow> CHR 0x0A \<notin> set t"
  by (auto simp: list_all_iff nonspace_def)

lemma digits_no_newline: "list_all digit n \<Longrightarrow> CHR 0x0A \<notin> set n"
  by (auto simp: list_all_iff digit_def)

lemma match_line:
  assumes "n \<noteq> []" and "list_all digit n"
  shows "match_linePrefix (''line '' @ n @ '': '' @ rest) = (if CHR 0x0A \<in> set rest then None else Some (n, rest))"
proof -
  have "takeWhile digit (n @ '': '' @ rest) = n" "dropWhile digit (n @ '': '' @ rest) = '': '' @ rest"
    using takeWhile_word [OF assms(2), of "CHR '':''" "'' '' @ rest"] dropWhile_word [OF assms(2), of "CHR '':''" "'' '' @ rest"]
    by (simp_all add: digit_def)
  with assms(1) show ?thesis
    unfolding match_linePrefix_def prefix_true trim_prefix_append Let_def by (simp only: prefix_true trim_prefix_append simp_thms if_False if_True split: if_split) simp
qed

text \<open>The value a message quotes after the tag, if it does.\<close>

definition value_text :: "bytes option \<Rightarrow> bytes" where
  "value_text v = (case v of None \<Rightarrow> [] | Some x \<Rightarrow> CHR '' '' # x)"

lemma match_cannot:
  assumes "tag \<noteq> []" "list_all nonspace tag" and "t \<noteq> []" "list_all nonspace t"
  shows "match_cannotType (''cannot unmarshal '' @ tag @ value_text v @ '' into '' @ t) =
    (if CHR 0x0A \<in> set (value_text v) then None else Some (tag, t))"
proof -
  let ?tl = "value_text v @ '' into '' @ t"
  obtain r where r: "?tl = CHR '' '' # r" by (cases v) (simp_all add: value_text_def)
  have words: "takeWhile nonspace (tag @ ?tl) = tag" "dropWhile nonspace (tag @ ?tl) = ?tl"
    unfolding r using takeWhile_word [OF assms(2)] dropWhile_word [OF assms(2)] by (simp_all add: nonspace_def)
  have last: "last_word ?tl = t"
    using last_word_append [OF assms(4), of "value_text v @ '' into''"] by simp
  have suffix: "has_suffix ('' into '' @ t) ?tl" "trim_suffix ('' into '' @ t) ?tl = value_text v"
    by (rule has_suffix_append) (rule trim_suffix_append)
  have space: "has_prefix '' '' ?tl" unfolding r by (simp add: has_prefix_def)
  show ?thesis
    unfolding match_cannotType_def prefix_true trim_prefix_append Let_def words last suffix(2)
      suffix(1) [THEN eqTrueI] space [THEN eqTrueI]
    using assms(1,3) by simp
qed

lemma match_field:
  assumes "key \<noteq> []" "list_all nonspace key" and "t \<noteq> []" "list_all nonspace t"
  shows "match_unknownField (''field '' @ key @ '' not found in type '' @ t) = Some t"
proof -
  have words: "takeWhile nonspace (key @ '' not found in type '' @ t) = key"
    "dropWhile nonspace (key @ '' not found in type '' @ t) = '' not found in type '' @ t"
    using takeWhile_word [OF assms(2), of "CHR '' ''" "''not found in type '' @ t"]
      dropWhile_word [OF assms(2), of "CHR '' ''" "''not found in type '' @ t"]
    by (simp_all add: nonspace_def)
  show ?thesis
    unfolding match_unknownField_def prefix_true trim_prefix_append Let_def words
    using assms by simp
qed

subsection \<open>Any message\<close>

text \<open>
  What may be left of a message: its line, then a fixed text whose only variable parts are the word
  at the end of the message (the Go type) and a standard tag.
\<close>

definition line_text :: "bytes option \<Rightarrow> bytes" where
  "line_text line = (case line of None \<Rightarrow> [] | Some n \<Rightarrow> ''line '' @ n @ '': '')"

definition line_ok :: "bytes option \<Rightarrow> bool" where
  "line_ok line \<longleftrightarrow> (case line of None \<Rightarrow> True | Some n \<Rightarrow> n \<noteq> [] \<and> list_all digit n)"

definition safe_texts :: "bytes \<Rightarrow> bytes set" where
  "safe_texts t =
     {''invalid YAML'', ''unknown key in type '' @ t, ''cannot unmarshal into '' @ t} \<union>
     (\<lambda>tag. ''cannot unmarshal '' @ tag @ '' into '' @ t) ` set yamlStandardTags"

lemma takeWhile_all: "list_all P (takeWhile P s)"
  by (auto simp: list_all_iff dest: set_takeWhileD)

lemma last_word_nonspace: "list_all nonspace (last_word s)"
  using takeWhile_all [of nonspace "rev s"] by (simp add: last_word_def list_all_iff)

lemma last_word_suffix: "s = x @ CHR '' '' # t \<Longrightarrow> list_all nonspace t \<Longrightarrow> last_word s = t"
  using last_word_append by blast

lemma cannotType_word:
  assumes "match_cannotType msg = Some (tag, t)"
  shows "t = last_word msg"
proof -
  define rest where "rest = trim_prefix ''cannot unmarshal '' msg"
  define tl where "tl = dropWhile nonspace rest"
  have pre: "has_prefix ''cannot unmarshal '' msg" and suf: "has_suffix ('' into '' @ t) tl" and t: "t = last_word tl"
    using assms unfolding match_cannotType_def Let_def rest_def tl_def by (auto split: if_splits)
  from suf obtain u where u: "tl = u @ '' into '' @ t"
    unfolding has_suffix_def has_prefix_iff by (metis rev_append rev_rev_ident)
  have word: "list_all nonspace t" unfolding t by (rule last_word_nonspace)
  have "msg = ''cannot unmarshal '' @ takeWhile nonspace rest @ tl"
    using pre unfolding tl_def takeWhile_dropWhile_id rest_def by (metis has_prefix_iff trim_prefix_append)
  then have "msg = (''cannot unmarshal '' @ takeWhile nonspace rest @ u @ '' into'') @ CHR '' '' # t" unfolding u by simp
  from last_word_suffix [OF this word] show ?thesis by simp
qed

lemma unknownField_word:
  assumes "match_unknownField msg = Some t"
  shows "t = last_word msg"
proof -
  define rest where "rest = trim_prefix ''field '' msg"
  define tl where "tl = dropWhile nonspace rest"
  have pre: "has_prefix ''field '' msg" and mid: "has_prefix '' not found in type '' tl"
    and t: "t = trim_prefix '' not found in type '' tl" and word: "list_all nonspace t"
    using assms unfolding match_unknownField_def Let_def rest_def tl_def by (auto split: if_splits)
  have u: "tl = '' not found in type '' @ t" using mid unfolding t by (metis has_prefix_iff trim_prefix_append)
  have "msg = ''field '' @ takeWhile nonspace rest @ tl"
    using pre unfolding tl_def takeWhile_dropWhile_id rest_def by (metis has_prefix_iff trim_prefix_append)
  then have "msg = (''field '' @ takeWhile nonspace rest @ '' not found in type'') @ CHR '' '' # t" unfolding u by simp
  from last_word_suffix [OF this word] show ?thesis by simp
qed

lemma safe_body_texts: "safe_body msg \<in> safe_texts (last_word msg)"
  using cannotType_word [of msg] unknownField_word [of msg]
  by (auto simp: safe_body_def safe_texts_def split: option.split)

lemma linePrefix_parts:
  assumes "match_linePrefix msg = Some (n, rest)"
  shows "n \<noteq> []" "list_all digit n" "msg = ''line '' @ n @ '': '' @ rest"
proof -
  define r where "r = trim_prefix ''line '' msg"
  have pre: "has_prefix ''line '' msg" and n: "n = takeWhile digit r" "n \<noteq> []"
    and mid: "has_prefix '': '' (dropWhile digit r)" and rest: "rest = trim_prefix '': '' (dropWhile digit r)"
    using assms unfolding match_linePrefix_def Let_def r_def by (auto split: if_splits)
  show "n \<noteq> []" "list_all digit n" using n takeWhile_all by simp_all
  have "dropWhile digit r = '': '' @ rest" using mid unfolding rest by (metis has_prefix_iff trim_prefix_append)
  then have "r = n @ '': '' @ rest" using takeWhile_dropWhile_id [of digit r] n(1) by simp
  then show "msg = ''line '' @ n @ '': '' @ rest"
    using pre unfolding r_def by (metis has_prefix_iff trim_prefix_append)
qed

lemma last_word_line: "last_word (''line '' @ n @ '': '' @ rest) = last_word rest \<or> last_word rest = rest"
proof (cases "list_all nonspace rest")
  case True
  then have "takeWhile nonspace (rev rest) = rev rest"
    unfolding takeWhile_eq_all_conv by (simp add: list_all_iff)
  then have "last_word rest = rest" by (simp only: last_word_def rev_rev_ident)
  then show ?thesis ..
next
  case False
  then obtain c where "c \<in> set (rev rest)" "\<not> nonspace c" by (auto simp: list_all_iff)
  then have "takeWhile nonspace (rev rest @ rev (''line '' @ n @ '': '')) = takeWhile nonspace (rev rest)"
    by (rule takeWhile_append1)
  then show ?thesis by (simp add: last_word_def)
qed

lemma safe_message_form:
  "\<exists>line. line_ok line \<and> (\<exists>text \<in> safe_texts (last_word msg). safeYAMLMessage msg = line_text line @ text)"
proof (cases "match_linePrefix msg")
  case None
  then have "safeYAMLMessage msg = line_text None @ safe_body msg" by (simp add: safeYAMLMessage_def line_text_def)
  moreover have "line_ok None" by (simp add: line_ok_def)
  ultimately show ?thesis using safe_body_texts by blast
next
  case (Some m)
  obtain n rest where m: "m = (n, rest)" by (cases m)
  note parts = linePrefix_parts [OF Some [unfolded m]]
  have msg: "safeYAMLMessage msg = line_text (Some n) @ safe_body rest"
    using Some m by (simp add: safeYAMLMessage_def line_text_def)
  have "last_word msg = last_word rest"
    using last_word_suffix [of msg "''line '' @ n @ '':''" rest] last_word_line [of n rest] last_word_nonspace [of rest] parts(3)
    by auto
  with safe_body_texts [of rest] have "safe_body rest \<in> safe_texts (last_word msg)" by simp
  moreover have "line_ok (Some n)" using parts by (simp add: line_ok_def)
  ultimately show ?thesis using msg by blast
qed

text \<open>
  C28: a value of the configuration never reaches an error message. Whatever the library's message
  is, with or without a line, what is left of it is the line, one of four fixed texts, the type at its
  end and at most a standard tag. A message about a value keeps its tag exactly when that is a
  standard one, as another comes from the file; the value and a key that is not known are never kept;
  and a message with a line break in its value is only reported as invalid.
\<close>

theorem yaml_errors_hide_values:
  assumes "line_ok line" and "tag \<noteq> []" and "list_all nonspace tag" and "t \<noteq> []" and "list_all nonspace t"
    and "key \<noteq> []" and "list_all nonspace key"
  shows "(\<exists>l. line_ok l \<and> (\<exists>text \<in> safe_texts (last_word msg). safeYAMLMessage msg = line_text l @ text)) \<and>
    safeYAMLMessage (line_text line @ ''cannot unmarshal '' @ tag @ value_text v @ '' into '' @ t) =
      (if CHR 0x0A \<in> set (value_text v) then ''invalid YAML''
       else if tag \<in> set yamlStandardTags then line_text line @ ''cannot unmarshal '' @ tag @ '' into '' @ t
       else line_text line @ ''cannot unmarshal into '' @ t) \<and>
    safeYAMLMessage (line_text line @ ''field '' @ key @ '' not found in type '' @ t) =
      line_text line @ ''unknown key in type '' @ t"
proof (intro conjI safe_message_form)
  let ?msg = "''cannot unmarshal '' @ tag @ value_text v @ '' into '' @ t"
  have newline: "CHR 0x0A \<in> set ?msg \<longleftrightarrow> CHR 0x0A \<in> set (value_text v)"
    using nonspace_no_newline [OF assms(5)] nonspace_no_newline [OF assms(3)] by auto
  have other: "safe_body (''line '' @ n @ '': '' @ ?msg) = ''invalid YAML''" for n
    by (simp add: safe_body_def match_cannotType_def match_unknownField_def has_prefix_def)
  have no_line: "match_linePrefix ?msg = None" "match_unknownField ?msg = None"
    by (simp_all add: match_linePrefix_def match_unknownField_def has_prefix_def)
  note cannot = match_cannot [OF assms(2-5), of v]
  show "safeYAMLMessage (line_text line @ ?msg) =
      (if CHR 0x0A \<in> set (value_text v) then ''invalid YAML''
       else if tag \<in> set yamlStandardTags then line_text line @ ''cannot unmarshal '' @ tag @ '' into '' @ t
       else line_text line @ ''cannot unmarshal into '' @ t)"
  proof (cases line)
    case None
    show ?thesis
      unfolding safeYAMLMessage_def None line_text_def option.case append_Nil no_line(1) safe_body_def cannot
      using no_line(2) by simp
  next
    case (Some n)
    then have n: "n \<noteq> []" "list_all digit n" using assms(1) by (simp_all add: line_ok_def)
    show ?thesis
      unfolding safeYAMLMessage_def Some line_text_def option.case append_assoc match_line [OF n] newline
      using other [of n] cannot by (simp add: safe_body_def)
  qed
next
  let ?msg = "''field '' @ key @ '' not found in type '' @ t"
  have newline: "CHR 0x0A \<notin> set ?msg"
    using nonspace_no_newline [OF assms(5)] nonspace_no_newline [OF assms(7)] by auto
  have no_line: "match_linePrefix ?msg = None" "match_cannotType ?msg = None"
    by (simp_all add: match_linePrefix_def match_cannotType_def has_prefix_def)
  have body: "safe_body ?msg = ''unknown key in type '' @ t"
    unfolding safe_body_def match_field [OF assms(6,7,4,5)] no_line(2) by simp
  show "safeYAMLMessage (line_text line @ ?msg) = line_text line @ ''unknown key in type '' @ t"
  proof (cases line)
    case None
    show ?thesis unfolding safeYAMLMessage_def None line_text_def option.case append_Nil no_line(1) body ..
  next
    case (Some n)
    then have n: "n \<noteq> []" "list_all digit n" using assms(1) by (simp_all add: line_ok_def)
    show ?thesis
      unfolding safeYAMLMessage_def Some line_text_def option.case append_assoc match_line [OF n]
      using newline body by simp
  qed
qed

definition example_message :: "bytes \<Rightarrow> bytes \<Rightarrow> bytes" where
  "example_message tag secret = ''line 4: cannot unmarshal '' @ tag @ '' `'' @ secret @ ''` into int''"

theorem yaml_errors_hide_values_witness:
  "safeYAMLMessage (example_message ''!!str'' ''hunter2'') = ''line 4: cannot unmarshal !!str into int'' \<and>
   safeYAMLMessage (example_message ''!hunter2'' ''1'') = ''line 4: cannot unmarshal into int''"
proof -
  have ok: "line_ok (Some ''4'')" "list_all nonspace ''int''" "list_all nonspace ''k''"
    "list_all nonspace ''!!str''" "list_all nonspace ''!hunter2''"
    "''!!str'' \<in> set yamlStandardTags" "''!hunter2'' \<notin> set yamlStandardTags" by code_simp+
  note hide = yaml_errors_hide_values [where line = "Some ''4''" and t = "''int''" and key = "''k''", OF ok(1) _ _ _ ok(2) _ ok(3)]
  from hide [of "''!!str''" _ "Some ''`hunter2`''"] hide [of "''!hunter2''" _ "Some ''`1`''"] ok(4-7) show ?thesis
    by (simp add: example_message_def line_text_def value_text_def)
qed

end
