(* ===== verification/Span_Limits.thy ===== *)
theory Span_Limits
  imports Attribute_Safety Proxy_Safety Tracing_Setup
begin

text \<open>
  The span limits of \<open>internal/tracing/tracing.go\<close> against what \<open>internal/proxy\<close> puts on a server span:
  the SDK drops attributes above its limit without a trace, and this limit is never reached.
\<close>

subsection \<open>The attributes of a span\<close>

text \<open>All attributes a span was given since it started, those of one key counted each time.\<close>

fun add_attributes :: "nat \<Rightarrow> attribute list \<Rightarrow> span_call \<Rightarrow> attribute list" where
  "add_attributes i as (StartSpan j name parent start attrs) = (if j = i then attrs else as)"
| "add_attributes i as (SetAttributes j attrs) = (if j = i then as @ attrs else as)"
| "add_attributes i as c = as"

definition span_attributes :: "tracer \<Rightarrow> nat \<Rightarrow> attribute list" where
  "span_attributes t i = foldl (add_attributes i) [] (tr_calls t)"

lemma span_attributes_call [simp]: "span_attributes (trace_call t c) i = add_attributes i (span_attributes t i) c"
  by (simp add: span_attributes_def)

lemma span_attributes_start:
  "start_span t name parent start attrs = (t', i) \<Longrightarrow>
   span_attributes t' j = (if j = i then attrs else span_attributes t j) \<and> i = tr_next t \<and> tr_next t' = tr_next t + 1"
  by (auto simp: start_span_def span_attributes_def)

subsection \<open>Budgets\<close>

text \<open>An operation that gives the span of the request at most \<open>n\<close> more attributes.\<close>

definition own_attributes :: "requestState \<Rightarrow> attribute list" where
  "own_attributes s = span_attributes (rs_tracer s) (rs_span s)"

definition span_known :: "requestState \<Rightarrow> bool" where
  "span_known s \<longleftrightarrow> rs_span s < tr_next (rs_tracer s)"

definition budget :: "nat \<Rightarrow> requestState \<Rightarrow> requestState \<Rightarrow> bool" where
  "budget n s s' \<longleftrightarrow>
     rs_span s' = rs_span s \<and>
     (span_known s \<longrightarrow> span_known s' \<and> length (own_attributes s') \<le> length (own_attributes s) + n)"

lemma budget_refl [simp]: "budget n s s"
  by (simp add: budget_def)

lemma budget_trans: "budget m s t \<Longrightarrow> budget n t u \<Longrightarrow> budget (m + n) s u"
  by (fastforce simp: budget_def)

lemma budget_trans0: "budget 0 s t \<Longrightarrow> budget n t u \<Longrightarrow> budget n s u"
  using budget_trans [of 0 s t n u] by simp

lemma budget_same: "rs_span s' = rs_span s \<Longrightarrow> rs_tracer s' = rs_tracer s \<Longrightarrow> budget n s s'"
  by (simp add: budget_def span_known_def own_attributes_def)

lemma budget_call:
  "(case c of SetAttributes i attrs \<Rightarrow> i = rs_span s \<longrightarrow> length attrs \<le> n | StartSpan i nm p st attrs \<Rightarrow> False | _ \<Rightarrow> True) \<Longrightarrow>
   budget n s (on_tracer s c)"
  by (cases c) (auto simp: budget_def span_known_def own_attributes_def)

lemma budget_quiet [simp]:
  "budget n s (on_tracer s (SetStatusError i m))" "budget n s (on_tracer s (EndSpan i at))"
  "budget n s (recordSpanError s i err)"
  by (simp_all add: budget_call recordSpanError_def split: option.split)

text \<open>A child span: it is another span, so nothing done to it counts.\<close>

lemma budget_child:
  assumes "start_child s name start attrs = (s1, i)" and "span_known s \<Longrightarrow> i \<noteq> rs_span s1 \<Longrightarrow> budget 0 s1 s2"
    and "rs_span s2 = rs_span s1"
  shows "budget 0 s (on_tracer s2 (EndSpan i at))"
proof -
  obtain t where t: "start_span (rs_tracer s) name (ChildOf (rs_span s)) start attrs = (t, i)" "s1 = s\<lparr>rs_tracer := t\<rparr>"
    using assms(1) by (auto simp: start_child_def split: prod.splits)
  have new: "span_known s \<Longrightarrow> budget 0 s s1 \<and> i \<noteq> rs_span s1"
    using span_attributes_start [OF t(1), of "rs_span s"]
    by (auto simp: budget_def span_known_def own_attributes_def t(2))
  show ?thesis
  proof (cases "span_known s")
    case True
    with new assms(2) have "budget 0 s s2" by (blast intro: budget_trans0)
    from budget_trans0 [OF this budget_quiet(2)] show ?thesis .
  next
    case False
    with assms(3) t(2) show ?thesis by (simp add: budget_def)
  qed
qed

lemma emitStreamOutput_budget: "budget 0 s (emitStreamOutput s output out)"
proof -
  obtain start till where times: "output_times output = (start, till)" by (cases "output_times output")
  obtain s1 i where c: "start_child s (output_span_name (so_kind output)) start (output_attrs s output out) = (s1, i)"
    by (cases "start_child s (output_span_name (so_kind output)) start (output_attrs s output out)")
  show ?thesis by (simp add: emitStreamOutput_def times c budget_child [OF c] Let_def)
qed

lemma emit_rest_budget: "budget 0 s (foldl (emit_rest out) s outs)"
proof (induction outs arbitrary: s)
  case (Cons x outs)
  from budget_trans0 [OF emitStreamOutput_budget Cons] show ?case by (simp add: emit_rest_def)
qed simp

lemma applyStatus_budget: "i \<noteq> rs_span s \<Longrightarrow> budget 0 s (applyStatus s i out res)"
proof -
  assume i: "i \<noteq> rs_span s"
  have first: "budget 0 s (on_tracer s (SetAttributes i [(AttrErrorType, StrVal (outcome_text out))]))"
    by (rule budget_call) (simp add: i)
  show ?thesis
    using budget_trans0 [OF first budget_trans0 [OF budget_quiet(3) budget_quiet(1)]] budget_trans0 [OF first budget_quiet(1)]
    by (simp add: applyStatus_def Let_def)
qed

lemma applyStatus_span: "rs_span (applyStatus s i out res) = rs_span s"
  by (simp add: applyStatus_def Let_def)

lemma emitPhaseSpans_budget: "budget 0 s (emitPhaseSpans s res out)"
proof -
  let ?attrs = "phaseAttrs s out @ [(AttrServerSentEventsChunkCount, IntVal (int (br_chunks res)))]"
  obtain s1 i where c: "start_child s SpanGeneration (br_firstToken res) ?attrs = (s1, i)"
    by (cases "start_child s SpanGeneration (br_firstToken res) ?attrs")
  show ?thesis
    by (simp add: emitPhaseSpans_def c budget_child [OF c applyStatus_budget applyStatus_span])
qed

lemma recordTimeToFirstToken_budget: "budget 0 s (recordTimeToFirstToken s at)"
proof -
  let ?s = "s\<lparr>rs_timeToFirstTokenOnce := True\<rparr>"
  let ?c = "start_child ?s SpanTimeToFirstToken (rs_start s) (phaseAttrs ?s OutcomeSuccess)"
  obtain s1 i where c: "?c = (s1, i)" by (cases ?c)
  have once: "budget 0 s ?s" by (rule budget_same) simp_all
  show ?thesis
    using budget_trans0 [OF once budget_child [OF c budget_refl refl]] once
    by (simp add: recordTimeToFirstToken_def c Let_def)
qed

lemma inference_calls_span: "rs_span (inference_calls s i cause res) = rs_span s"
  by (cases res) (simp_all add: inference_calls_def Let_def)

lemma inference_calls_budget:
  assumes "i \<noteq> rs_span s"
  shows "budget 0 s (inference_calls s i cause res)"
proof -
  have set: "rs_span t = rs_span s \<Longrightarrow> budget 0 t (on_tracer t (SetAttributes i attrs))" for t attrs
    by (rule budget_call) (simp add: assms)
  note twice = budget_trans0 [OF set [OF refl] budget_trans0 [OF budget_quiet(3) budget_quiet(1)]]
    budget_trans0 [OF set [OF refl] budget_trans0 [OF set budget_quiet(1)]]
  show ?thesis by (cases res) (simp_all add: inference_calls_def Let_def set twice)
qed

lemma roundTrip_budget: "budget 0 s (fst (roundTrip inject trust baggage s header now cause (Some res)))"
proof -
  obtain s1 i where c: "start_child s (rs_inferenceSpanName s) now (rs_inferenceAttrs s) = (s1, i)"
    by (cases "start_child s (rs_inferenceSpanName s) now (rs_inferenceAttrs s)")
  show ?thesis
    by (simp add: roundTrip_def transport_start_def transport_end_def c budget_child [OF c inference_calls_budget inference_calls_span])
qed

subsection \<open>What a request puts on its span\<close>

lemma length_append_le: "length xs \<le> m \<Longrightarrow> length ys \<le> n \<Longrightarrow> length (xs @ ys) \<le> m + n"
  by simp

lemma length_attr_if [simp]: "length (attr_if b a) \<le> 1"
  by (simp add: attr_if_def)

lemma split_body_length: "splitJSONBodyAttributes key limitKey body = Some attrs \<Longrightarrow> length attrs \<le> 321"
proof -
  assume "splitJSONBodyAttributes key limitKey body = Some attrs"
  then obtain b as fs where sf: "split_fields key fs (newBodySplitter, []) = Some (b, as)" and n: "length fs \<le> 64"
    and attrs: "attrs = (let as1 = sort_key fst (as @ bs_attributes b)
      in if bs_limited b then as1 @ [(limitKey, BoolVal True)] else as1)"
    by (auto simp: splitJSONBodyAttributes_def Let_def maxSplitBodyFields_def split: if_splits option.splits)
  have "length as \<le> 64" using split_fields_eq [OF sf] n length_body_scalars [of key fs] by simp
  moreover have "length (bs_attributes b) \<le> 256"
    using split_fields_eq [OF sf] bs_attributes_eq [OF splitter_inv_run, of "body_events key fs"] by simp
  ultimately show ?thesis by (simp add: attrs Let_def)
qed

lemma trace_body_length: "length (traceBodyAttributes key limitKey body truncated) \<le> 321"
  by (auto simp: traceBodyAttributes_def split: option.split dest: split_body_length)

lemma header_attributes_length: "headerAttributes header build = (attrs, limited) \<Longrightarrow> length attrs \<le> 64"
  by (auto simp: headerAttributes_def Let_def maxHeaderAttributes_def split: prod.splits if_splits)

lemma exchange_attrs_length: "length (exchange_attrs s response) \<le> 774"
proof -
  obtain rq l1 rs l2 where h: "requestHeaderAttributes (rs_requestHeader s) = (rq, l1)"
    "responseHeaderAttributes (rp_header response) = (rs, l2)" by fastforce
  have headers: "length rq \<le> 64" "length rs \<le> 64"
    using header_attributes_length h by (auto simp: requestHeaderAttributes_def responseHeaderAttributes_def)
  have response: "length (if rs_encoding s \<noteq> [] then [(AttrResponseBody, StrVal (traceBody (rp_body response)))] @ as
      else if \<not> rs_serverSentEvents s then
        traceBodyAttributes AttrResponseBody AttrTraceResponseBodySplitLimited (rp_body response) (rp_bodyTruncated response) @ as
      else []) \<le> 321 + 1" if "length as \<le> 1" for as
    using that length_append_le [OF trace_body_length that] by simp
  have "length (exchange_attrs s response) \<le> 321 + (1 + ((321 + 1) + (64 + (1 + (64 + 1)))))"
    unfolding exchange_attrs_def Let_def h prod.case
    by (intro length_append_le trace_body_length response headers length_attr_if)
  then show ?thesis by simp
qed

lemma parsed_attrs_length: "length (parsed_attrs p) \<le> 8"
  by (auto simp: parsed_attrs_def attr_if_def Let_def split: option.split)

lemma outcome_attrs_length: "length (outcome_attrs out parsed) \<le> 1"
  by (auto simp: outcome_attrs_def attr_if_def split: Outcome.split option.split)

lemma setServerAttributes_budget: "budget 17 s (setServerAttributes s res parsed out)"
proof -
  let ?s1 = "if outcome_failed out then
      on_tracer (if br_err res \<noteq> None then recordSpanError s (rs_span s) (br_err res) else s)
        (SetStatusError (rs_span s) (request_errorMessage s parsed out res))
    else s"
  have s1: "budget 0 s ?s1" using budget_trans0 [OF budget_quiet(3) budget_quiet(1)] by simp
  obtain attrs where run: "setServerAttributes s res parsed out = on_tracer ?s1 (SetAttributes (rs_span s) attrs)"
    and n: "length attrs \<le> 17"
  proof
    let ?reasons = "request_finishReasons res parsed"
    let ?attrs = "[(AttrOutcome, StrVal (outcome_text out))] @
            attr_if (rs_statusCode s \<noteq> 0) (AttrStatusCode, IntVal (rs_statusCode s)) @
            (if rs_serverSentEvents s then
               [(AttrServerSentEventsChunkCount, IntVal (int (br_chunks res)))] @
               attr_if (br_dropped res > 0) (AttrServerSentEventsDroppedLineCount, IntVal (int (br_dropped res)))
             else []) @
            attr_if (br_truncated res \<or> br_streamLimited res \<or> br_dropped res > 0) (AttrResponseBodyTruncated, BoolVal True) @
            attr_if (rs_encoding s \<noteq> []) (AttrResponseEncoding, StrVal (rs_encoding s)) @
            outcome_attrs out parsed @
            attr_if (outcome_failed out) (AttrErrorType, StrVal (errorType s out)) @
            attr_if (?reasons \<noteq> []) (AttrResponseFinishReasons, StrsVal ?reasons) @
            (case parsed of Some p \<Rightarrow> parsed_attrs p | None \<Rightarrow> [])"
    show "setServerAttributes s res parsed out = on_tracer ?s1 (SetAttributes (rs_span s) ?attrs)"
      by (simp add: setServerAttributes_def Let_def)
    have "length (case parsed of Some p \<Rightarrow> parsed_attrs p | None \<Rightarrow> []) \<le> 8"
      using parsed_attrs_length by (simp split: option.split)
    then show "length ?attrs \<le> 17"
      using outcome_attrs_length [of out parsed] by (simp add: attr_if_def)
  qed
  have "budget 17 ?s1 (on_tracer ?s1 (SetAttributes (rs_span s) attrs))" by (rule budget_call) (simp add: n)
  from budget_trans0 [OF s1 this] run show ?thesis by simp
qed

lemma setExchangeAttributes_budget: "budget 774 s (setExchangeAttributes s env)"
  by (simp add: setExchangeAttributes_def budget_call exchange_attrs_length)

lemma end_request_budget: "budget (if rs_ended s then 0 else 791) s (end_request s env)"
proof (cases "rs_ended s")
  case False
  define res where "res = (case rs_body s of Some r \<Rightarrow> r | None \<Rightarrow> no_bodyResult)"
  define parsed where "parsed = ParseResponse (br_payload res)"
  define out where "out = request_outcome (s\<lparr>rs_ended := True\<rparr>) env res parsed"
  let ?s0 = "s\<lparr>rs_ended := True\<rparr>"
  let ?s2 = "emitPhaseSpans (foldl (emit_rest out) ?s0 (br_streamOutputs res)) res out"
  let ?s4 = "setExchangeAttributes (setServerAttributes ?s2 res parsed out) env"
  let ?s5 = "on_tracer ?s4 (EndSpan (rs_span ?s4) None)"
  have "budget 0 s ?s0" by (rule budget_same) simp_all
  from budget_trans0 [OF this budget_trans0 [OF emit_rest_budget emitPhaseSpans_budget]] have "budget 0 s ?s2" .
  from budget_trans0 [OF this budget_trans [OF setServerAttributes_budget setExchangeAttributes_budget]]
  have "budget 791 s ?s4" by simp
  from budget_trans [OF this budget_quiet(2) [where n = 0]] have "budget 791 s ?s5" by simp
  moreover have "budget 0 ?s5 (?s5\<lparr>rs_spanEnded := True\<rparr>)" by (rule budget_same) simp_all
  ultimately have "budget 791 s (?s5\<lparr>rs_spanEnded := True\<rparr>)" using budget_trans by fastforce
  moreover have "end_request s env = ?s5\<lparr>rs_spanEnded := True\<rparr>"
    using False by (simp add: end_request_def Let_def res_def parsed_def out_def)
  ultimately show ?thesis using False by simp
qed (simp add: end_request_def)

text \<open>Only the end of a request adds to its span, and it does so once.\<close>

lemma request_step_budget: "budget (if ends_request op \<and> \<not> rs_ended s then 791 else 0) s (request_step s op)"
proof (cases op)
  case (OpPanic p)
  have "budget 0 s (s\<lparr>rs_panicRecorded := True, rs_panicErr := e\<rparr>)" for e by (rule budget_same) simp_all
  from budget_trans0 [OF this budget_quiet(3)] OpPanic show ?thesis
    by (simp add: ends_request_def recordPanic_def Let_def)
next
  case (OpUpstreamFailure code err)
  have "budget 0 s (s\<lparr>rs_statusCode := code, rs_upstreamErr := err\<rparr>)" by (rule budget_same) simp_all
  from budget_trans0 [OF this budget_quiet(3)] OpUpstreamFailure show ?thesis
    by (simp add: ends_request_def recordUpstreamFailure_def)
next
  case (OpEnd env)
  with end_request_budget [of s env] show ?thesis by (simp add: ends_request_def split: if_splits)
qed (simp_all add: ends_request_def recordTimeToFirstToken_budget emitStreamOutput_budget recordStreamOutput_def
  roundTrip_budget, simp_all add: budget_same responseStarted_def bodyDone_def recordLocalStatus_def)

lemma request_run_budget:
  "span_known s \<Longrightarrow>
   length (own_attributes (foldl request_step s ops)) \<le> length (own_attributes s) + (if rs_ended s then 0 else 791)"
proof (induction ops arbitrary: s)
  case (Cons op ops)
  from request_step_budget [of op s] Cons.prems have "span_known (request_step s op)"
    "length (own_attributes (request_step s op)) \<le>
      length (own_attributes s) + (if ends_request op \<and> \<not> rs_ended s then 791 else 0)"
    by (simp_all add: budget_def)
  with Cons.IH [of "request_step s op"] show ?case by (auto simp: request_step_frame split: if_splits)
qed simp

subsection \<open>The start of a request\<close>

lemma upstream_attributes_length: "length (upstreamAttributes u) \<le> 2"
  by (auto simp: upstreamAttributes_def Let_def split: option.split prod.split)

lemma parameter_attributes_length: "length (requestParameterAttributes params) \<le> 10"
proof -
  have one: "length (int_attr k v) \<le> 1" "length (float_attr k x) \<le> 1" for k v x
    by (simp_all add: int_attr_def float_attr_def split: option.split)
  have "length (requestParameterAttributes params) \<le> 1 + (1 + (1 + (1 + (1 + (1 + (1 + (1 + (1 + 1))))))))"
    unfolding requestParameterAttributes_def by (intro length_append_le one length_attr_if)
  then show ?thesis by simp
qed

lemma session_attributes_length:
  "serve_session hex_id sha256 opts start model header reg = (reg1, session, attrs, held) \<Longrightarrow> length attrs \<le> 2"
  by (auto simp: serve_session_def split: if_splits option.splits prod.splits)

lemma serve_instrumented_start:
  assumes "serve_instrumented hex_id sha256 extract opts sampled start w r op slot reg = (reg', Instrumented n q)"
  shows "span_known (oq_state q) \<and> length (own_attributes (oq_state q)) \<le> 20"
proof -
  obtain http req rest where peek: "PeekRequest (in_http r) (ho_requestBodyLimit opts) = (http, req, rest)"
    by (cases "PeekRequest (in_http r) (ho_requestBodyLimit opts)") auto
  obtain model ok where model: "boundedModel req = (model, ok)" by fastforce
  obtain ctx incoming newRoot where ctx: "traceContext hex_id sha256 extract opts (hr_header http) = (ctx, incoming, newRoot)"
    by (cases "traceContext hex_id sha256 extract opts (hr_header http)") auto
  obtain reg1 session sattrs held where session: "serve_session hex_id sha256 opts start model (hr_header http) reg =
      (reg1, session, sattrs, held)"
    by (cases "serve_session hex_id sha256 opts start model (hr_header http) reg") auto
  define attrs where "attrs = [(AttrProviderName, StrVal System), (AttrHTTPMethod, StrVal (in_method r)),
      (AttrURLPath, StrVal (in_path r))] @ ([(AttrOperationName, StrVal op)] @
      attr_if (gr_streamKnown req) (AttrRequestStream, BoolVal (gr_stream req)) @
      attr_if ok (AttrRequestModel, StrVal model)) @ sattrs @
      upstreamAttributes (ho_upstream opts) @ requestParameterAttributes (gr_parameters req)"
  have n: "length attrs \<le> 20"
    using session_attributes_length [OF session] upstream_attributes_length [of "ho_upstream opts"]
      parameter_attributes_length [of "gr_parameters req"]
    by (simp add: attrs_def attr_if_def)
  obtain t name parent where t: "start_span (rg_tracer reg1) name parent start attrs = (t, rs_span (oq_state q))"
    "rs_tracer (oq_state q) = t"
    using assms unfolding serve_instrumented_def serve_start_def peek prod.case Let_def model fst_conv ctx session attrs_def
    by (auto split: prod.splits)
  note started = span_attributes_start [OF t(1), of "rs_span (oq_state q)"]
  have "own_attributes (oq_state q) = attrs" using conjunct1 [OF started] t(2) by (simp add: own_attributes_def)
  moreover have "span_known (oq_state q)" using conjunct2 [OF started] t(2) by (simp add: span_known_def)
  ultimately show ?thesis using n by simp
qed

text \<open>
  C25: no attribute of a server span is dropped by the span limit the proxy sets in the SDK, whatever
  the request, its bodies and headers are and whatever happens to it: all attributes the span
  is ever given, those of one key counted each time, are at most 811 of the 1024 allowed.
\<close>

theorem server_span_keeps_attributes:
  assumes "serve_instrumented hex_id sha256 extract opts sampled start w r op slot reg = (reg', Instrumented n q)"
  shows "length (span_attributes (rs_tracer (foldl request_step (oq_state q) ops)) (rs_span (oq_state q))) \<le> 811 \<and>
    811 \<le> sl_attributeCount (spanLimits sdk)"
proof
  let ?s = "oq_state q"
  have "length (own_attributes (foldl request_step ?s ops)) \<le> 811"
    using request_run_budget [of ?s ops] serve_instrumented_start [OF assms] by (simp split: if_splits)
  then show "length (span_attributes (rs_tracer (foldl request_step ?s ops)) (rs_span ?s)) \<le> 811"
    using request_run_frame [of ?s ops] by (simp add: own_attributes_def)
  show "811 \<le> sl_attributeCount (spanLimits sdk)" by (simp add: spanLimits_def spanAttributeCountLimit_def)
qed

theorem server_span_keeps_attributes_witness:
  "length (span_attributes (rs_tracer (foldl request_step (oq_state (example_served True)) example_request_ops))
     (rs_span (oq_state (example_served True)))) \<le> 811"
  using server_span_keeps_attributes [OF example_serve_eq [of True, unfolded example_serve_def [of True]]] by blast

end
