(* ===== verification/Program.thy ===== *)
theory Program
  imports Proxy_Safety Tracing_Safety Session_Safety
begin

text \<open>
  The program (\<open>cmd/llamaproxy/main.go\<close>): it loads the configuration, sets up tracing, makes the
  handler (\<open>New\<close> of \<open>internal/proxy/proxy.go\<close>) and serves until it fails or is told to stop; then it
  drains, closes the sessions and flushes the spans.

  The calls it makes are a log; what they return, an error or none, is an argument. Logging, the
  command line and the timeouts of \<open>http.Server\<close> are not modelled.
\<close>

definition drainTimeout :: go_time where "drainTimeout = 15 * 1000000000"
definition unwindTimeout :: go_time where "unwindTimeout = 5 * 1000000000"
definition flushTimeout :: go_time where "flushTimeout = 10 * 1000000000"

subsection \<open>Making the handler\<close>

record proxy_options =
  po_upstream :: "url option"
  po_modelInSpanName :: bool
  po_requestBodyLimit :: int
  po_maxConcurrentRequests :: int
  po_maxConcurrentPassthroughRequests :: int
  po_trustTraceContext :: bool
  po_sessionTraceIDRoots :: bool
  po_sessionIdleTimeout :: go_time

text \<open>What \<open>New\<close> makes: the admission state, the options and the session registry.\<close>

definition newProxy :: "tracer \<Rightarrow> proxy_options \<Rightarrow> handler \<times> handler_opts \<times> sessionRegistry option" where
  "newProxy t opts =
     (newHandler (po_maxConcurrentRequests opts) (po_maxConcurrentPassthroughRequests opts),
      \<lparr>ho_modelInSpanName = po_modelInSpanName opts,
       ho_requestBodyLimit = (if po_requestBodyLimit opts = 0 then DefaultRequestLimit else nat (po_requestBodyLimit opts)),
       ho_trustTraceContext = po_trustTraceContext opts, ho_sessionTraceIDRoots = po_sessionTraceIDRoots opts,
       ho_upstream = po_upstream opts\<rparr>,
      if po_sessionTraceIDRoots opts then Some (newSessionRegistry t (po_sessionIdleTimeout opts)) else None)"

definition main_options :: "Config \<Rightarrow> proxy_options" where
  "main_options cfg =
     \<lparr>po_upstream = map_option (\<lambda>u. \<lparr>ur_scheme = pu_scheme u, ur_host = pu_host u\<rparr>) (cf_upstreamURL cfg),
      po_modelInSpanName = cf_modelInSpanName cfg, po_requestBodyLimit = RequestBodyLimit cfg,
      po_maxConcurrentRequests = cf_maxConcurrentRequests cfg,
      po_maxConcurrentPassthroughRequests = cf_maxConcurrentPassthroughRequests cfg,
      po_trustTraceContext = cf_trustTraceContext cfg, po_sessionTraceIDRoots = True,
      po_sessionIdleTimeout = cf_sessionIdleTimeout cfg\<rparr>"

text \<open>
  No setting of an accepted configuration is replaced by a default: the handler admits as many
  requests of each kind as configured, reads bodies up to the configured size and keeps idle
  sessions for the configured time.
\<close>

lemma configured_limits_apply:
  assumes "valid_config parse cfg"
  shows "case newProxy t (main_options cfg) of
    (h, opts, reg) \<Rightarrow>
      int (slots_cap h True) = cf_maxConcurrentRequests cfg \<and>
      int (slots_cap h False) = cf_maxConcurrentPassthroughRequests cfg \<and>
      int (ho_requestBodyLimit opts) = cf_requestBodyLimitMiB cfg * 2 ^ 20 \<and>
      map_option rg_idle reg = Some (cf_sessionIdleTimeout cfg) \<and>
      ho_trustTraceContext opts = cf_trustTraceContext cfg \<and>
      ho_modelInSpanName opts = cf_modelInSpanName cfg \<and> ho_sessionTraceIDRoots opts \<and>
      ho_upstream opts = map_option (\<lambda>u. \<lparr>ur_scheme = pu_scheme u, ur_host = pu_host u\<rparr>) (cf_upstreamURL cfg)"
proof -
  from assms have pos: "0 < cf_maxConcurrentRequests cfg" "0 < cf_maxConcurrentPassthroughRequests cfg"
    "0 < cf_requestBodyLimitMiB cfg" "cf_requestBodyLimitMiB cfg \<le> 512" "0 < cf_sessionIdleTimeout cfg"
    by (simp_all add: valid_config_def)
  then have "RequestBodyLimit cfg = cf_requestBodyLimitMiB cfg * 2 ^ 20"
    by (simp add: RequestBodyLimit_def int64_ok_def)
  with pos show ?thesis
    by (simp add: newProxy_def main_options_def newHandler_def slots_cap_def newSessionRegistry_def)
qed

lemma configured_limits_apply_witness:
  "case newProxy new_tracer (main_options example_config) of
     (h, opts, reg) \<Rightarrow> int (slots_cap h True) = 16 \<and> map_option rg_idle reg = Some 300000000000"
proof -
  have "validate (\<lambda>_. Some example_url) (\<lambda>_. []) example_config = Inr example_config" by code_simp
  then have "valid_config (\<lambda>_. Some example_url) example_config" unfolding validate_accepts_rule by simp
  from configured_limits_apply [OF this, of new_tracer] show ?thesis
    by (simp add: example_config_def Defaults_def split: prod.splits)
qed

subsection \<open>Running and stopping\<close>

datatype program_call =
    InitTracing | Listen | BeginDrain | Shutdown | WaitIdle | BeginForcedClose | CloseServer | WaitUnwind
  | CloseSessions | Flush

text \<open>
  \<open>WaitUnwind\<close> is the second call of \<open>WaitIdle\<close>, under the shorter timeout; the two have results of
  their own. What the calls of the shutdown return:
\<close>

record shutdown_results =
  sd_shutdown :: "bytes option"
  sd_wait :: "bytes option"
  sd_close :: "bytes option"
  sd_unwind :: "bytes option"
  sd_flush :: "bytes option"

definition drain_error :: "shutdown_results \<Rightarrow> bytes option" where
  "drain_error r = (case sd_shutdown r of Some e \<Rightarrow> Some e | None \<Rightarrow> sd_wait r)"

definition shutdownServer :: "shutdown_results \<Rightarrow> program_call list" where
  "shutdownServer r =
     [BeginDrain, Shutdown] @ (if sd_shutdown r = None then [WaitIdle] else []) @
     (if drain_error r \<noteq> None then [BeginForcedClose, CloseServer, WaitUnwind] else []) @
     [CloseSessions, Flush]"

datatype serve_end = ListenFailed bytes | ServerClosed | Signalled

definition run_program ::
    "Config or_error \<Rightarrow> bytes option \<Rightarrow> serve_end \<Rightarrow> shutdown_results \<Rightarrow> program_call list \<times> bytes option" where
  "run_program loaded init_error serving r =
     (case loaded of
        Inl e \<Rightarrow> ([], Some e)
      | Inr cfg \<Rightarrow>
          (case init_error of
             Some e \<Rightarrow> ([InitTracing], Some e)
           | None \<Rightarrow>
               (case serving of
                  ListenFailed e \<Rightarrow>
                    ([InitTracing, Listen, CloseSessions, Flush],
                     Some (case sd_flush r of None \<Rightarrow> e | Some f \<Rightarrow> e @ [CHR 0x0A] @ ''tracer shutdown: '' @ f))
                | _ \<Rightarrow> ([InitTracing, Listen] @ shutdownServer r, None))))"

text \<open>
  The effect of the shutdown calls on the admission state and the session registry, when nothing
  runs between the steps of \<open>BeginForcedClose\<close> (theory \<open>Admission\<close> has all interleavings).
\<close>

definition cancel_next :: "handler \<Rightarrow> handler" where
  "cancel_next h = (case forcedCancel h of Some h' \<Rightarrow> h' | None \<Rightarrow> h)"

definition forced_close :: "handler \<Rightarrow> handler" where
  "forced_close h =
     (case forcedSwap h of
        None \<Rightarrow> h
      | Some h1 \<Rightarrow> (cancel_next ^^ length (h_active h1)) (forcedSnapshot h1))"

definition call_effect :: "handler \<times> sessionRegistry \<Rightarrow> program_call \<Rightarrow> handler \<times> sessionRegistry" where
  "call_effect hr c =
     (case c of
        BeginDrain \<Rightarrow> (beginDrain (fst hr), snd hr)
      | BeginForcedClose \<Rightarrow> (forced_close (fst hr), snd hr)
      | CloseSessions \<Rightarrow> (fst hr, closeAll (snd hr))
      | _ \<Rightarrow> hr)"

lemma effect_simps [simp]:
  "call_effect (h, reg) InitTracing = (h, reg)" "call_effect (h, reg) Listen = (h, reg)"
  "call_effect (h, reg) Shutdown = (h, reg)" "call_effect (h, reg) WaitIdle = (h, reg)"
  "call_effect (h, reg) CloseServer = (h, reg)" "call_effect (h, reg) WaitUnwind = (h, reg)"
  "call_effect (h, reg) Flush = (h, reg)" "call_effect (h, reg) BeginDrain = (beginDrain h, reg)"
  "call_effect (h, reg) CloseSessions = (h, closeAll reg)" "call_effect (h, reg) BeginForcedClose = (forced_close h, reg)"
  by (simp_all add: call_effect_def)

lemma cancel_all:
  "h_snapshot h = Some reqs \<Longrightarrow>
   (cancel_next ^^ length reqs) h = h\<lparr>h_cancelled := rev reqs @ h_cancelled h, h_snapshot := Some []\<rparr>"
proof (induction reqs arbitrary: h)
  case (Cons req reqs)
  let ?h = "h\<lparr>h_cancelled := req # h_cancelled h, h_snapshot := Some reqs\<rparr>"
  have "cancel_next h = ?h" using Cons.prems by (simp add: cancel_next_def forcedCancel_def)
  then have "(cancel_next ^^ length (req # reqs)) h = (cancel_next ^^ length reqs) ?h" by (simp add: funpow_swap1)
  also have "\<dots> = ?h\<lparr>h_cancelled := rev reqs @ h_cancelled ?h, h_snapshot := Some []\<rparr>" by (rule Cons.IH) simp
  finally show ?case by simp
qed simp

lemma forced_close_effect:
  assumes "\<not> h_forcedClose h"
  shows "h_forcedClose (forced_close h)" "h_draining (forced_close h) \<longleftrightarrow> h_draining h"
    "h_active (forced_close h) = h_active h" "fst ` set (h_active h) \<subseteq> set (h_cancelled (forced_close h))"
  using assms cancel_all [of "forcedSnapshot (h\<lparr>h_forcedClose := True\<rparr>)" "map fst (h_active h)"]
  by (simp_all add: forced_close_def forcedSwap_def forcedSnapshot_def)

lemma closeAll_closed: "rg_closed (closeAll reg)"
proof -
  have "rg_closed (foldl (\<lambda>r s. finishLocked r s SessionEndShutdown) r ss) = rg_closed r" for r ss
    by (induction ss arbitrary: r) (simp_all add: finishLocked_def Let_def)
  then show ?thesis by (simp add: closeAll_def)
qed

lemma closeAll_empty: "registry_inv reg \<Longrightarrow> rg_closed (closeAll reg) \<and> rg_sessions (closeAll reg) = []"
  using closeAll_closed [of reg] closeAll_inv [of "{#}" True reg] by (auto simp: registry_inv_among_def)

text \<open>
  C24: once tracing is set up the program stops in order, however serving ended and whatever the
  calls return: the last calls close the sessions and then flush, and nothing is called twice but
  \<open>WaitIdle\<close>, which a forced close calls again to wait for the handlers it cancelled (here
  \<open>WaitUnwind\<close>), so every session span is ended before the spans are flushed; after a shutdown no request is
  admitted; when draining failed every request that is still active has been cancelled, otherwise
  none was.
\<close>

theorem program_stops_in_order:
  assumes "registry_inv reg" and "\<not> h_forcedClose h"
  shows "case run_program (Inr cfg) None serving r of (calls, err) \<Rightarrow>
    (case foldl call_effect (h, reg) calls of (h', reg') \<Rightarrow>
       drop (length calls - 2) calls = [CloseSessions, Flush] \<and> distinct calls \<and>
       rg_closed reg' \<and> rg_sessions reg' = [] \<and>
       (case serving of
          ListenFailed e \<Rightarrow> err \<noteq> None \<and> h' = h
        | _ \<Rightarrow> err = None \<and> snd (admitRequest h' i) = None \<and> h_active h' = h_active h \<and>
            (if drain_error r = None then \<not> h_forcedClose h' \<and> h_cancelled h' = h_cancelled h
             else fst ` set (h_active h') \<subseteq> set (h_cancelled h'))))"
proof -
  have refused: "h_draining k \<Longrightarrow> snd (admitRequest k i) = None" for k by (simp add: admitRequest_def Let_def)
  note closed = closeAll_empty [OF assms(1)]
  have drained: "h_draining (beginDrain h)" "\<not> h_forcedClose (beginDrain h)" "h_active (beginDrain h) = h_active h"
      "h_cancelled (beginDrain h) = h_cancelled h"
    using assms(2) by (simp_all add: beginDrain_def)
  note forced = forced_close_effect [OF drained(2)]
  show ?thesis
  proof (cases serving)
    case (ListenFailed e)
    with closed show ?thesis by (simp add: run_program_def split: option.split)
  qed (cases "sd_shutdown r"; cases "sd_wait r";
    use forced refused closed drained in \<open>simp add: run_program_def shutdownServer_def drain_error_def\<close>)+
qed

theorem program_stops_in_order_witness:
  "case run_program (Inr Defaults) None Signalled
      \<lparr>sd_shutdown = Some ''timeout'', sd_wait = None, sd_close = None, sd_unwind = None, sd_flush = None\<rparr> of (calls, err) \<Rightarrow>
    calls = [InitTracing, Listen, BeginDrain, Shutdown, BeginForcedClose, CloseServer, WaitUnwind, CloseSessions, Flush] \<and>
    rg_sessions (snd (foldl call_effect (newHandler 1 1, newSessionRegistry new_tracer 0) calls)) = []"
proof -
  have reg: "registry_inv (newSessionRegistry new_tracer 0)"
    by (simp add: registry_inv_among_def newSessionRegistry_def spans_once_def session_spans_def ends_ok_def new_tracer_def tracer_ok_def
      started_spans_def ended_spans_def map_filter_def)
  have h: "\<not> h_forcedClose (newHandler 1 1)" by (simp add: newHandler_def)
  from program_stops_in_order [OF reg h, where cfg = Defaults and serving = Signalled and i = True and
      r = "\<lparr>sd_shutdown = Some ''timeout'', sd_wait = None, sd_close = None, sd_unwind = None, sd_flush = None\<rparr>"]
  show ?thesis by (auto simp: run_program_def shutdownServer_def drain_error_def split: prod.splits)
qed

end
