(* ===== verification/Startup.thy ===== *)
theory Startup
  imports Program Tracing_Safety
begin

text \<open>
  How the program starts (\<open>run\<close> of \<open>cmd/llamaproxy/main.go\<close> up to the server): it loads and checks
  the configuration, sets up tracing, and makes the handler. Every step may fail, and then
  nothing after it is done.
\<close>

subsection \<open>From the command line to the handler\<close>

text \<open>What is logged on the way, without the settings of the server.\<close>

datatype startup_notice =
    NoConfigFound "bytes list"
  | ConfigLoaded bytes
  | SecretsReadable bytes nat
  | SpansSampled

definition startup_notices :: "(bytes \<Rightarrow> nat option) \<Rightarrow> Config \<Rightarrow> startup_notice list" where
  "startup_notices stat_mode cfg =
     (if cf_path cfg = [] then [NoConfigFound [LocalPath, SystemPath]] else [ConfigLoaded (cf_path cfg)]) @
     (case SecretsExposed stat_mode cfg of (mode, exposed) \<Rightarrow> if exposed then [SecretsReadable (cf_path cfg) mode] else [])"

text \<open>What the program runs in. There is one \<open>url.Parse\<close>: that of \<open>su_config\<close>.\<close>

record 'x startup_env =
  su_config :: config_env
  su_mode :: "bytes \<Rightarrow> nat option"
  su_tracing :: tracing_env
  su_sdk :: sdk_env
  su_create :: "exporter_options \<Rightarrow> environment \<Rightarrow> 'x or_error"

definition su_env :: "'x startup_env \<Rightarrow> tracing_env" where
  "su_env se = (su_tracing se)\<lparr>te_url := ce_url (su_config se)\<rparr>"

text \<open>The settings of \<open>http.Server\<close>.\<close>

record http_server =
  hs_addr :: bytes
  hs_readHeaderTimeout :: go_time
  hs_readTimeout :: go_time
  hs_idleTimeout :: go_time
  hs_maxHeaderBytes :: int

definition main_server :: "Config \<Rightarrow> http_server" where
  "main_server cfg =
     \<lparr>hs_addr = cf_listen cfg, hs_readHeaderTimeout = 15 * 1000000000, hs_readTimeout = cf_requestReadTimeout cfg,
      hs_idleTimeout = 120 * 1000000000, hs_maxHeaderBytes = 2 ^ 20\<rparr>"

record 'x started_program =
  sp_config :: Config
  sp_provider :: "'x tracer_provider"
  sp_handler :: handler
  sp_opts :: handler_opts
  sp_sessions :: "sessionRegistry option"
  sp_server :: http_server

definition start_program ::
    "'x startup_env \<Rightarrow> bytes \<Rightarrow> environment \<Rightarrow> environment \<times> startup_notice list \<times> 'x started_program or_error" where
  "start_program se configPath env =
     (case Load (su_config se) configPath of
        Inl e \<Rightarrow> (env, [], Inl e)
      | Inr cfg \<Rightarrow>
          let notices = startup_notices (su_mode se) cfg
          in case Init (su_env se) (su_sdk se) (su_create se) cfg env of
               (env', Inl e) \<Rightarrow> (env', notices, Inl e)
             | (env', Inr (provider, warned)) \<Rightarrow>
                 let (h, opts, sessions) = newProxy new_tracer (main_options cfg)
                 in (env', notices @ (if warned then [SpansSampled] else []),
                     Inr \<lparr>sp_config = cfg, sp_provider = provider, sp_handler = h, sp_opts = opts, sp_sessions = sessions,
        sp_server = main_server cfg\<rparr>))"



subsection \<open>Property\<close>










text \<open>A configuration with a header that others can read, and one exporter variable in the environment.\<close>

definition example_startup :: "unit startup_env" where
  "example_startup =
     \<lparr>su_config = example_config_env [(''x-key'', ''secret'')], su_mode = (\<lambda>_. Some 420),
      su_tracing = \<lparr>te_url = (\<lambda>_. Some example_url), te_readable = (\<lambda>_. True), te_unsetFails = (\<lambda>_. False)\<rparr>,
      su_sdk = \<lparr>sk_over = (\<lambda>_ _. Finite 1 0), sk_limits = \<lparr>sl_attributeValueLength = -1, sl_attributeCount = 128,
        sl_eventCount = 128, sl_linkCount = 128, sl_attributePerEventCount = 128, sl_attributePerLinkCount = 128\<rparr>,
        sk_version = ''1''\<rparr>,
      su_create = (\<lambda>_ _. Inr ())\<rparr>"

lemma example_loads: "Load (su_config example_startup) ''a.yaml'' = Inr example_config"
proof -
  have "Load (example_config_env [(''x-key'', ''secret'')]) ''a.yaml'' = Inr example_config" by code_simp
  then show ?thesis by (simp add: example_startup_def)
qed

lemma example_inits:
  "Init_tracing (su_env example_startup) (su_create example_startup) example_config [(''OTEL_SERVICE_NAME'', ''x'')] =
    ([], Some [], Inr ())"
  by code_simp

lemma example_starts:
  "case start_program example_startup ''a.yaml'' [(''OTEL_SERVICE_NAME'', ''x'')] of (env', notices, res) \<Rightarrow>
    env' = [] \<and> notices = [ConfigLoaded ''a.yaml'', SecretsReadable ''a.yaml'' 420] \<and> (\<exists>p. res = Inr p \<and> sp_config p = example_config)"
proof -
  have notices: "startup_notices (\<lambda>_. Some 420) example_config = [ConfigLoaded ''a.yaml'', SecretsReadable ''a.yaml'' 420]" by code_simp
  have "\<not> float_below 1 (SampleRatio (sk_over (su_sdk example_startup)) example_config)"
    "su_mode example_startup = (\<lambda>_. Some 420)"
    by (simp_all add: float_below_def SampleRatio_def example_startup_def)
  with notices show ?thesis by (simp add: start_program_def example_loads Init_def example_inits Let_def split: prod.split)
qed

end
