(* ===== verification/Shutdown_Run.thy ===== *)
theory Shutdown_Run
  imports Program Proxy_System
begin

text \<open>
  The shutdown of \<open>cmd/llamaproxy/main.go\<close> while requests are still being served: the calls of
  \<open>shutdownServer\<close>, made in their order on the proxy of theory \<open>Proxy_System\<close>, with any number of its
  steps before each of them.

  A call that waits returns when what it waits for holds, or an error after its timeout. The
  steps of \<open>BeginForcedClose\<close> are steps of the proxy; the call returns when the last of them is done.
\<close>

subsection \<open>Calls\<close>

fun call_returns :: "shutdown_results \<Rightarrow> program_call \<Rightarrow> proxy_system \<Rightarrow> proxy_system \<Rightarrow> bool" where
  "call_returns r BeginDrain y z \<longleftrightarrow> z = y\<lparr>py_handler := beginDrain (py_handler y)\<rparr>"
| "call_returns r WaitIdle y z \<longleftrightarrow> z = y \<and> (sd_wait r = None \<longrightarrow> waitIdleRound (py_handler y) = Inl ())"
| "call_returns r BeginForcedClose y z \<longleftrightarrow> z = y \<and> h_forcedClose (py_handler y) \<and> h_snapshot (py_handler y) = Some []"
| "call_returns r WaitUnwind y z \<longleftrightarrow> z = y \<and> (sd_unwind r = None \<longrightarrow> waitIdleRound (py_handler y) = Inl ())"
| "call_returns r CloseSessions y z \<longleftrightarrow> z = on_registry (closeAll (py_registry y)) y"
| "call_returns r _ y z \<longleftrightarrow> z = y"

inductive calls_run :: "proxy_env \<Rightarrow> shutdown_results \<Rightarrow> program_call list \<Rightarrow> proxy_system \<Rightarrow> proxy_system \<Rightarrow> bool"
  for e r where
  calls_done: "calls_run e r [] y y"
| calls_next: "(proxy_step e)\<^sup>*\<^sup>* y u \<Longrightarrow> call_returns r c u v \<Longrightarrow> calls_run e r cs v z \<Longrightarrow> calls_run e r (c # cs) y z"

inductive_simps calls_run_simps: "calls_run e r [] y z" "calls_run e r (c # cs) y z"

lemma calls_run_append: "calls_run e r (cs @ ds) y z \<longleftrightarrow> (\<exists>u. calls_run e r cs y u \<and> calls_run e r ds u z)"
  by (induction cs arbitrary: y) (auto simp: calls_run_simps)

text \<open>A call is made of steps of the proxy.\<close>

lemma call_steps: "call_returns r c y z \<Longrightarrow> (proxy_step e)\<^sup>*\<^sup>* y z"
  using proxy_step.drain [of e y] proxy_step.close_sessions [of e y] by (cases c) auto

lemma calls_steps: "calls_run e r cs y z \<Longrightarrow> (proxy_step e)\<^sup>*\<^sup>* y z"
proof (induction rule: calls_run.induct)
  case (calls_next y u c v cs z)
  then show ?case by (meson call_steps rtranclp_trans)
qed simp

lemma call_in_run:
  "calls_run e r cs y z \<Longrightarrow> c \<in> set cs \<Longrightarrow>
   \<exists>u v. (proxy_step e)\<^sup>*\<^sup>* y u \<and> call_returns r c u v \<and> (proxy_step e)\<^sup>*\<^sup>* v z"
proof (induction rule: calls_run.induct)
  case (calls_next y u d v cs z)
  show ?case
  proof (cases "c = d")
    case True
    with calls_next.hyps calls_steps show ?thesis by blast
  next
    case False
    with calls_next obtain u' v' where "(proxy_step e)\<^sup>*\<^sup>* v u'" "call_returns r c u' v'" "(proxy_step e)\<^sup>*\<^sup>* v' z" by auto
    moreover from this(1) calls_next.hyps have "(proxy_step e)\<^sup>*\<^sup>* y u'" by (meson call_steps rtranclp_trans)
    ultimately show ?thesis by blast
  qed
qed simp

subsection \<open>What the steps of the proxy keep\<close>

lemma registry_closed_step:
  assumes "proxy_step e y z" and "rg_closed (py_registry y)"
  shows "rg_closed (py_registry z)"
  using assms(1)
proof cases
  case (open_session n l http req ok start reg session)
  then have "reg = py_registry y"
    using assms(2) by (auto simp: serve_session_def acquire_def split: if_splits option.splits prod.splits)
  with open_session assms(2) show ?thesis by simp
next
  case (start_server n l start http req session sampled w reg m q)
  with serve_start_result(1) [OF start_server(4)] assms(2) show ?thesis by auto
next
  case (release_session n l s held at)
  with assms(2) show ?thesis by (auto simp: release_held_def release_def Let_def split: option.splits)
next
  case (idle_timer sid now)
  with assms(2) show ?thesis by (simp add: expire_def Let_def finishLocked_def split: option.split)
next
  case close_sessions
  then show ?thesis by (simp add: closeAll_closed)
qed (use assms(2) in simp_all)

lemma registry_closed_steps: "(proxy_step e)\<^sup>*\<^sup>* y z \<Longrightarrow> rg_closed (py_registry y) \<Longrightarrow> rg_closed (py_registry z)"
  by (induction rule: rtranclp_induct) (auto dest: registry_closed_step)

lemma drained_steps:
  assumes "(proxy_step e)\<^sup>*\<^sup>* y z" and "proxy_inv y" and "h_draining (py_handler y)"
  shows "h_draining (py_handler z)" "proxy_inv z" "set (h_active (py_handler z)) \<subseteq> set (h_active (py_handler y))"
    "set (h_cancelled (py_handler y)) \<subseteq> set (h_cancelled (py_handler z))"
proof -
  have "handler_step\<^sup>*\<^sup>* (py_handler y) (py_handler z)"
    using admission_view.view_run [OF assms(1)] assms(2) by (simp add: proxy_inv_def)
  from handler_steps_frame [OF this] assms(3)
  show "h_draining (py_handler z)" "set (h_active (py_handler z)) \<subseteq> set (h_active (py_handler y))"
    "set (h_cancelled (py_handler y)) \<subseteq> set (h_cancelled (py_handler z))" by blast+
  show "proxy_inv z" by (rule proxy.inv_steps [OF assms(1,2)])
qed

text \<open>What the waiting and the forced close have reached when the calls are done.\<close>

lemma waited_idle:
  assumes inv: "proxy_inv y" "h_draining (py_handler y)" and run: "calls_run e r cs y z"
    and wait: "c \<in> set cs" "\<And>u v. call_returns r c u v \<Longrightarrow> v = u \<and> waitIdleRound (py_handler u) = Inl ()"
  shows "h_active (py_handler z) = []"
proof -
  obtain u where u: "(proxy_step e)\<^sup>*\<^sup>* y u" "waitIdleRound (py_handler u) = Inl ()" "(proxy_step e)\<^sup>*\<^sup>* u z"
    using call_in_run [OF run wait(1)] wait(2) by blast
  have "h_active (py_handler u) = []" using u(2) by (simp add: waitIdleRound_def split: if_splits)
  with drained_steps(3) [OF u(3) drained_steps(2,1) [OF u(1) inv]] show ?thesis by simp
qed

lemma forced_everyone:
  assumes inv: "proxy_inv y" "h_draining (py_handler y)" and run: "calls_run e r cs y z" and "BeginForcedClose \<in> set cs"
    and l: "al_lookup (py_live z) n = Some l"
  shows "n \<in> set (h_cancelled (py_handler z))" "lv_cause l \<noteq> None"
proof -
  obtain u where u: "(proxy_step e)\<^sup>*\<^sup>* y u" "h_snapshot (py_handler u) = Some []" "(proxy_step e)\<^sup>*\<^sup>* u z"
    using call_in_run [OF run assms(4)] by auto
  note u_inv = drained_steps(2,1) [OF u(1) inv]
  note z = drained_steps [OF u(3) u_inv]
  have "handler_inv (py_handler u)" using u_inv by (simp add: proxy_inv_def)
  with u(2) have "fst ` set (h_active (py_handler u)) \<subseteq> set [] \<union> set (h_cancelled (py_handler u))"
    unfolding handler_inv_def by blast
  moreover have "(n, lv_instrumented l) \<in> set (h_active (py_handler z))"
    using live_active [OF _ l] z(2) by (simp add: proxy_inv_def)
  ultimately show "n \<in> set (h_cancelled (py_handler z))" using z(3,4) by force
  with z(2) l show "lv_cause l \<noteq> None" by (auto simp: proxy_inv_def causes_ok_def)
qed

subsection \<open>Property\<close>

text \<open>
  C5: what the flush of the program can see. Whatever requests, sessions and timers do before and
  between the calls it makes at its end, when the spans are flushed the sessions are closed and every
  span that was ever started has been ended exactly once, but for the open spans of requests that are
  still being served and the client spans of transports that panicked. When the program was told to
  stop or its server was closed, no request is left if a wait for them succeeded, before or after the
  forced close, and otherwise every request left has been cancelled. A listener that failed is not
  followed by a drain: the program then flushes without waiting for requests.
\<close>

theorem flush_sees_every_span:
  assumes "proxy_start y" and "calls_run e r (fst (run_program (Inr cfg) None serving r)) y z"
  shows "rg_closed (py_registry z) \<and>
    mset (ended_spans (py_tracer z)) + live_sum open_span (py_live z) + mset (py_abandoned z) =
      mset (started_spans (py_tracer z)) \<and>
    (serving \<in> {Signalled, ServerClosed} \<longrightarrow>
      (drain_error r = None \<or> sd_unwind r = None \<longrightarrow>
         py_live z = [] \<and>
         mset (ended_spans (py_tracer z)) + mset (py_abandoned z) = mset (started_spans (py_tracer z))) \<and>
      (drain_error r \<noteq> None \<longrightarrow>
         (\<forall>n l. al_lookup (py_live z) n = Some l \<longrightarrow> n \<in> set (h_cancelled (py_handler z)) \<and> lv_cause l \<noteq> None)))"
proof -
  let ?calls = "fst (run_program (Inr cfg) None serving r)"
  have inv: "proxy_inv y" by (rule proxy_start_inv [OF assms(1)])
  have z: "proxy_inv z" by (rule proxy.inv_steps [OF calls_steps [OF assms(2)] inv])
  have "CloseSessions \<in> set ?calls" by (simp add: run_program_def shutdownServer_def split: serve_end.split)
  then obtain u where "(proxy_step e)\<^sup>*\<^sup>* (on_registry (closeAll (py_registry u)) u) z"
    using call_in_run [OF assms(2), of CloseSessions] by auto
  then have closed: "rg_closed (py_registry z)" by (rule registry_closed_steps) (simp add: closeAll_closed)
  have balance: "mset (ended_spans (py_tracer z)) + live_sum open_span (py_live z) + mset (py_abandoned z) =
      mset (started_spans (py_tracer z))"
    using proxy_balance(1,3) [OF z] closed by simp
  have stopped: "(drain_error r = None \<or> sd_unwind r = None \<longrightarrow> h_active (py_handler z) = []) \<and>
      (drain_error r \<noteq> None \<longrightarrow>
         (\<forall>n l. al_lookup (py_live z) n = Some l \<longrightarrow> n \<in> set (h_cancelled (py_handler z)) \<and> lv_cause l \<noteq> None))"
    if "serving \<in> {Signalled, ServerClosed}"
  proof -
    obtain cs where cs: "shutdownServer r = BeginDrain # cs" by (simp add: shutdownServer_def)
    have "?calls = [InitTracing, Listen, BeginDrain] @ cs" using that by (auto simp: run_program_def cs)
    then obtain u where "(proxy_step e)\<^sup>*\<^sup>* y u" "h_draining (py_handler u)" "calls_run e r cs u z"
      using assms(2) calls_run_append [of e r "[InitTracing, Listen, BeginDrain]" cs y z]
        calls_steps [of e r "[InitTracing, Listen, BeginDrain]" y]
      by (fastforce simp: calls_run_simps beginDrain_def)
    moreover from this(1) inv have "proxy_inv u" by (rule proxy.inv_steps)
    ultimately have u: "proxy_inv u" "h_draining (py_handler u)" "calls_run e r cs u z" by simp_all
    have "h_active (py_handler z) = []" if "drain_error r = None"
      using waited_idle [OF u, of WaitIdle] that cs
      by (auto simp: shutdownServer_def drain_error_def split: option.splits)
    moreover have "h_active (py_handler z) = []" if "drain_error r \<noteq> None" "sd_unwind r = None"
      using waited_idle [OF u, of WaitUnwind] that cs by (auto simp: shutdownServer_def)
    moreover have "n \<in> set (h_cancelled (py_handler z)) \<and> lv_cause l \<noteq> None"
      if "drain_error r \<noteq> None" "al_lookup (py_live z) n = Some l" for n l
      using forced_everyone [OF u _ that(2)] that(1) cs by (auto simp: shutdownServer_def)
    ultimately show ?thesis by blast
  qed
  have "py_live z = [] \<and> mset (ended_spans (py_tracer z)) + mset (py_abandoned z) = mset (started_spans (py_tracer z))"
    if "h_active (py_handler z) = []"
    using balance idle_no_spans(1) [OF z that] idle_no_spans(2) [OF z that, of open_span] by simp
  with closed balance stopped show ?thesis by blast
qed

text \<open>The request of the example of theory \<open>Proxy_System\<close> is served, and then the program is told to stop.\<close>

theorem flush_sees_every_span_witness:
  "let z = on_registry (closeAll (py_registry example_left)) (example_left\<lparr>py_handler := beginDrain (py_handler example_left)\<rparr>) in
   py_live z = [] \<and> mset (ended_spans (py_tracer z)) = mset (started_spans (py_tracer z))"
proof -
  let ?y = "example_left\<lparr>py_handler := beginDrain (py_handler example_left)\<rparr>"
    and ?r = "\<lparr>sd_shutdown = None, sd_wait = None, sd_close = None, sd_unwind = None, sd_flush = None\<rparr>"
  let ?z = "on_registry (closeAll (py_registry ?y)) ?y"
  have idle: "waitIdleRound (py_handler ?y) = Inl ()" by (simp add: example_handlers) code_simp
  have "calls_run example_penv ?r [BeginDrain, Shutdown, WaitIdle, CloseSessions, Flush] example_left ?z"
    using idle by (auto simp: calls_run_simps intro!: exI)
  then have "calls_run example_penv ?r [Listen, BeginDrain, Shutdown, WaitIdle, CloseSessions, Flush] example_left ?z"
    by (rule calls_next [OF rtranclp.rtrancl_refl, rotated]) simp
  then have "calls_run example_penv ?r [InitTracing, Listen, BeginDrain, Shutdown, WaitIdle, CloseSessions, Flush] example_system ?z"
    by (rule calls_next [OF rtranclp_trans [OF example_proxied_run example_left_run], rotated]) simp
  then have "calls_run example_penv ?r (fst (run_program (Inr Defaults) None Signalled ?r)) example_system ?z"
    by (simp add: run_program_def shutdownServer_def drain_error_def)
  moreover have "py_abandoned ?z = []"
    by (simp add: example_left_def example_released_def example_ended_def example_answered_def
      example_sent_def example_proxied_def example_acquired_session_def example_arrived_def example_system_def)
  ultimately show ?thesis using flush_sees_every_span [OF example_begin] by (fastforce simp: Let_def drain_error_def)
qed

end
