(* ===== verification/Spec2Isabelle.thy ===== *)
theory Spec2Isabelle
  imports
    Go_Prelude Sse_Parser Utf8_Text
    Json Stream_Output Stream_Events Stream_Accumulator
    Stream_Safety Stream_Finish Stream_Observe Stream_Contract Stream_Results Stream_Texts
    Json_Values Chat_Stream
    Telemetry Sessions Session_Safety Admission Route Response_Writer Body_Observer
    Go_Numbers Attribute_Keys Trace_Attributes Attribute_Safety Request_Peek Response_Parse
    Request_State Proxy_Handler Request_Safety Exchange Proxy_Safety Reverse_Proxy Session_Sharing Proxy_System
    Proxy_Progress Trace_Ids Config Config_Safety Redaction Tracing_Setup Tracing_Safety Span_Limits Program Startup Shutdown_Run
begin

text \<open>
  llama-otel-proxy is a reverse proxy in front of a llama.cpp server. It forwards every request,
  as it came but for a few headers, and reports what it saw as OpenTelemetry spans. The risk of such a program is in
  the observation: it parses whatever bytes the server streams, in whatever pieces, with
  bounded memory, and must neither disturb the response nor report something that was not
  there. This development models that core.

  The parts, along the path of a request:

  \<^item> \<open>internal/route/route.go\<close> decides which paths are instrumented (\<open>Route\<close>).
  \<^item> \<open>internal/proxy/proxy.go\<close> admits a request to one of two pools, refuses it when the pool is
    full or the proxy shuts down, and waits for active requests at the end (\<open>Admission\<close>).
  \<^item> \<open>internal/proxy/session.go\<close> keeps one span per session while requests use it (\<open>Sessions\<close>,
    \<open>Session_Safety\<close>). The spans it starts and ends are calls logged by \<open>Telemetry\<close>.
  \<^item> \<open>internal/proxy/writer.go\<close> records what is sent to the client (\<open>Response_Writer\<close>).
  \<^item> \<open>internal/proxy/body.go\<close> watches the body read from upstream (\<open>Body_Observer\<close>); for an event
    stream it feeds \<open>internal/serversentevents/parser.go\<close> (\<open>Sse_Parser\<close>), and each event goes to
  \<^item> \<open>StreamAccumulator\<close> of \<open>internal/genai/genai.go\<close>, which decodes it (\<open>Json\<close>, \<open>Stream_Events\<close>)
    and collects the outputs of the stream in bounded texts (\<open>Utf8_Text\<close>, \<open>Stream_Output\<close>,
    \<open>Stream_Accumulator\<close>).

  \<^item> \<open>PeekRequest\<close> and \<open>ParseResponse\<close> of \<open>internal/genai/genai.go\<close> read what is needed from a
    request, without changing it, and from the last payload of a response (\<open>Request_Peek\<close>,
    \<open>Response_Parse\<close>).
  \<^item> \<open>internal/proxy/state.go\<close> and \<open>outcome.go\<close> hold what is known of one request, start its child
    spans, decide its outcome and end its server span (\<open>Request_State\<close>), with the attributes
    of \<open>internal/proxy/attrs.go\<close> (\<open>Attribute_Keys\<close>, \<open>Trace_Attributes\<close>).
  \<^item> The rest of \<open>internal/proxy/proxy.go\<close> ties these together: \<open>ServeHTTP\<close>, \<open>modifyResponse\<close>,
    \<open>errorHandler\<close> and the transport (\<open>Proxy_Handler\<close>), the \<open>Rewrite\<close> function of the reverse proxy that
    \<open>New\<close> makes and its buffer pool (\<open>Reverse_Proxy\<close>).
  \<^item> All of these run at once: \<open>Proxy_System\<close> is the proxy with any number of requests in flight,
    each in a phase of \<open>ServeHTTP\<close>, which share the admission state, the session registry and the
    tracer with each other, the timers of sessions and the shutdown. A transport starts its client
    span in one step and ends it in another, when upstream has answered; anything may happen in
    between, and the transport may panic instead.

  \<^item> \<open>internal/config/config.go\<close> finds, reads and checks the configuration and removes the values
    it holds from the errors of the YAML library (\<open>Config\<close>).
  \<^item> \<open>internal/tracing/tracing.go\<close> checks the environment of the exporter and hides from it what
    the configuration replaces; it makes the resource, the span limits, the provider with its
    sampler, and the IDs of spans (\<open>Tracing_Setup\<close>).
  \<^item> \<open>cmd/llamaproxy/main.go\<close> runs all of these and stops them in order (\<open>Program\<close>, with \<open>New\<close> of
    \<open>internal/proxy/proxy.go\<close>). \<open>Startup\<close> is \<open>run\<close> up to the server, from the path of the
    configuration; \<open>Shutdown_Run\<close> has the calls of \<open>shutdownServer\<close> made on the running proxy.

  How the code is modelled. A Go string or byte slice is a list of characters (bytes). A struct
  is a record with prefixed field names; a method is a definition that returns the record
  updated. An \<open>int\<close> is an \<open>int\<close>, with \<open>wrap64\<close> where the source computes with values of the
  stream; a length or a counter is a \<open>nat\<close>. A time is an \<open>int\<close>, 0 being the zero time, and every
  reading of the clock is an argument. A map is a list of pairs without repeated keys; where
  the code iterates over a map the result is shown not to depend on the order. A pointer to a
  state of the accumulator is the key it is stored under with its value. A callback is a log
  of its calls. \<open>encoding/json\<close> is part of Go's standard library and is modelled as the source
  uses it: the scanner's grammar with its depth limit, the decoding of structs with folded
  field names, \<open>null\<close> and repeated fields, strings with their escapes, and 64-bit integers.

  The theories that hold the model, and those that prove it correct:

  \<^item> \<open>Go_Prelude\<close>: association lists, 64-bit wrap-around, logs that only grow, and the interfaces
    \<open>chunked_consumer\<close> (a consumer of pieces of a byte stream), \<open>invariant_machine\<close> (operations that
    keep an invariant), \<open>transition_system\<close> (a step relation with an inductive invariant) and
    \<open>component_view\<close> (a system that does with one of its components only what the component can do
    by itself, so that the component's invariant holds in the system). They are interpreted by
    the parser, the response writer, the body observer, the accumulator, the session registry,
    the admission of requests, the buffer pool and the whole proxy.
  \<^item> \<open>Sse_Parser\<close>: \<open>Feed\<close> is equal to a machine that takes one byte at a time. The lemmas about
    pieces, bounds, round trips, line ends and dropped lines are about that machine.
  \<^item> \<open>Utf8_Text\<close>: valid UTF-8 as Go decodes it, \<open>Truncate\<close> and the limited texts.
  \<^item> \<open>Stream_Safety\<close>: the invariant of the accumulator and \<open>emits\<close>, a relation between the
    accumulator before and after a method and the outputs it hands out, closed under
    sequencing. \<open>Stream_Finish\<close> and \<open>Stream_Observe\<close> establish it for every method;
    \<open>Stream_Contract\<close> lifts it to all sequences of calls. \<open>Stream_Finish\<close> also gives the
    finishing methods a closed form, from which \<open>Stream_Results\<close> shows what is handed out and
    \<open>Stream_Texts\<close> what the merged parts of an item are.
  \<^item> \<open>Json_Values\<close>: JSON texts that were printed are accepted by the scanner, split into the parts they
    were made of and decoded to the strings and numbers they hold. \<open>Chat_Stream\<close> follows the chunks
    of a chat completion from their bytes to the outputs, through a small machine the accumulator
    is shown to refine (\<open>observe_step\<close>).
  \<^item> \<open>Request_Peek\<close> also shows that upstream reads what the client sent, \<open>Response_Parse\<close> that
    what is read from a response is consistent, \<open>Attribute_Safety\<close> that the attributes of headers
    and bodies are exactly what their limits allow. \<open>Go_Numbers\<close> is the part of Go's number
    parsing and printing they use: a \<open>float64\<close> is the literal it was read from.
  \<^item> \<open>Request_Safety\<close>: the outcome, and the balance of spans under any sequence of the operations
    of a request. \<open>Exchange\<close> composes the body observer with the request state through the
    callbacks of \<open>modifyResponse\<close>; \<open>emits_outputs\<close> relates two states by the output spans started
    between them. \<open>Proxy_Safety\<close> is about \<open>ServeHTTP\<close>, sessions, tracing headers and failures.
  \<^item> \<open>Session_Safety\<close>: any interleaving of requests, timers and shutdown. Its invariant holds with
    any spans of others on the same tracer; \<open>Session_Sharing\<close> gives what the operations of the
    registry and those of a request keep of each other.
  \<^item> \<open>Admission\<close>: any interleaving of admissions, releases, drain and forced close, each critical
    section one step; that no operation on a channel panics or blocks is proved.
  \<^item> \<open>Proxy_System\<close>: through \<open>component_view\<close> the requests in flight are the active requests of the
    admission state; \<open>sessions_match\<close> adds up what they hold: the references to a session are the
    requests that have it, and the spans that are open are those of live sessions, the server
    spans of proxied requests and the client spans of the transports that wait. So no span leaks but
    the client span of a transport that panicked, which the source does not end (\<open>py_abandoned\<close>
    lists them), no session ends under its requests, and a forced close
    shows in the outcome. \<open>Shutdown_Run\<close> follows the calls of the shutdown over such runs:
    what a call has reached is kept by every later step. \<open>Reverse_Proxy\<close> says what upstream gets,
    after \<open>Rewrite\<close>, what \<open>httputil.ReverseProxy\<close> removes and adds around it, and the transport.
    \<open>Proxy_Progress\<close> counts the steps the requests in flight have before them, at most eight for
    each: one can always be taken, and only an admission adds to them. \<open>Trace_Ids\<close> follows the trace ID of a session from
    its header through \<open>traceContext\<close>, the registry and the ID generator to every span of its
    requests, given what the SDK documents of the IDs it hands out (\<open>sdk_traces\<close>).

  \<^item> \<open>Config_Safety\<close>: \<open>validate\<close> against the list of rules it enforces (\<open>valid_config\<close>), what \<open>Load\<close>
    returns, and that its errors are fixed texts; \<open>Redaction\<close>: that the redacted messages of the
    YAML library show no value, whatever they are. \<open>Tracing_Safety\<close>: the environment before, during and after
    \<open>Init\<close>, endpoints, the resource, and that drawing IDs ends. \<open>Span_Limits\<close> counts, through
    every operation of a request (\<open>budget\<close>), the attributes of its server span against the limit
    set in the SDK. \<open>Program\<close>: the limits of a configuration take effect, and the order of the
    shutdown with its effect on the admission state and the session registry.
    \<open>Startup\<close> composes loading, tracing and the handler: when the program starts, every setting of
    the configuration is in effect in the server, the handler, the tracing or the exporter; and
    the only reasons why it does not.

  Recursion and bounds. The loops of the source that are modelled are structural recursion,
  folds or functions with a measure (the parser's \<open>Feed\<close> consumes at least one byte per round,
  the token reader of \<open>peekTruncatedRequest\<close> at least one byte per token, the walk over a JSON
  body goes into shorter texts); only the eviction of sessions counts rounds, as many as there
  are sessions, each of which removes one. Nothing else runs on fuel. The limits of the source
  (128 parts and 64 groups per stream, 1 MiB lines, 256 KiB texts, 1024 sessions, 256
  attributes of a body) are constants of the model.

  Not modelled: the OpenTelemetry SDK with what its sampler, provider, propagator and exporters do
  (\<open>Init\<close> makes them, as values, from the configuration); the YAML decoder; of \<open>net/http\<close> what the proxy is
  given by it (results are arguments; so are SHA-256, \<open>url.Parse\<close>, \<open>URL.EscapedPath\<close>, \<open>mime.ParseMediaType\<close>, the division of floats and the lower case of text that
  is not ASCII); the parsing
  of the command line, and log messages but for the notices of the start. The reverse proxy copies bodies and
  calls the observers of a request in its own order: in \<open>Proxy_System\<close> any order is possible. The
  bodies of several requests are independent of each other, so their observers are not part of
  its state; \<open>Exchange\<close> has them for one request. \<open>nonEmptyJSONString\<close> of \<open>internal/genai/genai.go\<close>
  is called nowhere.
\<close>

end
